(* ===== verification/Prelude.thy ===== *)
theory Prelude
  imports Main "HOL-Library.Word"
begin

text \<open>
  Shared vocabulary of the development: the machine integers of the i686 target, the flat
  32-bit physical memory that the boot loader and the kernel address directly, little-endian
  loads and stores, address ranges modulo \<open>2 ^ 32\<close>, and the two ways a call can fail to
  return (a call of \<open>earlyPanic\<close>, which never returns, and a loop that never ends).
\<close>

unbundle bit_operations_syntax

section \<open>Machine integers and memory\<close>

type_synonym u8 = "8 word"
type_synonym u16 = "16 word"
type_synonym u32 = "32 word"
type_synonym u64 = "64 word"

text \<open>Paging is never enabled, so a pointer is a physical address and memory is one flat map.\<close>

type_synonym memory = "u32 \<Rightarrow> u8"

text \<open>
  \<open>earlyPanic\<close> prints its argument and halts the machine: a call that panics is \<open>Inl msg\<close>,
  one that returns is \<open>Inr v\<close>. Where the source has a loop or a recursion that need not end,
  the result is additionally optional, and \<open>None\<close> means that the call never returns.
\<close>

type_synonym panic = string
type_synonym 'a outcome = "panic + 'a"
type_synonym 'a run = "'a outcome option"

named_theorems mem_simps \<open>reads over writes, for loads and stores of every width\<close>
named_theorems struct_defs \<open>decoders and encoders of the C structs in memory\<close>

section \<open>Loop counters\<close>

lemma word_Suc_unat: "i < n \<Longrightarrow> unat (i + 1) = Suc (unat i)" for i :: "'a::len word"
  by unat_arith

lemma word_count_up: "i < n \<Longrightarrow> unat n - unat (i + 1) < unat n - unat i" for i :: "'a::len word"
  by (auto simp: word_Suc_unat word_less_nat_alt)

lemma word_less_Suc_iff: "i < n \<Longrightarrow> x < i + 1 \<longleftrightarrow> x < i \<or> x = i" for i :: "'a::len word"
  by (auto simp: word_less_nat_alt word_unat_eq_iff word_Suc_unat)

lemma word_pred_less_iff: "i \<noteq> 0 \<Longrightarrow> y < i \<longleftrightarrow> y < i - 1 \<or> y = i - 1" for i :: "'a::len word"
proof -
  assume "i \<noteq> 0"
  then have "unat (i - 1) = unat i - 1" and "0 < unat i"
    by (simp_all add: unat_minus_one unat_gt_0)
  then show ?thesis
    unfolding word_less_nat_alt word_unat_eq_iff by linarith
qed

lemma unat_less_2pow: "unat x < 2 ^ LENGTH('a)" for x :: "'a::len word"
  by (rule unsigned_less)

lemma unat_add_no_wrap:
  "unat x + unat y < 2 ^ LENGTH('a) \<Longrightarrow> unat (x + y) = unat x + unat y" for x :: "'a::len word"
  by (rule iffD1 [OF unat_add_lem])

text \<open>Widening conversions, and a \<open>char\<close> read as a signed number.\<close>

lemma unat_ucast_up: "LENGTH('a) \<le> LENGTH('b) \<Longrightarrow> unat (ucast x :: 'b::len word) = unat x" for x :: "'a::len word"
  by (simp add: unsigned_ucast_eq take_bit_nat_eq_self_iff order_less_le_trans [OF unat_less_2pow])

lemma unat_ucast_small: "unat x < 2 ^ LENGTH('b) \<Longrightarrow> unat (ucast x :: 'b::len word) = unat x" for x :: "'a::len word"
  by (simp add: unsigned_ucast_eq take_bit_nat_eq_self_iff)

lemma sint_u8: "sint c = (if uint c < 128 then uint c else uint c - 256)" for c :: u8
proof -
  have u: "0 \<le> uint c" "uint c < 256" using unsigned_less [of c] by simp_all
  then have "uint c div 128 = 0 \<or> uint c div 128 = 1" by auto
  with u have "bit (uint c) 7 \<longleftrightarrow> 128 \<le> uint c"
    by (auto simp: bit_iff_odd)
  moreover have "take_bit 8 (uint c) = uint c"
    using u by (simp add: take_bit_int_eq_self_iff)
  ultimately show ?thesis
    by (auto simp: sint_uint signed_take_bit_eq_take_bit_minus)
qed

text \<open>Induction for a counter that runs up to a bound, and for one that runs down to zero.\<close>

lemma word_upto_induct [consumes 1, case_names stop step]:
  fixes i n :: "'a::len word"
  assumes "i \<le> n" and "P n" and "\<And>i. i < n \<Longrightarrow> P (i + 1) \<Longrightarrow> P i"
  shows "P i"
  using assms(1)
proof (induction "unat n - unat i" arbitrary: i)
  case 0
  then have "i = n" by (simp add: word_le_nat_alt word_unat_eq_iff)
  with assms(2) show ?case by simp
next
  case (Suc k)
  then have less: "i < n" by (simp add: word_less_nat_alt)
  with Suc have "P (i + 1)" by (simp add: word_Suc_unat inc_le)
  with less show ?case by (rule assms(3))
qed

lemma word_downto_induct [case_names zero pred]:
  fixes n :: "'a::len word"
  assumes "P 0" and "\<And>n. n \<noteq> 0 \<Longrightarrow> P (n - 1) \<Longrightarrow> P n"
  shows "P n"
proof (induction "unat n" arbitrary: n rule: less_induct)
  case less
  show ?case
  proof (cases "n = 0")
    case False
    with less have "P (n - 1)" by (simp add: measure_unat)
    with False show ?thesis by (rule assms(2))
  qed (simp add: assms(1))
qed

section \<open>Address ranges\<close>

text \<open>
  The \<open>n\<close> bytes from \<open>a\<close> are the addresses \<open>x\<close> with \<open>x - a < n\<close>, subtraction modulo
  \<open>2 ^ 32\<close>. Two ranges are separate when each starts at or after the end of the other, going
  up and around the address space.
\<close>

definition sep :: "u32 \<Rightarrow> u32 \<Rightarrow> u32 \<Rightarrow> u32 \<Rightarrow> bool" where
  "sep a n b k \<longleftrightarrow> n \<le> b - a \<and> k \<le> a - b"

lemma sep_sym: "sep a n b k \<longleftrightarrow> sep b k a n"
  by (auto simp: sep_def)

lemma sepD: "sep a n b k \<Longrightarrow> x - a < n \<Longrightarrow> \<not> x - b < k"
  unfolding sep_def by uint_arith

lemma sepD2: "sep a n b k \<Longrightarrow> x - b < k \<Longrightarrow> \<not> x - a < n"
  using sepD by blast

lemma two_not_le_one [simp]: "\<not> (2 :: u32) \<le> 1"
  by (simp add: word_le_nat_alt)

section \<open>Little-endian loads and stores\<close>

definition load16 :: "memory \<Rightarrow> u32 \<Rightarrow> u16" where
  "load16 m a = ucast (m a) OR push_bit 8 (ucast (m (a + 1)))"

definition store16 :: "memory \<Rightarrow> u32 \<Rightarrow> u16 \<Rightarrow> memory" where
  "store16 m a v = m(a := ucast v, a + 1 := ucast (drop_bit 8 v))"

definition load32 :: "memory \<Rightarrow> u32 \<Rightarrow> u32" where
  "load32 m a = ucast (load16 m a) OR push_bit 16 (ucast (load16 m (a + 2)))"

definition store32 :: "memory \<Rightarrow> u32 \<Rightarrow> u32 \<Rightarrow> memory" where
  "store32 m a v = store16 (store16 m a (ucast v)) (a + 2) (ucast (drop_bit 16 v))"

definition load64 :: "memory \<Rightarrow> u32 \<Rightarrow> u64" where
  "load64 m a = ucast (load32 m a) OR push_bit 32 (ucast (load32 m (a + 4)))"

definition store64 :: "memory \<Rightarrow> u32 \<Rightarrow> u64 \<Rightarrow> memory" where
  "store64 m a v = store32 (store32 m a (ucast v)) (a + 4) (ucast (drop_bit 32 v))"

lemmas load_defs = load16_def load32_def load64_def
lemmas store_defs = store16_def store32_def store64_def

lemma store16_other: "\<not> x - a < 2 \<Longrightarrow> store16 m a v x = m x"
  by (auto simp: store16_def)

lemma load16_cong:
  assumes "\<And>k. k < 2 \<Longrightarrow> m (a + k) = m' (a + k)"
  shows "load16 m a = load16 m' a"
  using assms [of 0] assms [of 1] by (simp add: load16_def)

lemma store32_other: "\<not> x - a < 4 \<Longrightarrow> store32 m a v x = m x"
  unfolding store32_def by (subst store16_other, uint_arith, rule store16_other, uint_arith)

lemma load32_cong:
  assumes "\<And>k. k < 4 \<Longrightarrow> m (a + k) = m' (a + k)"
  shows "load32 m a = load32 m' a"
  using assms [of 0] assms [of 1] assms [of 2] assms [of 3]
  by (simp add: load32_def load16_def add.assoc)

lemma load64_cong:
  assumes "\<And>k. k < 8 \<Longrightarrow> m (a + k) = m' (a + k)"
  shows "load64 m a = load64 m' a"
  using assms [of 0] assms [of 1] assms [of 2] assms [of 3]
    assms [of 4] assms [of 5] assms [of 6] assms [of 7]
  by (simp add: load64_def load32_def load16_def add.assoc)

lemma load16_store16 [mem_simps]: "load16 (store16 m a v) a = v"
  by (rule bit_word_eqI) (auto simp: load16_def store16_def bit_simps)

lemma sep_shift: "sep a n b k \<Longrightarrow> i < k \<Longrightarrow> \<not> (b + i) - a < n"
  by (rule sepD2 [of a n b k]) simp_all

lemma load16_sep:
  assumes "sep a n b 2" "\<And>x. \<not> x - a < n \<Longrightarrow> m' x = m x"
  shows "load16 m' b = load16 m b"
  by (rule load16_cong) (use assms sep_shift in blast)

lemma load32_sep:
  assumes "sep a n b 4" "\<And>x. \<not> x - a < n \<Longrightarrow> m' x = m x"
  shows "load32 m' b = load32 m b"
  by (rule load32_cong) (use assms sep_shift in blast)

lemma load32_store32 [mem_simps]: "load32 (store32 m a v) a = v"
proof -
  have "sep (a + 2) 2 a 2" by (simp add: sep_def)
  then have "load16 (store32 m a v) a = ucast v"
    by (simp add: store32_def mem_simps load16_sep [OF _ store16_other])
  moreover have "load16 (store32 m a v) (a + 2) = ucast (drop_bit 16 v)"
    by (simp add: store32_def mem_simps)
  ultimately show ?thesis
    by (intro bit_word_eqI) (auto simp: load32_def bit_simps)
qed

lemma load32_store32_sep [mem_simps]: "sep a 4 b 4 \<Longrightarrow> load32 (store32 m a v) b = load32 m b"
  by (erule load32_sep) (rule store32_other)

lemma load32_upd_sep [mem_simps]: "sep a 1 b 4 \<Longrightarrow> load32 (m(a := v)) b = load32 m b"
  by (erule load32_sep) auto

lemma load64_store64 [mem_simps]: "load64 (store64 m a v) a = v"
proof -
  have "sep (a + 4) 4 a 4" by (simp add: sep_def word_le_nat_alt)
  then have "load32 (store64 m a v) a = ucast v"
    by (simp add: store64_def mem_simps)
  moreover have "load32 (store64 m a v) (a + 4) = ucast (drop_bit 32 v)"
    by (simp add: store64_def mem_simps)
  ultimately show ?thesis
    by (intro bit_word_eqI) (auto simp: load64_def bit_simps)
qed

lemma store64_other: "\<not> x - a < 8 \<Longrightarrow> store64 m a v x = m x"
  unfolding store64_def by (subst store32_other, uint_arith, rule store32_other, uint_arith)

section \<open>Writing a list of bytes\<close>

definition write_bytes :: "memory \<Rightarrow> u32 \<Rightarrow> u8 list \<Rightarrow> memory" where
  "write_bytes m a xs = (\<lambda>x. if unat (x - a) < length xs then xs ! unat (x - a) else m x)"

definition read_bytes :: "memory \<Rightarrow> u32 \<Rightarrow> nat \<Rightarrow> u8 list" where
  "read_bytes m a n = map (\<lambda>k. m (a + of_nat k)) [0..<n]"

lemma write_bytes_Nil [simp]: "write_bytes m a [] = m"
  by (simp add: write_bytes_def)

lemma write_bytes_outside: "\<not> unat (x - a) < length xs \<Longrightarrow> write_bytes m a xs x = m x"
  by (simp add: write_bytes_def)

lemma write_bytes_inside:
  "k < length xs \<Longrightarrow> k < 2 ^ 32 \<Longrightarrow> write_bytes m a xs (a + of_nat k) = xs ! k"
  by (simp add: write_bytes_def unat_of_nat)

lemma write_bytes_snoc:
  assumes "length xs < 2 ^ 32"
  shows "(write_bytes m a xs)(a + of_nat (length xs) := y) = write_bytes m a (xs @ [y])"
proof
  fix x
  have "x = a + of_nat (length xs) \<longleftrightarrow> x - a = of_nat (length xs)"
    by (auto simp: algebra_simps)
  also have "\<dots> \<longleftrightarrow> unat (x - a) = length xs"
    using assms by (simp add: word_unat_eq_iff unat_of_nat)
  finally have "x = a + of_nat (length xs) \<longleftrightarrow> unat (x - a) = length xs" .
  then show "((write_bytes m a xs)(a + of_nat (length xs) := y)) x = write_bytes m a (xs @ [y]) x"
    by (auto simp: write_bytes_def nth_append)
qed

lemma length_read_bytes [simp]: "length (read_bytes m a n) = n"
  by (simp add: read_bytes_def)

lemma read_write_bytes:
  "length xs < 2 ^ 32 \<Longrightarrow> read_bytes (write_bytes m a xs) a (length xs) = xs"
  by (rule nth_equalityI) (simp_all add: read_bytes_def write_bytes_inside)

lemma read_bytes_cong: "(\<And>k. k < n \<Longrightarrow> m' (a + of_nat k) = m (a + of_nat k)) \<Longrightarrow> read_bytes m' a n = read_bytes m a n"
  by (simp add: read_bytes_def)

lemma read_bytes_Suc: "read_bytes m a (Suc n) = m a # read_bytes m (a + 1) n"
  unfolding read_bytes_def upt_conv_Cons [OF zero_less_Suc]
  by (simp add: map_Suc_upt [symmetric] add.assoc del: upt_Suc)

lemma read_bytes_0 [simp]: "read_bytes m a 0 = []"
  by (simp add: read_bytes_def)

lemma less_8: "n < 8 \<longleftrightarrow> n = 0 \<or> n = 1 \<or> n = 2 \<or> n = 3 \<or> n = 4 \<or> n = 5 \<or> n = 6 \<or> n = (7 :: nat)"
  by auto

end
