(* ===== verification/CString.thy ===== *)
theory CString
  imports Prelude
begin

text \<open>
  The freestanding C library of \<open>src/lib/stdlibC/string.c\<close>: \<open>memcpy\<close>, \<open>memset\<close>,
  \<open>memcmp\<close>, \<open>memmove\<close>, \<open>strlen\<close>, \<open>strcmp\<close> and \<open>strcpy\<close> over the flat memory. Counters
  are \<open>size_t\<close> (32 bits). The counted loops are total; the three string loops run until they
  meet a NUL byte, so they are partial. The locale \<open>block_copy\<close> is what the callers of a
  copying routine rely on; \<open>memcpy\<close> and \<open>memmove\<close> both provide it, under different
  conditions on the two ranges.
\<close>

section \<open>Operations\<close>

function memcpy_loop :: "memory \<Rightarrow> u32 \<Rightarrow> u32 \<Rightarrow> u32 \<Rightarrow> u32 \<Rightarrow> memory" where
  "memcpy_loop m dst src i n =
     (if i < n then memcpy_loop (m(dst + i := m (src + i))) dst src (i + 1) n else m)"
  by pat_completeness auto
termination
  by (relation "measure (\<lambda>(m, dst, src, i, n). unat n - unat i)")
     (auto simp: word_Suc_unat word_less_nat_alt)

definition memcpy :: "memory \<Rightarrow> u32 \<Rightarrow> u32 \<Rightarrow> u32 \<Rightarrow> memory" where
  "memcpy m dstptr srcptr n = memcpy_loop m dstptr srcptr 0 n"

text \<open>The \<open>int value\<close> argument of \<open>memset\<close> is truncated to \<open>unsigned char\<close>.\<close>

function memset_loop :: "memory \<Rightarrow> u32 \<Rightarrow> u32 \<Rightarrow> u32 \<Rightarrow> u32 \<Rightarrow> memory" where
  "memset_loop m buf v i n =
     (if i < n then memset_loop (m(buf + i := ucast v)) buf v (i + 1) n else m)"
  by pat_completeness auto
termination
  by (relation "measure (\<lambda>(m, buf, v, i, n). unat n - unat i)")
     (auto simp: word_Suc_unat word_less_nat_alt)

definition memset :: "memory \<Rightarrow> u32 \<Rightarrow> u32 \<Rightarrow> u32 \<Rightarrow> memory" where
  "memset m bufptr v n = memset_loop m bufptr v 0 n"

function memcmp_loop :: "memory \<Rightarrow> u32 \<Rightarrow> u32 \<Rightarrow> u32 \<Rightarrow> u32 \<Rightarrow> int" where
  "memcmp_loop m a b i n =
     (if i < n then
        if m (a + i) < m (b + i) then -1
        else if m (b + i) < m (a + i) then 1
        else memcmp_loop m a b (i + 1) n
      else 0)"
  by pat_completeness auto
termination
  by (relation "measure (\<lambda>(m, a, b, i, n). unat n - unat i)")
     (auto simp: word_Suc_unat word_less_nat_alt)

definition memcmp :: "memory \<Rightarrow> u32 \<Rightarrow> u32 \<Rightarrow> u32 \<Rightarrow> int" where
  "memcmp m ptr1 ptr2 n = memcmp_loop m ptr1 ptr2 0 n"

text \<open>The descending loop of \<open>memmove\<close>; its ascending loop is that of \<open>memcpy\<close>.\<close>

function memmove_down :: "memory \<Rightarrow> u32 \<Rightarrow> u32 \<Rightarrow> u32 \<Rightarrow> memory" where
  "memmove_down m dst src i =
     (if i \<noteq> 0 then memmove_down (m(dst + (i - 1) := m (src + (i - 1)))) dst src (i - 1) else m)"
  by pat_completeness auto
termination
  by (relation "measure (\<lambda>(m, dst, src, i). unat i)") (auto simp: measure_unat)

definition memmove :: "memory \<Rightarrow> u32 \<Rightarrow> u32 \<Rightarrow> u32 \<Rightarrow> memory" where
  "memmove m dstptr srcptr n =
     (if dstptr < srcptr then memcpy_loop m dstptr srcptr 0 n
      else memmove_down m dstptr srcptr n)"

declare memcpy_loop.simps [simp del] memset_loop.simps [simp del]
  memcmp_loop.simps [simp del] memmove_down.simps [simp del]

partial_function (option) strlen_loop :: "memory \<Rightarrow> u32 \<Rightarrow> u32 \<Rightarrow> u32 option" where
  "strlen_loop m str len = (if m (str + len) \<noteq> 0 then strlen_loop m str (len + 1) else Some len)"

definition strlen :: "memory \<Rightarrow> u32 \<Rightarrow> u32 option" where
  "strlen m str = strlen_loop m str 0"

text \<open>\<open>char\<close> is signed on this target, so the difference of two characters is signed.\<close>

definition char_diff :: "u8 \<Rightarrow> u8 \<Rightarrow> int" where
  "char_diff x y = sint x - sint y"

partial_function (option) strcmp_loop :: "memory \<Rightarrow> u32 \<Rightarrow> u32 \<Rightarrow> u32 \<Rightarrow> int option" where
  "strcmp_loop m str1 str2 i =
     (if m (str1 + i) \<noteq> 0 \<and> m (str2 + i) \<noteq> 0 then
        if m (str1 + i) \<noteq> m (str2 + i) then Some (char_diff (m (str1 + i)) (m (str2 + i)))
        else strcmp_loop m str1 str2 (i + 1)
      else Some (char_diff (m (str1 + i)) (m (str2 + i))))"

definition strcmp :: "memory \<Rightarrow> u32 \<Rightarrow> u32 \<Rightarrow> int option" where
  "strcmp m str1 str2 = strcmp_loop m str1 str2 0"

text \<open>The \<open>do \<dots> while\<close> loop of \<open>strcpy\<close> re-reads \<open>src[i]\<close> after the write to \<open>dest[i]\<close>.\<close>

partial_function (option) strcpy_loop :: "memory \<Rightarrow> u32 \<Rightarrow> u32 \<Rightarrow> u32 \<Rightarrow> memory option" where
  "strcpy_loop m dest src i =
     (let m' = m(dest + i := m (src + i))
      in if m' (src + i) \<noteq> 0 then strcpy_loop m' dest src (i + 1) else Some m')"

definition strcpy :: "memory \<Rightarrow> u32 \<Rightarrow> u32 \<Rightarrow> memory option" where
  "strcpy m dest src = strcpy_loop m dest src 0"

section \<open>Copying a block of memory\<close>

text \<open>What a copy of \<open>n\<close> bytes is meant to do, whatever order it works in.\<close>

definition copied :: "memory \<Rightarrow> u32 \<Rightarrow> u32 \<Rightarrow> u32 \<Rightarrow> memory" where
  "copied m dst src n = (\<lambda>x. if x - dst < n then m (src + (x - dst)) else m x)"

text \<open>The state of a descending copy that still has the first \<open>i\<close> bytes to do.\<close>

definition copied_from :: "memory \<Rightarrow> u32 \<Rightarrow> u32 \<Rightarrow> u32 \<Rightarrow> u32 \<Rightarrow> memory" where
  "copied_from m dst src i n = (\<lambda>x. if x - dst < n \<and> \<not> x - dst < i then m (src + (x - dst)) else m x)"

lemma copied_0 [simp]: "copied m dst src 0 = m"
  by (simp add: copied_def)

lemma copied_from_0 [simp]: "copied_from m dst src 0 n = copied m dst src n"
  by (simp add: copied_from_def copied_def)

lemma copied_from_self [simp]: "copied_from m dst src n n = m"
  by (simp add: copied_from_def)

lemma copied_outside: "\<not> x - dst < n \<Longrightarrow> copied m dst src n x = m x"
  by (simp add: copied_def)

lemma copied_inside: "k < n \<Longrightarrow> copied m dst src n (dst + k) = m (src + k)"
  by (simp add: copied_def)

lemma copied_step:
  assumes "i < n" and "\<not> src + i - dst < i"
  shows "(copied m dst src i)(dst + i := copied m dst src i (src + i)) = copied m dst src (i + 1)"
  using assms by (auto simp: copied_def fun_eq_iff word_less_Suc_iff)

lemma copied_from_step:
  assumes "i \<noteq> 0" and "i \<le> n" and "\<And>k. k < n \<Longrightarrow> \<not> k < i \<Longrightarrow> dst + k \<noteq> src + (i - 1)"
  shows "(copied_from m dst src i n)(dst + (i - 1) := copied_from m dst src i n (src + (i - 1)))
    = copied_from m dst src (i - 1) n"
proof
  fix x
  have "i - 1 < n"
    using assms(1,2) word_pred_less_iff [of i "i - 1"] by (auto intro: order_less_le_trans)
  moreover have "copied_from m dst src i n (src + (i - 1)) = m (src + (i - 1))"
    using assms(3) [of "src + (i - 1) - dst"] by (auto simp: copied_from_def)
  moreover have "x \<noteq> dst + (i - 1) \<Longrightarrow> x - dst \<noteq> i - 1"
    by (metis add.commute diff_add_cancel)
  ultimately show "((copied_from m dst src i n)(dst + (i - 1) := copied_from m dst src i n (src + (i - 1)))) x
      = copied_from m dst src (i - 1) n x"
    using word_pred_less_iff [OF assms(1)] by (auto simp: copied_from_def)
qed

lemma memcpy_loop_copied:
  assumes "i \<le> n" and "\<And>j. j < n \<Longrightarrow> \<not> src + j - dst < j"
  shows "memcpy_loop (copied m dst src i) dst src i n = copied m dst src n"
  using assms(1)
proof (induction rule: word_upto_induct)
  case stop
  show ?case by (simp add: memcpy_loop.simps)
next
  case (step i)
  then show ?case
    using assms(2) by (subst memcpy_loop.simps) (simp add: copied_step [of i n])
qed

lemma memmove_down_copied:
  assumes "i \<le> n" and "\<And>i k. i < n \<Longrightarrow> k < n \<Longrightarrow> i < k \<Longrightarrow> dst + k \<noteq> src + i"
  shows "memmove_down (copied_from m dst src i n) dst src i = copied m dst src n"
  using assms(1)
proof (induction i rule: word_downto_induct)
  case zero
  show ?case by (simp add: memmove_down.simps)
next
  case (pred i)
  have j: "i - 1 < n"
    using pred word_pred_less_iff [of i "i - 1"] by (auto intro: order_less_le_trans)
  have "dst + k \<noteq> src + (i - 1)" if "k < n" "\<not> k < i" for k
    using that assms(2) [OF j, of k] word_pred_less_iff [OF pred.hyps(1), of k] by force
  with pred j show ?case
    by (subst memmove_down.simps) (simp add: copied_from_step)
qed

subsection \<open>The contract of a copying routine\<close>

text \<open>
  \<open>copy m dst src n\<close> is the memory after the call, \<open>admissible\<close> the condition on the two
  ranges under which the routine promises a faithful copy.
\<close>

locale block_copy =
  fixes copy :: "memory \<Rightarrow> u32 \<Rightarrow> u32 \<Rightarrow> u32 \<Rightarrow> memory"
    and admissible :: "u32 \<Rightarrow> u32 \<Rightarrow> u32 \<Rightarrow> bool"
  assumes copy_inside: "admissible dst src n \<Longrightarrow> k < n \<Longrightarrow> copy m dst src n (dst + k) = m (src + k)"
    and copy_outside: "admissible dst src n \<Longrightarrow> \<not> x - dst < n \<Longrightarrow> copy m dst src n x = m x"
begin

lemma copy_eq_copied: "admissible dst src n \<Longrightarrow> copy m dst src n = copied m dst src n"
proof
  fix x
  assume ok: "admissible dst src n"
  show "copy m dst src n x = copied m dst src n x"
  proof (cases "x - dst < n")
    case True
    with copy_inside [OF ok, of "x - dst"] show ?thesis by (simp add: copied_def)
  next
    case False
    with copy_outside [OF ok] show ?thesis by (simp add: copied_def)
  qed
qed

lemma copy_load32:
  assumes "admissible dst src n" and "\<And>j. j < 4 \<Longrightarrow> k + j < n"
  shows "load32 (copy m dst src n) (dst + k) = load32 m (src + k)"
  using copy_inside [OF assms(1)] assms(2) [of 0] assms(2) [of 1] assms(2) [of 2] assms(2) [of 3]
  by (simp add: load32_def load16_def add.assoc)

lemma copy_load32_frame:
  assumes "admissible dst src n" and "sep dst n a 4"
  shows "load32 (copy m dst src n) a = load32 m a"
  using assms(2) copy_outside [OF assms(1)] by (rule load32_sep)

lemma copy_self_range: "admissible dst src n \<Longrightarrow> n = 0 \<Longrightarrow> copy m dst src n = m"
  using copy_eq_copied by simp

end

text \<open>No range of the call wraps around the top of the address space.\<close>

definition in_bounds :: "u32 \<Rightarrow> u32 \<Rightarrow> bool" where
  "in_bounds a n \<longleftrightarrow> unat a + unat n \<le> 2 ^ 32"

lemma ascending_safe:
  fixes src dst :: u32
  assumes "unat (src - dst) + unat n \<le> 2 ^ 32" and "j < n"
  shows "\<not> src + j - dst < j"
proof -
  have "unat (src - dst) + unat j < 2 ^ LENGTH(32)"
    using assms by (simp add: word_less_nat_alt)
  then have "unat ((src - dst) + j) = unat (src - dst) + unat j"
    by (rule unat_add_no_wrap)
  then show ?thesis by (simp add: word_less_nat_alt algebra_simps)
qed

lemma sep_ascending_safe: "sep dst n src n \<Longrightarrow> j < n \<Longrightarrow> \<not> src + j - dst < j"
  unfolding sep_def by uint_arith

lemma in_bounds_no_clash:
  assumes "in_bounds dst n" and "in_bounds src n" and "\<not> dst < src" and "i < n" and "k < n" and "i < k"
  shows "dst + k \<noteq> src + i"
proof -
  have "unat (dst + k) = unat dst + unat k" and "unat (src + i) = unat src + unat i"
    using assms by (auto simp: in_bounds_def word_less_nat_alt intro!: unat_add_no_wrap)
  then show ?thesis
    using assms(3,6) by (auto simp: word_less_nat_alt word_unat_eq_iff)
qed

lemma memcpy_eq_copied: "sep dst n src n \<Longrightarrow> memcpy m dst src n = copied m dst src n"
  using memcpy_loop_copied [of 0 n src dst m] sep_ascending_safe by (simp add: memcpy_def)

lemma memmove_eq_copied:
  assumes "in_bounds dst n" and "in_bounds src n"
  shows "memmove m dst src n = copied m dst src n"
proof (cases "dst < src")
  case True
  then have "unat (src - dst) = unat src - unat dst"
    by (simp add: unat_sub order_less_imp_le)
  with assms(2) have "unat (src - dst) + unat n \<le> 2 ^ 32"
    by (simp add: in_bounds_def)
  then show ?thesis
    using True memcpy_loop_copied [of 0 n src dst m] ascending_safe by (simp add: memmove_def)
next
  case False
  with assms show ?thesis
    using memmove_down_copied [of n n dst src m] in_bounds_no_clash by (simp add: memmove_def)
qed

interpretation cpy: block_copy memcpy "\<lambda>dst src n. sep dst n src n"
  by unfold_locales (simp_all add: memcpy_eq_copied copied_inside copied_outside)

interpretation mov: block_copy memmove "\<lambda>dst src n. in_bounds dst n \<and> in_bounds src n"
  by unfold_locales (simp_all add: memmove_eq_copied copied_inside copied_outside)

section \<open>Filling and comparing\<close>

definition filled :: "memory \<Rightarrow> u32 \<Rightarrow> u8 \<Rightarrow> u32 \<Rightarrow> memory" where
  "filled m buf v n = (\<lambda>x. if x - buf < n then v else m x)"

lemma filled_step: "i < n \<Longrightarrow> (filled m buf v i)(buf + i := v) = filled m buf v (i + 1)"
  by (auto simp: filled_def fun_eq_iff word_less_Suc_iff)

lemma memset_loop_filled:
  "i \<le> n \<Longrightarrow> memset_loop (filled m buf (ucast v) i) buf v i n = filled m buf (ucast v) n"
proof (induction rule: word_upto_induct)
  case stop
  show ?case by (simp add: memset_loop.simps)
next
  case (step i)
  then show ?case by (subst memset_loop.simps) (simp add: filled_step [of i n])
qed

lemma memset_eq_filled: "memset m buf v n = filled m buf (ucast v) n"
  using memset_loop_filled [of 0 n m buf v] by (simp add: memset_def filled_def)

text \<open>Comparing two lists of bytes of the same length.\<close>

fun list_compare :: "u8 list \<Rightarrow> u8 list \<Rightarrow> int" where
  "list_compare (x # xs) (y # ys) = (if x < y then -1 else if y < x then 1 else list_compare xs ys)"
| "list_compare xs ys = 0"

lemma list_compare_eq_0_iff: "length xs = length ys \<Longrightarrow> list_compare xs ys = 0 \<longleftrightarrow> xs = ys"
  by (induction xs ys rule: list_compare.induct) auto

lemma memcmp_loop_compare:
  "i \<le> n \<Longrightarrow> memcmp_loop m a b i n = list_compare (read_bytes m (a + i) (unat n - unat i)) (read_bytes m (b + i) (unat n - unat i))"
proof (induction rule: word_upto_induct)
  case stop
  then show ?case by (simp add: memcmp_loop.simps)
next
  case (step i)
  have "unat n - unat i = Suc (unat n - unat (i + 1))"
    using step.hyps by (simp add: word_Suc_unat word_less_nat_alt)
  with step show ?case by (subst memcmp_loop.simps) (simp add: read_bytes_Suc add.assoc)
qed

lemma memcmp_compare: "memcmp m a b n = list_compare (read_bytes m a (unat n)) (read_bytes m b (unat n))"
  using memcmp_loop_compare [of 0 n m a b] by (simp add: memcmp_def)

section \<open>C strings\<close>

text \<open>\<open>cstr m s xs\<close>: the NUL-terminated string at \<open>s\<close> has exactly the characters \<open>xs\<close>.\<close>

fun cstr :: "memory \<Rightarrow> u32 \<Rightarrow> u8 list \<Rightarrow> bool" where
  "cstr m s [] \<longleftrightarrow> m s = 0"
| "cstr m s (x # xs) \<longleftrightarrow> m s = x \<and> x \<noteq> 0 \<and> cstr m (s + 1) xs"

lemma cstr_nth:
  "cstr m s xs \<longleftrightarrow> (\<forall>k < length xs. m (s + of_nat k) = xs ! k \<and> xs ! k \<noteq> 0) \<and> m (s + of_nat (length xs)) = 0"
proof (induction xs arbitrary: s)
  case (Cons x xs)
  show ?case
    by (auto simp add: Cons All_less_Suc2 add.assoc add.left_commute)
qed simp

lemma cstr_write_bytes:
  "0 \<notin> set xs \<Longrightarrow> length xs < 2 ^ 32 \<Longrightarrow> cstr (write_bytes m a (xs @ [0])) a xs"
  by (auto simp: cstr_nth write_bytes_inside nth_append in_set_conv_nth)

lemma cstr_no_nul: "cstr m s xs \<Longrightarrow> 0 \<notin> set xs"
  by (induction xs arbitrary: s) auto

lemma cstr_unique: "cstr m s xs \<Longrightarrow> cstr m s ys \<Longrightarrow> xs = ys"
proof (induction xs arbitrary: s ys)
  case Nil
  then show ?case by (cases ys) auto
next
  case (Cons x xs)
  then show ?case by (cases ys) auto
qed

lemma cstr_exists:
  assumes "m x = 0"
  shows "\<exists>xs. cstr m s xs \<and> length xs < 2 ^ 32"
proof -
  define K where "K = (LEAST k. m (s + of_nat k) = 0)"
  have "m (s + of_nat (unat (x - s))) = 0"
    using assms by simp
  then have "m (s + of_nat K) = 0" and "K \<le> unat (x - s)"
    unfolding K_def by (rule LeastI, rule Least_le)
  moreover have "m (s + of_nat k) \<noteq> 0" if "k < K" for k
    using not_less_Least that unfolding K_def by blast
  ultimately have "cstr m s (map (\<lambda>k. m (s + of_nat k)) [0..<K])"
    by (simp add: cstr_nth)
  moreover have "K < 2 ^ 32"
    using \<open>K \<le> unat (x - s)\<close> unat_less_2pow [of "x - s"] by simp
  ultimately show ?thesis by (intro exI [of _ "map (\<lambda>k. m (s + of_nat k)) [0..<K]"]) simp
qed

lemma cstr_length: "cstr m s xs \<Longrightarrow> length xs < 2 ^ 32"
  using cstr_exists [of m "s + of_nat (length xs)" s] cstr_unique by (auto simp: cstr_nth)

lemma strlen_loop_cstr: "cstr m (s + i) xs \<Longrightarrow> strlen_loop m s i = Some (i + of_nat (length xs))"
proof (induction xs arbitrary: i)
  case (Cons x xs)
  then have "strlen_loop m s (i + 1) = Some (i + 1 + of_nat (length xs))"
    by (simp add: add.assoc)
  with Cons.prems show ?case by (simp add: strlen_loop.simps [of m s i] algebra_simps)
qed (simp add: strlen_loop.simps)

lemma strlen_loop_stops:
  assumes "strlen_loop m s i = Some n"
  shows "m (s + n) = 0"
  by (rule strlen_loop.raw_induct [where P = "\<lambda>m s i n. m (s + n) = 0", OF _ assms])
     (auto split: if_splits)

lemma strlen_cstr: "cstr m s xs \<Longrightarrow> strlen m s = Some (of_nat (length xs))"
  using strlen_loop_cstr [of m s 0 xs] by (simp add: strlen_def)

fun strcmp_spec :: "u8 list \<Rightarrow> u8 list \<Rightarrow> int" where
  "strcmp_spec (x # xs) (y # ys) = (if x \<noteq> y then char_diff x y else strcmp_spec xs ys)"
| "strcmp_spec (x # xs) [] = char_diff x 0"
| "strcmp_spec [] (y # ys) = char_diff 0 y"
| "strcmp_spec [] [] = 0"

lemma char_diff_eq_0_iff [simp]: "char_diff x y = 0 \<longleftrightarrow> x = y"
  by (auto simp: char_diff_def dest: signed_word_eqI)

lemma strcmp_spec_eq_0_iff: "0 \<notin> set xs \<Longrightarrow> 0 \<notin> set ys \<Longrightarrow> strcmp_spec xs ys = 0 \<longleftrightarrow> xs = ys"
  by (induction xs ys rule: strcmp_spec.induct) auto

lemma strcmp_loop_cstr:
  "cstr m (a + i) xs \<Longrightarrow> cstr m (b + i) ys \<Longrightarrow> strcmp_loop m a b i = Some (strcmp_spec xs ys)"
  by (induction xs ys arbitrary: i rule: strcmp_spec.induct)
     (simp_all add: strcmp_loop.simps [of m a b] add.assoc char_diff_def)

lemma strcmp_cstr: "cstr m a xs \<Longrightarrow> cstr m b ys \<Longrightarrow> strcmp m a b = Some (strcmp_spec xs ys)"
  using strcmp_loop_cstr [of m a 0 xs b ys] by (simp add: strcmp_def)

lemma strcpy_loop_cstr:
  assumes "cstr m (src + i) xs" and "unat i + length xs + 1 < 2 ^ 32"
    and "sep dest N src N" and "N = i + of_nat (length xs) + 1"
  shows "strcpy_loop (copied m dest src i) dest src i = Some (copied m dest src N)"
  using assms(1,2,4)
proof (induction xs arbitrary: i)
  case Nil
  then have iN: "i < N" 
    by (simp add: word_less_nat_alt unat_word_ariths)
  have src: "\<not> src + i - dest < N" using sep_shift [OF assms(3) iN] .
  then have src': "\<not> src + i - dest < i" using iN by (meson order_less_trans)
  from iN src' have "(copied m dest src i)(dest + i := copied m dest src i (src + i)) = copied m dest src N"
    using Nil.prems(3) by (simp add: copied_step)
  moreover have "copied m dest src N (src + i) = 0"
    using src Nil.prems(1) by (simp add: copied_def)
  ultimately show ?case by (simp add: strcpy_loop.simps [of _ dest src i] Let_def)
next
  case (Cons x xs)
  have "unat N = unat i + length (x # xs) + 1"
    using Cons.prems(2) by (simp add: Cons.prems(3) unat_word_ariths unat_of_nat)
  then have iN: "i < N"
    by (simp add: word_less_nat_alt)
  then have i1: "unat (i + 1) = unat i + 1"
    by (simp add: word_Suc_unat)
  have src: "\<not> src + i - dest < N" using sep_shift [OF assms(3) iN] .
  then have src': "\<not> src + i - dest < i" using iN by (meson order_less_trans)
  have step: "(copied m dest src i)(dest + i := copied m dest src i (src + i)) = copied m dest src (i + 1)"
    using iN src' by (simp add: copied_step)
  have "copied m dest src (i + 1) (src + i) = x"
    using src Cons.prems(1) iN by (auto simp: copied_def word_less_Suc_iff)
  moreover have "strcpy_loop (copied m dest src (i + 1)) dest src (i + 1) = Some (copied m dest src N)"
    using Cons.prems i1 by (intro Cons.IH) (simp_all add: add.assoc)
  ultimately show ?case
    using Cons.prems(1) by (simp add: strcpy_loop.simps [of _ dest src i] Let_def step)
qed

section \<open>What the library guarantees\<close>

text \<open>
  C16. \<open>memmove\<close> copies \<open>n\<close> bytes faithfully even when the two ranges overlap, in either
  direction, and changes nothing else.
\<close>

theorem memmove_correct:
  assumes "in_bounds dst n" and "in_bounds src n"
  shows "(\<forall>k. k < n \<longrightarrow> memmove m dst src n (dst + k) = m (src + k)) \<and>
    (\<forall>x. \<not> x - dst < n \<longrightarrow> memmove m dst src n x = m x)"
  using assms mov.copy_inside mov.copy_outside by blast

theorem memmove_correct_witness:
  "in_bounds 0x11 3 \<and> in_bounds 0x10 3 \<and>
   (2 :: u32) < 3 \<and> memmove ucast 0x11 0x10 3 (0x11 + 2) = 0x12 \<and> memmove ucast 0x11 0x10 3 0x10 = 0x10"
proof -
  have h: "in_bounds 0x11 3" "in_bounds 0x10 3"
    by (simp_all add: in_bounds_def)
  show ?thesis
    using h memmove_correct [OF h, of ucast, THEN conjunct1, rule_format, of 2]
      memmove_correct [OF h, of ucast, THEN conjunct2, rule_format, of "0x10"] by simp
qed

text \<open>
  C33. \<open>memcmp\<close> is the comparison of the two lists of \<open>n\<close> bytes as unsigned numbers by the first difference, and
  so 0 exactly when the ranges have the same contents.
\<close>

theorem memcmp_equals_list_compare:
  "memcmp m a b n = list_compare (read_bytes m a (unat n)) (read_bytes m b (unat n)) \<and>
   (memcmp m a b n = 0 \<longleftrightarrow> read_bytes m a (unat n) = read_bytes m b (unat n))"
  by (simp add: memcmp_compare list_compare_eq_0_iff)

text \<open>
  \<open>strlen\<close> returns \<open>n\<close> exactly when \<open>n\<close> is the index of the first NUL byte, and it runs
  forever exactly when no byte of the address space is NUL.
\<close>

theorem strlen_spec:
  "(strlen m s = Some n \<longleftrightarrow> m (s + n) = 0 \<and> (\<forall>k. k < n \<longrightarrow> m (s + k) \<noteq> 0)) \<and>
   (strlen m s = None \<longleftrightarrow> (\<forall>x. m x \<noteq> 0))"
proof (cases "\<forall>x. m x \<noteq> 0")
  case True
  then show ?thesis
    using strlen_loop_stops [of m s 0] by (cases "strlen m s") (auto simp: strlen_def)
next
  case False
  then obtain xs where xs: "cstr m s xs" "length xs < 2 ^ 32"
    using cstr_exists by blast
  define l :: u32 where "l = of_nat (length xs)"
  have l: "unat l = length xs" "m (s + l) = 0" "strlen m s = Some l"
    using xs by (simp_all add: l_def unat_of_nat cstr_nth strlen_cstr)
  have nz: "m (s + k) \<noteq> 0" if "k < l" for k
    using xs(1) that l(1) by (auto simp: cstr_nth word_less_nat_alt dest: spec [of _ "unat k"])
  with l False show ?thesis
    by (metis linorder_neqE option.discI option.inject)
qed

theorem strlen_spec_witness:
  "strlen ((\<lambda>_. 0)(0x10 := 0x4B, 0x11 := 0x45)) 0x10 = Some 2 \<and> strlen (\<lambda>_. 1) 0 = None"
proof -
  have "\<forall>k. k < 2 \<longrightarrow> ((\<lambda>_. 0)(0x10 := 0x4B, 0x11 := 0x45) :: memory) (0x10 + k) \<noteq> 0"
  proof (intro allI impI)
    fix k :: u32
    assume "k < 2"
    then have "k = 0 \<or> k = 1" by unat_arith
    then show "((\<lambda>_. 0)(0x10 := 0x4B, 0x11 := 0x45) :: memory) (0x10 + k) \<noteq> 0" by auto
  qed
  then show ?thesis
    using strlen_spec [of "(\<lambda>_. 0)(0x10 := 0x4B, 0x11 := 0x45)" "0x10" 2] strlen_spec [of "\<lambda>_. 1" 0 0]
    by simp
qed

text \<open>
  C17. On two C strings \<open>strcmp\<close> returns, it returns 0 exactly when they are equal, and
  otherwise the (signed) difference of the first characters that differ.
\<close>

theorem strcmp_correct:
  assumes "cstr m a xs" and "cstr m b ys"
  shows "strcmp m a b = Some (strcmp_spec xs ys) \<and> (strcmp_spec xs ys = 0 \<longleftrightarrow> xs = ys)"
  using assms by (simp add: strcmp_cstr strcmp_spec_eq_0_iff cstr_no_nul)

theorem strcmp_correct_witness:
  "strcmp ((\<lambda>_. 0)(0 := 65, 1 := 66, 8 := 65, 9 := 67)) 0 8 = Some (-1)"
  using strcmp_correct [of "(\<lambda>_. 0)(0 := 65, 1 := 66, 8 := 65, 9 := 67)" 0 "[65, 66]" 8 "[65, 67]"]
  by (simp add: char_diff_def)

text \<open>
  \<open>strcpy\<close> returns when the source is a C string and the two buffers do not overlap; the
  destination then holds the same string, and nothing outside \<open>strlen src + 1\<close> bytes changed.
\<close>

theorem strcpy_correct:
  assumes "cstr m src xs" and "length xs + 1 < 2 ^ 32" and "n = of_nat (length xs) + 1"
    and "sep dest n src n"
  shows "\<exists>m'. strcpy m dest src = Some m' \<and> cstr m' dest xs \<and> cstr m' src xs \<and>
    (\<forall>x. \<not> x - dest < n \<longrightarrow> m' x = m x)"
proof -
  have n: "unat n = length xs + 1"
    using assms(2,3) by (simp add: unat_word_ariths unat_of_nat)
  have less: "of_nat k < n" if "k \<le> length xs" for k
    using that n assms(2) by (simp add: word_less_nat_alt unat_of_nat)
  have "strcpy m dest src = Some (copied m dest src n)"
    using strcpy_loop_cstr [of m src 0 xs dest n] assms by (simp add: strcpy_def)
  moreover have "cstr (copied m dest src n) dest xs"
    using assms(1) less by (auto simp: cstr_nth copied_inside)
  moreover have "cstr (copied m dest src n) src xs"
    using assms(1) less by (auto simp: cstr_nth copied_outside sep_shift [OF assms(4)])
  ultimately show ?thesis by (auto simp: copied_outside)
qed

theorem strcpy_correct_witness:
  "\<exists>m'. strcpy ((\<lambda>_. 0)(0 := 65, 1 := 66)) 8 0 = Some m' \<and> cstr m' 8 [65, 66]"
  using strcpy_correct [of "(\<lambda>_. 0)(0 := 65, 1 := 66)" 0 "[65, 66]" 3 8] by (auto simp: sep_def)

end
