(* ===== verification/Terminal.thy ===== *)
theory Terminal
  imports CString
begin

text \<open>
  The text-mode terminal \<open>io::framebuffer_terminal\<close> of \<open>src/include/devices/BIOSVideoIO.hpp\<close>
  and \<open>src/lib/io/BIOSVideoIO.cpp\<close>. Its cells live in memory at the object's \<open>_buffer\<close>
  pointer, two bytes a cell, and \<open>scroll\<close> moves them with \<open>memmove\<close>. The second half states
  what a terminal is meant to be (a list of 2000 cells with a cursor) and shows that the
  operations on memory implement it, stay inside the framebuffer and keep the cursor on the
  screen.
\<close>

section \<open>Data\<close>

datatype vga_color =
    VGA_COLOR_BLACK | VGA_COLOR_BLUE | VGA_COLOR_GREEN | VGA_COLOR_CYAN
  | VGA_COLOR_RED | VGA_COLOR_MAGENTA | VGA_COLOR_BROWN | VGA_COLOR_LIGHT_GREY
  | VGA_COLOR_DARK_GREY | VGA_COLOR_LIGHT_BLUE | VGA_COLOR_LIGHT_GREEN | VGA_COLOR_LIGHT_CYAN
  | VGA_COLOR_LIGHT_RED | VGA_COLOR_LIGHT_MAGENTA | VGA_COLOR_LIGHT_BROWN | VGA_COLOR_WHITE

primrec vga_code :: "vga_color \<Rightarrow> u8" where
  "vga_code VGA_COLOR_BLACK = 0"
| "vga_code VGA_COLOR_BLUE = 1"
| "vga_code VGA_COLOR_GREEN = 2"
| "vga_code VGA_COLOR_CYAN = 3"
| "vga_code VGA_COLOR_RED = 4"
| "vga_code VGA_COLOR_MAGENTA = 5"
| "vga_code VGA_COLOR_BROWN = 6"
| "vga_code VGA_COLOR_LIGHT_GREY = 7"
| "vga_code VGA_COLOR_DARK_GREY = 8"
| "vga_code VGA_COLOR_LIGHT_BLUE = 9"
| "vga_code VGA_COLOR_LIGHT_GREEN = 10"
| "vga_code VGA_COLOR_LIGHT_CYAN = 11"
| "vga_code VGA_COLOR_LIGHT_RED = 12"
| "vga_code VGA_COLOR_LIGHT_MAGENTA = 13"
| "vga_code VGA_COLOR_LIGHT_BROWN = 14"
| "vga_code VGA_COLOR_WHITE = 15"

definition FRAMEBUFFER_LOCATION :: u32 where
  "FRAMEBUFFER_LOCATION = 0xb8000"

text \<open>\<open>vga_height\<close> and \<open>vga_width\<close> are \<open>const size_t\<close> members.\<close>

abbreviation vga_height :: u32 where
  "vga_height \<equiv> 25"

abbreviation vga_width :: u32 where
  "vga_width \<equiv> 80"

record framebuffer_terminal =
  t_row :: u16
  t_column :: u16
  t_color :: u8
  t_fullLine :: bool
  t_buffer :: u32

definition new_terminal :: framebuffer_terminal where
  "new_terminal = \<lparr>t_row = 0, t_column = 0, t_color = 0x07, t_fullLine = False,
     t_buffer = FRAMEBUFFER_LOCATION\<rparr>"

section \<open>Operations\<close>

definition vga_entry_color :: "vga_color \<Rightarrow> vga_color \<Rightarrow> u8" where
  "vga_entry_color fg bg = vga_code fg OR push_bit 4 (vga_code bg)"

definition vga_entry :: "u8 \<Rightarrow> u8 \<Rightarrow> u16" where
  "vga_entry uc tColor = ucast uc OR push_bit 8 (ucast tColor)"

definition setColor :: "framebuffer_terminal \<Rightarrow> vga_color \<Rightarrow> vga_color \<Rightarrow> framebuffer_terminal" where
  "setColor t fg bg = t\<lparr>t_color := vga_entry_color fg bg\<rparr>"

definition term_reset :: "framebuffer_terminal \<Rightarrow> framebuffer_terminal" where
  "term_reset t = setColor (t\<lparr>t_buffer := FRAMEBUFFER_LOCATION, t_row := 0, t_column := 0,
     t_fullLine := False\<rparr>) VGA_COLOR_LIGHT_GREY VGA_COLOR_BLACK"

text \<open>The cell store \<open>_buffer[index] = e\<close>; pointer arithmetic scales by two bytes.\<close>

definition put_cell :: "memory \<Rightarrow> framebuffer_terminal \<Rightarrow> u32 \<Rightarrow> u16 \<Rightarrow> memory" where
  "put_cell m t index e = store16 m (t_buffer t + 2 * index) e"

text \<open>The two nested loops that blank the lines from \<open>y\<close> on, shared by \<open>clear\<close> and \<open>scroll\<close>.\<close>

function clear_cols :: "memory \<Rightarrow> framebuffer_terminal \<Rightarrow> u32 \<Rightarrow> u32 \<Rightarrow> memory" where
  "clear_cols m t y x =
     (if x < vga_width then
        clear_cols (put_cell m t (y * vga_width + x) (vga_entry 32 (t_color t))) t y (x + 1)
      else m)"
  by pat_completeness auto
termination
  by (relation "measure (\<lambda>(m, t, y, x). unat vga_width - unat x)")
     (simp_all only: in_measure prod.case wf_measure word_count_up)

function clear_rows :: "memory \<Rightarrow> framebuffer_terminal \<Rightarrow> u32 \<Rightarrow> memory" where
  "clear_rows m t y = (if y < vga_height then clear_rows (clear_cols m t y 0) t (y + 1) else m)"
  by pat_completeness auto
termination
  by (relation "measure (\<lambda>(m, t, y). unat vga_height - unat y)")
     (simp_all only: in_measure prod.case wf_measure word_count_up)

declare clear_cols.simps [simp del] clear_rows.simps [simp del]

definition term_clear :: "memory \<Rightarrow> framebuffer_terminal \<Rightarrow> memory" where
  "term_clear m t = clear_rows m t 0"

definition scroll :: "memory \<Rightarrow> framebuffer_terminal \<Rightarrow> u32 \<Rightarrow> int \<times> memory" where
  "scroll m t lines =
     (if lines \<ge> vga_height then (1, m)
      else let sz = vga_width * (vga_height - lines) * 2;
               m' = memmove m (t_buffer t) (t_buffer t + 2 * (vga_width * lines)) sz
           in (0, clear_rows m' t (vga_height - lines)))"

text \<open>\<open>++_row == vga_height\<close> followed by the scroll: the same code on both paths of \<open>putchar\<close>.\<close>

definition next_row :: "memory \<Rightarrow> framebuffer_terminal \<Rightarrow> framebuffer_terminal \<times> memory" where
  "next_row m t =
     (let t' = t\<lparr>t_row := t_row t + 1\<rparr>
      in if ucast (t_row t') = vga_height
         then (t'\<lparr>t_row := t_row t' - 1\<rparr>, snd (scroll m t' 1))
         else (t', m))"

definition putchar :: "memory \<Rightarrow> framebuffer_terminal \<Rightarrow> u8 \<Rightarrow> int \<times> framebuffer_terminal \<times> memory" where
  "putchar m t c =
     (if c = 10 then
        if t_fullLine t then (0, t\<lparr>t_fullLine := False\<rparr>, m)
        else (0, next_row m (t\<lparr>t_column := 0\<rparr>))
      else
        let t1 = t\<lparr>t_fullLine := False\<rparr>;
            index = ucast (t_row t1) * vga_width + ucast (t_column t1)
        in if sint c < 20 \<or> sint c > 126 then (1, t1, m)
           else
             let m1 = put_cell m t1 index (vga_entry c (t_color t1));
                 t2 = t1\<lparr>t_column := t_column t1 + 1\<rparr>
             in if ucast (t_column t2) = vga_width
                then (0, next_row m1 (t2\<lparr>t_column := 0, t_fullLine := True\<rparr>))
                else (0, t2, m1))"

definition setCursor :: "framebuffer_terminal \<Rightarrow> u8 \<Rightarrow> u8 \<Rightarrow> bool \<times> framebuffer_terminal" where
  "setCursor t row column =
     (if ucast row \<ge> vga_height \<or> ucast column \<ge> vga_width then (False, t)
      else (True, t\<lparr>t_row := ucast row, t_column := ucast column\<rparr>))"

section \<open>The terminal as a list of cells\<close>

text \<open>
  The specification: 25 lines of 80 cells, a cursor, the pending-line flag and a colour.
\<close>

record screen =
  scr_cells :: "u16 list"
  scr_row :: nat
  scr_col :: nat
  scr_full :: bool
  scr_color :: u8

definition blank :: "screen \<Rightarrow> u16" where
  "blank s = vga_entry 32 (scr_color s)"

definition scroll_spec :: "nat \<Rightarrow> screen \<Rightarrow> screen" where
  "scroll_spec n s = s\<lparr>scr_cells := drop (80 * n) (scr_cells s) @ replicate (80 * n) (blank s)\<rparr>"

definition next_row_spec :: "screen \<Rightarrow> screen" where
  "next_row_spec s = (if Suc (scr_row s) = 25 then scroll_spec 1 s else s\<lparr>scr_row := Suc (scr_row s)\<rparr>)"

definition printable :: "u8 \<Rightarrow> bool" where
  "printable c \<longleftrightarrow> 20 \<le> unat c \<and> unat c \<le> 126"

definition putchar_spec :: "screen \<Rightarrow> u8 \<Rightarrow> int \<times> screen" where
  "putchar_spec s c =
     (if c = 10 then
        (0, if scr_full s then s\<lparr>scr_full := False\<rparr> else next_row_spec (s\<lparr>scr_col := 0\<rparr>))
      else if \<not> printable c then (1, s\<lparr>scr_full := False\<rparr>)
      else let s1 = s\<lparr>scr_full := False,
                 scr_cells := (scr_cells s)[80 * scr_row s + scr_col s := vga_entry c (scr_color s)]\<rparr>
           in (0, if Suc (scr_col s) = 80 then next_row_spec (s1\<lparr>scr_col := 0, scr_full := True\<rparr>)
                  else s1\<lparr>scr_col := Suc (scr_col s)\<rparr>))"

definition cells :: "memory \<Rightarrow> u32 \<Rightarrow> u16 list" where
  "cells m b = map (\<lambda>i. load16 m (b + 2 * of_nat i)) [0..<2000]"

definition term_abs :: "memory \<Rightarrow> framebuffer_terminal \<Rightarrow> screen" where
  "term_abs m t = \<lparr>scr_cells = cells m (t_buffer t), scr_row = unat (t_row t), scr_col = unat (t_column t),
     scr_full = t_fullLine t, scr_color = t_color t\<rparr>"

definition term_inv :: "framebuffer_terminal \<Rightarrow> bool" where
  "term_inv t \<longleftrightarrow> unat (t_row t) < 25 \<and> unat (t_column t) < 80 \<and> in_bounds (t_buffer t) 4000"

text \<open>\<open>outside b m m'\<close>: nothing changed outside the 4000 bytes of the framebuffer at \<open>b\<close>.\<close>

definition same_outside :: "u32 \<Rightarrow> memory \<Rightarrow> memory \<Rightarrow> bool" where
  "same_outside b m m' \<longleftrightarrow> (\<forall>x. \<not> x - b < 4000 \<longrightarrow> m' x = m x)"

section \<open>Cells in memory\<close>

lemma unat_double: "i < 2000 \<Longrightarrow> unat (2 * i) = 2 * unat i" for i :: u32
  by (auto simp: unat_word_ariths word_less_nat_alt)

lemma cell_sep:
  fixes b i j :: u32
  assumes "i < 2000" and "j < 2000" and "i \<noteq> j"
  shows "sep (b + 2 * i) 2 (b + 2 * j) 2"
proof -
  have e: "b + 2 * j - (b + 2 * i) = 2 * j - 2 * i" "b + 2 * i - (b + 2 * j) = 2 * i - 2 * j"
    by (simp_all add: algebra_simps)
  have "unat i < 2000" "unat j < 2000" "unat i \<noteq> unat j"
    using assms by (auto simp: word_less_nat_alt word_unat_eq_iff)
  then show ?thesis
    unfolding sep_def e word_le_nat_alt unat_sub_if' by (auto simp: unat_double assms)
qed

lemma cell_inside:
  fixes x b i :: u32
  assumes "i < 2000" and "\<not> x - b < 4000"
  shows "\<not> x - (b + 2 * i) < 2"
proof -
  have e: "x - (b + 2 * i) = (x - b) - 2 * i" by (simp add: algebra_simps)
  have "unat i < 2000" "\<not> unat (x - b) < 4000"
    using assms by (simp_all add: word_less_nat_alt)
  then show ?thesis
    unfolding e word_less_nat_alt unat_sub_if' by (auto simp: unat_double assms(1))
qed

lemma length_cells [simp]: "length (cells m b) = 2000"
  by (simp add: cells_def)

lemma cells_nth: "i < 2000 \<Longrightarrow> cells m b ! i = load16 m (b + 2 * of_nat i)"
  by (simp add: cells_def)

lemma of_nat_cell: "i < 2000 \<Longrightarrow> (of_nat i :: u32) < 2000 \<and> unat (of_nat i :: u32) = i"
  by (simp add: word_less_nat_alt unat_of_nat)

lemma cells_put_cell:
  assumes "index < 2000"
  shows "cells (put_cell m t index e) (t_buffer t) = (cells m (t_buffer t))[unat index := e]"
proof (rule nth_equalityI)
  fix i
  assume "i < length (cells (put_cell m t index e) (t_buffer t))"
  then have i: "i < 2000" by simp
  have "load16 (store16 m (t_buffer t + 2 * index) e) (t_buffer t + 2 * of_nat i)
      = (if of_nat i = index then e else load16 m (t_buffer t + 2 * of_nat i))"
    using cell_sep [OF assms, of "of_nat i" "t_buffer t"] of_nat_cell [OF i]
    by (auto simp: mem_simps intro: load16_sep [OF _ store16_other])
  moreover have "of_nat i = index \<longleftrightarrow> i = unat index"
    using of_nat_cell [OF i] by (auto simp: word_unat_eq_iff)
  ultimately show "cells (put_cell m t index e) (t_buffer t) ! i = (cells m (t_buffer t))[unat index := e] ! i"
    using i by (simp add: cells_nth put_cell_def nth_list_update)
qed simp

lemma put_cell_outside: "index < 2000 \<Longrightarrow> same_outside (t_buffer t) m (put_cell m t index e)"
  by (simp add: same_outside_def put_cell_def store16_other cell_inside)

lemma same_outside_refl [simp]: "same_outside b m m"
  by (simp add: same_outside_def)

lemma same_outside_trans: "same_outside b m m' \<Longrightarrow> same_outside b m' m'' \<Longrightarrow> same_outside b m m''"
  by (simp add: same_outside_def)

text \<open>Blanking a run of cells, and the loops that do it.\<close>

definition fill :: "nat \<Rightarrow> nat \<Rightarrow> 'a \<Rightarrow> 'a list \<Rightarrow> 'a list" where
  "fill p q v xs = map (\<lambda>i. if p \<le> i \<and> i < q then v else xs ! i) [0..<length xs]"

lemma length_fill [simp]: "length (fill p q v xs) = length xs"
  by (simp add: fill_def)

lemma fill_empty: "q \<le> p \<Longrightarrow> fill p q v xs = xs"
  by (rule nth_equalityI) (auto simp: fill_def)

lemma fill_step: "p < q \<Longrightarrow> fill (Suc p) q v (xs[p := v]) = fill p q v xs"
  by (rule nth_equalityI) (auto simp: fill_def nth_list_update not_less_eq_eq)

lemma fill_fill: "p \<le> q \<Longrightarrow> q \<le> r \<Longrightarrow> fill q r v (fill p q v xs) = fill p r v xs"
  by (rule nth_equalityI) (auto simp: fill_def)

lemma fill_tail: "p \<le> length xs \<Longrightarrow> fill p (length xs) v xs = take p xs @ replicate (length xs - p) v"
  by (rule nth_equalityI) (auto simp: fill_def nth_append)

lemma cell_index:
  fixes y x :: u32
  assumes "y < 25" and "x < 80"
  shows "unat (y * 80 + x) = 80 * unat y + unat x" and "y * 80 + x < 2000"
proof -
  have "unat y < 25" "unat x < 80" using assms by (simp_all add: word_less_nat_alt)
  then show "unat (y * 80 + x) = 80 * unat y + unat x"
    by (simp add: unat_word_ariths)
  with \<open>unat y < 25\<close> \<open>unat x < 80\<close> show "y * 80 + x < 2000"
    by (simp add: word_less_nat_alt)
qed

lemma clear_cols_cells:
  assumes "x \<le> 80" and "y < 25"
  shows "cells (clear_cols m t y x) (t_buffer t)
      = fill (80 * unat y + unat x) (80 * unat y + 80) (vga_entry 32 (t_color t)) (cells m (t_buffer t)) \<and>
    same_outside (t_buffer t) m (clear_cols m t y x)"
  using assms(1)
proof (induction arbitrary: m rule: word_upto_induct)
  case stop
  show ?case by (simp add: clear_cols.simps fill_empty)
next
  case (step x)
  note index = cell_index [OF assms(2) step.hyps]
  let ?m = "put_cell m t (y * 80 + x) (vga_entry 32 (t_color t))"
  have "clear_cols m t y x = clear_cols ?m t y (x + 1)"
    using step.hyps by (simp add: clear_cols.simps [of m])
  moreover have "unat x < 80" "unat (x + 1) = Suc (unat x)"
    using step.hyps word_Suc_unat [OF step.hyps] by (simp_all add: word_less_nat_alt)
  ultimately show ?case
    using step.IH [of ?m] put_cell_outside [OF index(2), of t m]
    by (auto simp: cells_put_cell index fill_step intro: same_outside_trans)
qed

lemma clear_rows_cells:
  assumes "y \<le> 25"
  shows "cells (clear_rows m t y) (t_buffer t)
      = fill (80 * unat y) 2000 (vga_entry 32 (t_color t)) (cells m (t_buffer t)) \<and>
    same_outside (t_buffer t) m (clear_rows m t y)"
  using assms
proof (induction arbitrary: m rule: word_upto_induct)
  case stop
  show ?case by (simp add: clear_rows.simps fill_empty)
next
  case (step y)
  let ?m = "clear_cols m t y 0"
  have "clear_rows m t y = clear_rows ?m t (y + 1)"
    using step.hyps by (simp add: clear_rows.simps [of m])
  moreover have "unat y < 25" "unat (y + 1) = Suc (unat y)"
    using step.hyps word_Suc_unat [OF step.hyps] by (simp_all add: word_less_nat_alt)
  ultimately show ?case
    using step.IH [of ?m] clear_cols_cells [of 0 y m t] step.hyps
    by (auto simp: fill_fill add.commute [of 80] intro: same_outside_trans)
qed

section \<open>Scrolling and printing\<close>

lemma load16_copied:
  assumes "k < n" and "k + 1 < n"
  shows "load16 (copied m dst src n) (dst + k) = load16 m (src + k)"
  using copied_inside [OF assms(1)] copied_inside [OF assms(2)] by (simp add: load16_def add.assoc)

lemma cells_copied:
  assumes "unat sz = 4000 - 160 * l" and "l < 25"
  shows "cells (copied m b (b + 160 * of_nat l) sz) b = drop (80 * l) (cells m b) @ drop (2000 - 80 * l) (cells m b)"
proof (rule nth_equalityI)
  let ?m = "copied m b (b + 160 * of_nat l) sz"
  fix i
  assume "i < length (cells ?m b)"
  then have i: "i < 2000" by simp
  define k :: u32 where "k = 2 * of_nat i"
  have k: "unat k = 2 * i"
    using of_nat_cell [OF i] by (simp add: k_def unat_double)
  have k1: "unat (k + j) = 2 * i + unat j" if "j < 2" for j
    using k i that by (subst unat_add_no_wrap) (simp_all add: word_less_nat_alt)
  have "cells ?m b ! i = load16 ?m (b + k)"
    using i by (simp add: cells_nth k_def)
  also have "\<dots> = (if i < 2000 - 80 * l then load16 m (b + 160 * of_nat l + k) else load16 m (b + k))"
  proof (cases "i < 2000 - 80 * l")
    case True
    then have "k < sz" "k + 1 < sz"
      using k k1 [of 1] assms by (simp_all add: word_less_nat_alt)
    with True show ?thesis by (simp add: load16_copied)
  next
    case False
    then have "\<not> b + k + j - b < sz" if "j < 2" for j
      using k1 [OF that] assms by (simp add: word_less_nat_alt add.assoc)
    then have "?m (b + k + j) = m (b + k + j)" if "j < 2" for j
      using that by (simp add: copied_outside)
    then have "load16 ?m (b + k) = load16 m (b + k)" by (rule load16_cong)
    with False show ?thesis by simp
  qed
  also have "b + 160 * of_nat l + k = b + 2 * of_nat (80 * l + i)"
    by (simp add: k_def algebra_simps)
  finally show "cells ?m b ! i = (drop (80 * l) (cells m b) @ drop (2000 - 80 * l) (cells m b)) ! i"
    using i assms(2) by (simp add: cells_nth nth_append k_def)
qed (use assms(2) in simp)

lemma copied_same_outside: "unat sz \<le> 4000 \<Longrightarrow> same_outside b m (copied m b src sz)"
  by (auto simp: same_outside_def copied_def word_less_nat_alt)

lemma memmove_cells:
  assumes "l < 25" and "in_bounds b 4000" and "m' = memmove m b (b + 2 * (80 * l)) (80 * (25 - l) * 2)"
  shows "cells m' b = drop (80 * unat l) (cells m b) @ drop (2000 - 80 * unat l) (cells m b)
    \<and> same_outside b m m'"
proof -
  have l: "unat l < 25" using assms(1) by (simp add: word_less_nat_alt)
  define d where "d = 25 - l"
  have "unat d = 25 - unat l"
    unfolding d_def using l by (subst unat_sub) (simp_all add: word_le_nat_alt)
  then have sz: "unat (80 * d * 2) = 4000 - 160 * unat l"
    using l by (simp add: unat_word_ariths)
  have off: "unat (160 * l) = 160 * unat l"
    using l by (simp add: unat_word_ariths)
  have "unat (b + 160 * l) + unat (80 * d * 2) \<le> 2 ^ 32"
  proof (cases "unat b + 4000 < 2 ^ 32 \<or> l \<noteq> 0")
    case True
    then have "unat (b + 160 * l) = unat b + 160 * unat l"
      using assms(2) l sz by (subst unat_add_no_wrap) (auto simp: off in_bounds_def unat_gt_0)
    then show ?thesis using assms(2) sz l by (simp add: in_bounds_def)
  qed (use assms(2) in \<open>simp add: d_def in_bounds_def\<close>)
  moreover have "in_bounds b (80 * d * 2)"
    using assms(2) sz by (simp add: in_bounds_def)
  ultimately have "m' = copied m b (b + 160 * of_nat (unat l)) (80 * d * 2)"
    using assms(3) by (simp add: memmove_eq_copied in_bounds_def flip: d_def)
  with cells_copied [OF sz l] copied_same_outside sz show ?thesis by simp
qed

lemma scroll_cells:
  assumes "in_bounds (t_buffer t) 4000" and "l < 25"
  shows "fst (scroll m t l) = 0 \<and>
    cells (snd (scroll m t l)) (t_buffer t)
      = drop (80 * unat l) (cells m (t_buffer t)) @ replicate (80 * unat l) (vga_entry 32 (t_color t)) \<and>
    same_outside (t_buffer t) m (snd (scroll m t l))"
proof -
  let ?m = "memmove m (t_buffer t) (t_buffer t + 2 * (80 * l)) (80 * (25 - l) * 2)"
  note mm = memmove_cells [OF assms(2,1) refl, of m]
  have l: "unat l < 25" using assms(2) by (simp add: word_less_nat_alt)
  have le: "25 - l \<le> 25" and d: "unat (25 - l) = 25 - unat l"
    using l by (subst unat_sub | simp add: word_le_nat_alt word_sub_le)+
  have "80 * (25 - unat l) = 2000 - 80 * unat l" using l by simp
  then have "cells (clear_rows ?m t (25 - l)) (t_buffer t) =
      take (2000 - 80 * unat l) (cells ?m (t_buffer t)) @ replicate (80 * unat l) (vga_entry 32 (t_color t))"
    using clear_rows_cells [OF le, of ?m t] fill_tail [of "2000 - 80 * unat l" "cells ?m (t_buffer t)"] l
    by (simp add: d)
  moreover have "same_outside (t_buffer t) m (clear_rows ?m t (25 - l))"
    using mm clear_rows_cells [OF le, of ?m t] by (blast intro: same_outside_trans)
  ultimately show ?thesis
    using assms(2) mm by (simp add: scroll_def Let_def linorder_not_le)
qed

lemma printable_iff: "\<not> (sint c < 20 \<or> sint c > 126) \<longleftrightarrow> printable c"
proof -
  define n where "n = unat c"
  have "uint c = int n" "n < 256"
    using unat_less_2pow [of c] by (simp_all add: n_def)
  then show ?thesis
    unfolding sint_u8 printable_def n_def [symmetric] by auto
qed

lemma unat_Suc_u16: "unat x < 100 \<Longrightarrow> unat (x + 1) = Suc (unat x)" for x :: u16
  by (simp add: unat_word_ariths)

lemma ucast_eq_iff_unat:
  fixes x :: u16
  assumes "n < 100"
  shows "(ucast x :: u32) = of_nat n \<longleftrightarrow> unat x = n"
  using assms by (simp add: word_unat_eq_iff unat_ucast_up unat_of_nat)

lemma next_row_refines:
  assumes "term_inv t" and "next_row m t = (t', m')"
  shows "term_abs m' t' = next_row_spec (term_abs m t)" and "term_inv t'"
    and "same_outside (t_buffer t) m m'" and "t_buffer t' = t_buffer t"
proof -
  let ?t = "t\<lparr>t_row := t_row t + 1\<rparr>"
  have inv: "unat (t_row t) < 25" "unat (t_column t) < 80" "in_bounds (t_buffer t) 4000"
    using assms(1) by (simp_all add: term_inv_def)
  have row: "unat (t_row t + 1) = Suc (unat (t_row t))"
    using inv(1) by (simp add: unat_Suc_u16)
  have eq: "(ucast (t_row t + 1) :: u32) = 25 \<longleftrightarrow> Suc (unat (t_row t)) = 25"
    using ucast_eq_iff_unat [of 25 "t_row t + 1"] by (simp add: row)
  have sc: "cells (snd (scroll m ?t 1)) (t_buffer t)
      = drop 80 (cells m (t_buffer t)) @ replicate 80 (vga_entry 32 (t_color t))"
    "same_outside (t_buffer t) m (snd (scroll m ?t 1))"
    using scroll_cells [of ?t 1 m] inv(3) by simp_all
  have same_t: "?t\<lparr>t_row := t_row ?t - 1\<rparr> = t" by simp
  have "(t', m') = (if Suc (unat (t_row t)) = 25 then (t, snd (scroll m ?t 1)) else (?t, m))"
    using assms(2) by (simp only: next_row_def Let_def same_t) (simp add: eq)
  then show "term_abs m' t' = next_row_spec (term_abs m t)" "term_inv t'"
    "same_outside (t_buffer t) m m'" "t_buffer t' = t_buffer t"
    using inv sc row
    by (auto simp: term_abs_def next_row_spec_def scroll_spec_def blank_def term_inv_def split: if_splits)
qed

lemma cursor_cell:
  assumes "term_inv t"
  shows "unat (ucast (t_row t) * 80 + ucast (t_column t) :: u32) = 80 * unat (t_row t) + unat (t_column t)"
    and "(ucast (t_row t) * 80 + ucast (t_column t) :: u32) < 2000"
  using cell_index [of "ucast (t_row t)" "ucast (t_column t)"] assms
  by (simp_all add: word_less_nat_alt unat_ucast_up term_inv_def)

lemma term_inv_flags [simp]:
  "term_inv (t\<lparr>t_fullLine := b\<rparr>) \<longleftrightarrow> term_inv t" "term_inv (t\<lparr>t_color := k\<rparr>) \<longleftrightarrow> term_inv t"
  by (simp_all add: term_inv_def)

lemma term_inv_column0: "term_inv t \<Longrightarrow> term_inv (t\<lparr>t_column := 0\<rparr>)"
  by (simp add: term_inv_def)

lemma term_abs_put_cell:
  assumes "term_inv t"
  shows "term_abs (put_cell m t (ucast (t_row t) * 80 + ucast (t_column t)) e) t =
    (term_abs m t)\<lparr>scr_cells := (scr_cells (term_abs m t))[80 * unat (t_row t) + unat (t_column t) := e]\<rparr>"
  using cursor_cell [OF assms] by (simp add: term_abs_def cells_put_cell)

lemma term_abs_simps [simp]:
  "scr_row (term_abs m t) = unat (t_row t)" "scr_col (term_abs m t) = unat (t_column t)"
  "scr_full (term_abs m t) = t_fullLine t" "scr_color (term_abs m t) = t_color t"
  "term_abs m (t\<lparr>t_fullLine := b\<rparr>) = (term_abs m t)\<lparr>scr_full := b\<rparr>"
  "term_abs m (t\<lparr>t_column := c\<rparr>) = (term_abs m t)\<lparr>scr_col := unat c\<rparr>"
  "term_abs m (t\<lparr>t_color := k\<rparr>) = (term_abs m t)\<lparr>scr_color := k\<rparr>"
  by (simp_all add: term_abs_def)

lemma putchar_newline:
  assumes "term_inv t" and "\<not> t_fullLine t" and "putchar m t 10 = (r, t', m')"
  shows "(r, term_abs m' t') = putchar_spec (term_abs m t) 10 \<and> term_inv t' \<and>
    same_outside (t_buffer t) m m' \<and> t_buffer t' = t_buffer t"
proof -
  have "next_row m (t\<lparr>t_column := 0\<rparr>) = (t', m')" "r = 0"
    using assms(2,3) by (simp_all add: putchar_def)
  with next_row_refines [OF term_inv_column0 [OF assms(1)] this(1)] assms(2) show ?thesis
    by (simp add: putchar_spec_def)
qed

lemma putchar_print:
  assumes "term_inv t" and "c \<noteq> 10" and "printable c" and "putchar m t c = (r, t', m')"
  shows "(r, term_abs m' t') = putchar_spec (term_abs m t) c \<and> term_inv t' \<and>
    same_outside (t_buffer t) m m' \<and> t_buffer t' = t_buffer t"
proof -
  define t1 where "t1 = t\<lparr>t_fullLine := False\<rparr>"
  define m1 where "m1 = put_cell m t1 (ucast (t_row t1) * 80 + ucast (t_column t1)) (vga_entry c (t_color t1))"
  have t1: "term_inv t1" "t_buffer t1 = t_buffer t" using assms(1) by (simp_all add: t1_def)
  have m1: "same_outside (t_buffer t) m m1"
    unfolding m1_def using put_cell_outside cursor_cell(2) [OF t1(1)] t1(2) by metis
  have abs1: "term_abs m1 t1 = (term_abs m t)\<lparr>scr_full := False, scr_cells :=
      (scr_cells (term_abs m t))[80 * unat (t_row t) + unat (t_column t) := vga_entry c (t_color t)]\<rparr>"
    unfolding m1_def term_abs_put_cell [OF t1(1)] by (simp add: t1_def)
  have col: "unat (t_column t1 + 1) = Suc (unat (t_column t))"
    using assms(1) by (simp add: t1_def term_inv_def unat_Suc_u16)
  have eq: "(ucast (t_column t1 + 1) :: u32) = 80 \<longleftrightarrow> Suc (unat (t_column t)) = 80"
    using ucast_eq_iff_unat [of 80 "t_column t1 + 1"] by (simp add: col)
  have put: "(r, t', m') = (if Suc (unat (t_column t)) = 80
      then (0, next_row m1 (t1\<lparr>t_column := 0, t_fullLine := True\<rparr>)) else (0, t1\<lparr>t_column := t_column t1 + 1\<rparr>, m1))"
    using assms(2-4) eq printable_iff [of c]
    by (simp add: putchar_def Let_def split: if_splits flip: t1_def m1_def)
  show ?thesis
  proof (cases "Suc (unat (t_column t)) = 80")
    case True
    then have nr: "next_row m1 (t1\<lparr>t_column := 0, t_fullLine := True\<rparr>) = (t', m')" and r: "r = 0"
      using put by simp_all
    have inv: "term_inv (t1\<lparr>t_column := 0, t_fullLine := True\<rparr>)"
      using t1(1) by (simp add: term_inv_def)
    show ?thesis
      using next_row_refines [OF inv nr] m1 t1 True r assms(2,3) abs1
      by (auto simp: putchar_spec_def Let_def intro: same_outside_trans)
  next
    case False
    then have "t' = t1\<lparr>t_column := t_column t1 + 1\<rparr>" "m' = m1" "r = 0"
      using put by simp_all
    with False m1 t1 col assms abs1 show ?thesis
      by (auto simp: putchar_spec_def Let_def term_inv_def)
  qed
qed

lemma putchar_refines:
  assumes "term_inv t" and "putchar m t c = (r, t', m')"
  shows "(r, term_abs m' t') = putchar_spec (term_abs m t) c \<and> term_inv t' \<and>
    same_outside (t_buffer t) m m' \<and> t_buffer t' = t_buffer t"
proof -
  consider "c = 10" "t_fullLine t" | "c = 10" "\<not> t_fullLine t" | "c \<noteq> 10" "printable c" | "c \<noteq> 10" "\<not> printable c"
    by blast
  then show ?thesis
  proof cases
    case 1
    with assms show ?thesis by (auto simp: putchar_def putchar_spec_def)
  next
    case 2
    with assms putchar_newline show ?thesis by blast
  next
    case 3
    with assms putchar_print show ?thesis by blast
  next
    case 4
    with assms show ?thesis by (auto simp: putchar_def putchar_spec_def Let_def simp flip: printable_iff)
  qed
qed

section \<open>Runs of the terminal\<close>

text \<open>One call of the public interface; the return values play no part in the state.\<close>

datatype term_call = Call_putchar u8 | Call_scroll u32 | Call_clear | Call_reset
  | Call_setColor vga_color vga_color | Call_setCursor u8 u8

inductive term_step :: "framebuffer_terminal \<times> memory \<Rightarrow> term_call \<Rightarrow> framebuffer_terminal \<times> memory \<Rightarrow> bool" where
  "putchar m t c = (r, t', m') \<Longrightarrow> term_step (t, m) (Call_putchar c) (t', m')"
| "scroll m t l = (r, m') \<Longrightarrow> term_step (t, m) (Call_scroll l) (t, m')"
| "term_step (t, m) Call_clear (t, term_clear m t)"
| "term_step (t, m) Call_reset (term_reset t, m)"
| "term_step (t, m) (Call_setColor fg bg) (setColor t fg bg, m)"
| "setCursor t row col = (r, t') \<Longrightarrow> term_step (t, m) (Call_setCursor row col) (t', m)"

inductive_simps term_step_simps [simp]:
  "term_step (t, m) (Call_putchar c) s" "term_step (t, m) (Call_scroll l) s" "term_step (t, m) Call_clear s"
  "term_step (t, m) Call_reset s" "term_step (t, m) (Call_setColor fg bg) s" "term_step (t, m) (Call_setCursor row col) s"

inductive term_run :: "framebuffer_terminal \<times> memory \<Rightarrow> term_call list \<Rightarrow> framebuffer_terminal \<times> memory \<Rightarrow> bool" where
  run_Nil: "term_run s [] s"
| run_snoc: "term_run s cs s' \<Longrightarrow> term_step s' c s'' \<Longrightarrow> term_run s (cs @ [c]) s''"

lemma scroll_same_outside:
  "in_bounds (t_buffer t) 4000 \<Longrightarrow> same_outside (t_buffer t) m (snd (scroll m t l))"
  using scroll_cells [of t l m] by (cases "l < 25") (auto simp: scroll_def not_less)

lemma term_clear_cells:
  "cells (term_clear m t) (t_buffer t) = replicate 2000 (vga_entry 32 (t_color t)) \<and>
   same_outside (t_buffer t) m (term_clear m t)"
  using clear_rows_cells [of 0 m t] fill_tail [of 0 "cells m (t_buffer t)" "vga_entry 32 (t_color t)"]
  by (simp add: term_clear_def)

lemma setCursor_inv: "term_inv t \<Longrightarrow> setCursor t row col = (r, t') \<Longrightarrow> term_inv t' \<and> t_buffer t' = t_buffer t"
  by (auto simp: setCursor_def term_inv_def word_le_nat_alt unat_ucast_up not_le split: if_splits)

lemma term_step_inv:
  assumes "term_step (t, m) c (t', m')" and "term_inv t" and "t_buffer t = FRAMEBUFFER_LOCATION"
  shows "term_inv t' \<and> t_buffer t' = FRAMEBUFFER_LOCATION \<and> same_outside FRAMEBUFFER_LOCATION m m'"
proof (cases c)
  case (Call_putchar x)
  with assms obtain r where "putchar m t x = (r, t', m')" by auto
  with putchar_refines [OF assms(2) this] assms(3) show ?thesis by simp
next
  case (Call_scroll l)
  with assms scroll_same_outside [of t m l] show ?thesis by (auto simp: term_inv_def)
next
  case Call_clear
  with assms term_clear_cells [of m t] show ?thesis by auto
next
  case Call_reset
  with assms show ?thesis by (auto simp: term_reset_def setColor_def term_inv_def)
next
  case (Call_setColor fg bg)
  with assms show ?thesis by (auto simp: setColor_def)
next
  case (Call_setCursor row col)
  with assms setCursor_inv [OF assms(2)] show ?thesis by auto
qed

lemma term_run_inv:
  "term_run s cs s' \<Longrightarrow> term_inv (fst s) \<Longrightarrow> t_buffer (fst s) = FRAMEBUFFER_LOCATION \<Longrightarrow>
    term_inv (fst s') \<and> t_buffer (fst s') = FRAMEBUFFER_LOCATION \<and> same_outside FRAMEBUFFER_LOCATION (snd s) (snd s')"
proof (induction rule: term_run.induct)
  case (run_snoc s cs s' c s'')
  then show ?case
    using term_step_inv [of "fst s'" "snd s'" c "fst s''" "snd s''"] by (auto intro: same_outside_trans)
qed simp

lemma framebuffer_in_bounds [simp]: "in_bounds FRAMEBUFFER_LOCATION 4000"
  by (simp add: in_bounds_def FRAMEBUFFER_LOCATION_def)

lemma new_terminal_inv [simp]: "term_inv new_terminal" "t_buffer new_terminal = FRAMEBUFFER_LOCATION"
  by (simp_all add: new_terminal_def term_inv_def)

section \<open>What the terminal guarantees\<close>

text \<open>
  C6. \<open>putchar\<close> on the memory-mapped framebuffer implements the list-of-cells
  specification: same return code, same cells, same cursor, for every character, on every
  path (line break, pending line break, rejected character, wrap, scroll).
\<close>

theorem putchar_refines_screen:
  assumes "term_inv t"
  shows "case putchar m t c of (r, t', m') \<Rightarrow> (r, term_abs m' t') = putchar_spec (term_abs m t) c"
  using putchar_refines [OF assms] by (auto split: prod.split)

theorem putchar_refines_screen_witness:
  "term_inv new_terminal \<and>
   (case putchar (\<lambda>_. 0) new_terminal 65 of (r, t', m') \<Rightarrow>
      r = 0 \<and> term_abs m' t' = (term_abs (\<lambda>_. 0) new_terminal)\<lparr>
        scr_cells := (cells (\<lambda>_. 0) 0xb8000)[0 := 0x0741], scr_col := 1, scr_full := False\<rparr>)"
  using putchar_refines_screen [OF new_terminal_inv(1), of "\<lambda>_. 0" 65]
  by (auto simp: putchar_spec_def printable_def Let_def new_terminal_def term_abs_def vga_entry_def
      FRAMEBUFFER_LOCATION_def term_inv_def in_bounds_def split: prod.splits)

text \<open>
  C18. Whatever sequence of calls is made on a newly constructed terminal, the cursor
  stays on the 25 by 80 screen and no byte outside the framebuffer's 4000 bytes is written.
\<close>

theorem terminal_run_safe:
  assumes "term_run (new_terminal, m) cs (t', m')"
  shows "unat (t_row t') < 25 \<and> unat (t_column t') < 80 \<and>
    (\<forall>x. \<not> x - FRAMEBUFFER_LOCATION < 4000 \<longrightarrow> m' x = m x)"
  using term_run_inv [OF assms] by (simp add: term_inv_def [of t'] same_outside_def)

theorem terminal_run_safe_witness:
  "\<exists>t' m'. term_run (new_terminal, \<lambda>_. 0) [Call_setCursor 24 79, Call_putchar 65] (t', m') \<and>
     unat (t_row t') < 25 \<and> unat (t_column t') < 80"
proof -
  let ?t = "new_terminal\<lparr>t_row := 24, t_column := 79\<rparr>"
  obtain r t' m' where "putchar (\<lambda>_. 0) ?t 65 = (r, t', m')" by (metis prod_cases3)
  moreover have "term_step (new_terminal, \<lambda>_. 0) (Call_setCursor 24 79) (?t, \<lambda>_. 0)"
    by (auto simp: setCursor_def intro: exI [of _ True])
  ultimately have "term_run (new_terminal, \<lambda>_. 0) (([] @ [Call_setCursor 24 79]) @ [Call_putchar 65]) (t', m')"
    by (intro run_snoc [OF run_snoc [OF run_Nil]]) auto
  then have "term_run (new_terminal, \<lambda>_. 0) [Call_setCursor 24 79, Call_putchar 65] (t', m')" by simp
  with terminal_run_safe [OF this] show ?thesis by blast
qed

text \<open>
  \<open>scroll l\<close> refuses 25 lines or more without touching the screen; otherwise it moves the
  screen up by \<open>l\<close> lines and fills the last \<open>l\<close> lines with blanks of the current colour.
\<close>

theorem scroll_correct:
  assumes "in_bounds (t_buffer t) 4000"
  shows "case scroll m t l of (r, m') \<Rightarrow>
    if unat l < 25
    then r = 0 \<and> term_abs m' t = scroll_spec (unat l) (term_abs m t)
    else r = 1 \<and> m' = m"
  using scroll_cells [OF assms, of l m]
  by (auto simp: scroll_def [of m t l] word_less_nat_alt term_abs_def scroll_spec_def blank_def not_le word_le_nat_alt
      split: prod.splits if_splits)

theorem scroll_correct_witness:
  "in_bounds (t_buffer new_terminal) 4000 \<and> fst (scroll (\<lambda>_. 0) new_terminal 25) = 1 \<and>
   term_abs (snd (scroll (\<lambda>_. 0) new_terminal 2)) new_terminal = scroll_spec 2 (term_abs (\<lambda>_. 0) new_terminal)"
proof -
  have h: "in_bounds (t_buffer new_terminal) 4000"
    by simp
  show ?thesis
    using h scroll_correct [OF h, of 25 "\<lambda>_. 0"] scroll_correct [OF h, of 2 "\<lambda>_. 0"]
    by (auto split: prod.splits)
qed

end
