(* ===== verification/Xtoa.thy ===== *)
theory Xtoa
  imports CString "HOL-Library.Signed_Division"
begin

text \<open>
  The number formatter \<open>xtoa\<close> of \<open>src/include/klib/cstdlib.hpp\<close>. The template is
  instantiated at unsigned and signed integer types; every intermediate value of the function
  stays in the range of its argument's type, so the model works on \<open>int\<close> with C's truncating
  division (\<open>sdiv\<close>, \<open>smod\<close>) and covers all instances at once. The characters go to the
  caller's buffer at \<open>str\<close>.
\<close>

section \<open>The function\<close>

abbreviation MAX_NUM_STR_SIZE :: nat where
  "MAX_NUM_STR_SIZE \<equiv> 65"

definition digit_char :: "int \<Rightarrow> u8" where
  "digit_char digit = (if digit < 10 then of_int (48 + digit) else of_int (65 + digit - 10))"

partial_function (option) xtoa_digits ::
    "memory \<Rightarrow> u32 \<Rightarrow> int \<Rightarrow> int \<Rightarrow> u32 \<Rightarrow> (memory \<times> u32) option" where
  "xtoa_digits m str base num index =
     (if num \<noteq> 0 then
        xtoa_digits (m(str + index := digit_char (num smod base))) str base (num sdiv base) (index + 1)
      else Some (m, index))"

function xtoa_reverse :: "memory \<Rightarrow> u32 \<Rightarrow> u32 \<Rightarrow> u32 \<Rightarrow> memory" where
  "xtoa_reverse m str index i =
     (if i < index div 2 + 1 then
        xtoa_reverse (m(str + i := m (str + (index - i)), str + (index - i) := m (str + i)))
          str index (i + 1)
      else m)"
  by pat_completeness auto
termination
  by (relation "measure (\<lambda>(m, str, index, i). unat (index div 2 + 1) - unat i)")
     (auto simp: word_Suc_unat word_less_nat_alt)

declare xtoa_reverse.simps [simp del]

text \<open>The result is the returned pointer (0 is \<open>NULL\<close>) and the memory.\<close>

definition xtoa :: "memory \<Rightarrow> int \<Rightarrow> u32 \<Rightarrow> int \<Rightarrow> (u32 \<times> memory) option" where
  "xtoa m val str base =
     (if base < 2 \<or> base > 16 then Some (0, m)
      else if val = 0 then Some (str, m(str := 48, str + 1 := 0))
      else case xtoa_digits m str base val 0 of
          None \<Rightarrow> None
        | Some (m1, index) \<Rightarrow>
            let (m2, index2) =
                  (if base = 10 \<and> val < 0 then (m1(str + index := 45), index + 1) else (m1, index))
            in Some (str, xtoa_reverse (m2(str + index2 := 0)) str (index2 - 1) 0))"

section \<open>The digits\<close>

text \<open>Digits of a number, the least significant first; the reference for the loop.\<close>

function lsd_digits :: "nat \<Rightarrow> nat \<Rightarrow> nat list" where
  "lsd_digits b n = (if n = 0 \<or> b < 2 then [] else n mod b # lsd_digits b (n div b))"
  by pat_completeness auto
termination
  by (relation "measure snd") auto

declare lsd_digits.simps [simp del]

lemma lsd_digits_0 [simp]: "lsd_digits b 0 = []"
  by (simp add: lsd_digits.simps)

fun lsd_value :: "nat \<Rightarrow> nat list \<Rightarrow> nat" where
  "lsd_value b [] = 0"
| "lsd_value b (d # ds) = d + b * lsd_value b ds"

lemma lsd_value_digits: "2 \<le> b \<Longrightarrow> lsd_value b (lsd_digits b n) = n"
  by (induction b n rule: lsd_digits.induct) (subst lsd_digits.simps, simp)

lemma lsd_digits_less: "2 \<le> b \<Longrightarrow> d \<in> set (lsd_digits b n) \<Longrightarrow> d < b"
proof (induction b n rule: lsd_digits.induct)
  case (1 b n)
  then show ?case by (cases "n = 0") (auto simp: lsd_digits.simps [of b n])
qed

lemma lsd_digits_eq_Nil_iff: "2 \<le> b \<Longrightarrow> lsd_digits b n = [] \<longleftrightarrow> n = 0"
  by (subst lsd_digits.simps) auto

lemma lsd_digits_length: "n < b ^ k \<Longrightarrow> length (lsd_digits b n) \<le> k"
proof (induction b n arbitrary: k rule: lsd_digits.induct)
  case (1 b n)
  show ?case
  proof (cases "n = 0 \<or> b < 2")
    case True
    then show ?thesis by (subst lsd_digits.simps) simp
  next
    case False
    with "1.prems" obtain j where k: "k = Suc j" by (cases k) auto
    with "1.prems" False have "n div b < b ^ j"
      by (simp add: div_less_iff_less_mult mult.commute)
    with False k "1.IH" show ?thesis by (subst lsd_digits.simps) simp
  qed
qed

lemma lsd_digits_last: "2 \<le> b \<Longrightarrow> n \<noteq> 0 \<Longrightarrow> last (lsd_digits b n) \<noteq> 0"
proof (induction b n rule: lsd_digits.induct)
  case (1 b n)
  then show ?case
    by (cases "n div b = 0") (auto simp: lsd_digits.simps [of b n] lsd_digits_eq_Nil_iff div_eq_0_iff)
qed

lemma lsd_digits_length_64:
  assumes "\<bar>val\<bar> < 2 ^ 64" and "2 ^ 64 \<le> nat base ^ k"
  shows "length (lsd_digits (nat base) (nat \<bar>val\<bar>)) \<le> k"
proof -
  have "nat \<bar>val\<bar> < 2 ^ 64" using assms(1) by (simp add: nat_less_iff)
  with assms(2) have "nat \<bar>val\<bar> < nat base ^ k" by (rule order_less_le_trans [rotated])
  then show ?thesis by (rule lsd_digits_length)
qed

lemma two_power_le_base: "2 \<le> base \<Longrightarrow> (2::nat) ^ k \<le> nat base ^ k"
  by (intro power_mono) auto

lemma xtoa_digits_write:
  assumes "2 \<le> base" and "length xs + length (lsd_digits (nat base) (nat \<bar>num\<bar>)) < 2 ^ 32"
  shows "xtoa_digits (write_bytes m str xs) str base num (of_nat (length xs)) =
    Some (write_bytes m str (xs @ map (\<lambda>d. digit_char (sgn num * int d)) (lsd_digits (nat base) (nat \<bar>num\<bar>))),
      of_nat (length xs + length (lsd_digits (nat base) (nat \<bar>num\<bar>))))"
  using assms(2)
proof (induction "nat \<bar>num\<bar>" arbitrary: num xs rule: less_induct)
  case less
  show ?case
  proof (cases "num = 0")
    case True
    then show ?thesis by (simp add: xtoa_digits.simps [of _ str base 0])
  next
    case False
    define q where "q = num sdiv base"
    have q: "nat \<bar>q\<bar> = nat \<bar>num\<bar> div nat base" "nat \<bar>num\<bar> div nat base < nat \<bar>num\<bar>"
      using False assms(1) pos_imp_zdiv_nonneg_iff [of base "\<bar>num\<bar>"]
      by (simp_all add: q_def signed_divide_int_def abs_mult nat_div_distrib)
    have sgn: "q \<noteq> 0 \<Longrightarrow> sgn q = sgn num"
      using assms(1) pos_imp_zdiv_nonneg_iff [of base "\<bar>num\<bar>"]
      by (auto simp: q_def signed_divide_int_def sgn_mult sgn_1_pos less_le)
    have r: "num smod base = sgn num * int (nat \<bar>num\<bar> mod nat base)"
      using assms(1) by (simp add: signed_modulo_int_def zmod_int)
    define ds where "ds = lsd_digits (nat base) (nat \<bar>q\<bar>)"
    have ds: "lsd_digits (nat base) (nat \<bar>num\<bar>) = (nat \<bar>num\<bar> mod nat base) # ds"
      using False assms(1) by (simp add: ds_def q(1) lsd_digits.simps [of "nat base" "nat \<bar>num\<bar>"])
    have map: "map (\<lambda>d. digit_char (sgn q * int d)) ds = map (\<lambda>d. digit_char (sgn num * int d)) ds"
      using sgn by (cases "q = 0") (simp_all add: ds_def)
    have "xtoa_digits (write_bytes m str (xs @ [digit_char (num smod base)])) str base q
            (of_nat (length (xs @ [digit_char (num smod base)]))) =
          Some (write_bytes m str ((xs @ [digit_char (num smod base)]) @ map (\<lambda>d. digit_char (sgn q * int d)) ds),
            of_nat (length (xs @ [digit_char (num smod base)]) + length ds))"
      unfolding ds_def by (rule less.hyps) (use q less.prems ds ds_def in simp_all)
    then show ?thesis
      using False less.prems ds
      by (simp add: xtoa_digits.simps [of _ str base num] q_def [symmetric] write_bytes_snoc map r add_ac)
  qed
qed

section \<open>Reversing the buffer\<close>

definition reversed :: "memory \<Rightarrow> u32 \<Rightarrow> u32 \<Rightarrow> u32 \<Rightarrow> memory" where
  "reversed m str index i = (\<lambda>x. if x - str \<le> index \<and> (x - str < i \<or> index - (x - str) < i)
     then m (str + (index - (x - str))) else m x)"

lemma reversed_0 [simp]: "reversed m str index 0 = m"
  by (simp add: reversed_def)

lemma unat_half: "unat (index div 2 + 1) = unat index div 2 + 1" for index :: u32
proof -
  have h: "unat (index div 2) = unat index div 2"
    by (simp add: unat_div)
  then have "unat (index div 2) + unat (1 :: u32) < 2 ^ LENGTH(32)"
    using unat_less_2pow [of index] by simp
  then show ?thesis
    using h by (simp add: unat_add_no_wrap)
qed

lemma half_le: "i < index div 2 + 1 \<Longrightarrow> i \<le> index - i \<and> i \<le> index" for i index :: u32
proof -
  assume "i < index div 2 + 1"
  then have "unat i \<le> unat index div 2" by (simp add: word_less_nat_alt unat_half)
  then have "unat i \<le> unat index - unat i" "unat i \<le> unat index" by linarith+
  then show ?thesis by (simp add: word_le_nat_alt unat_sub)
qed

lemma reversed_step:
  assumes "i < index div 2 + 1"
  shows "(reversed m str index i)(str + i := reversed m str index i (str + (index - i)),
      str + (index - i) := reversed m str index i (str + i)) = reversed m str index (i + 1)"
proof
  fix x
  have le: "i \<le> index - i" "i \<le> index" using half_le [OF assms] by auto
  define p where "p = x - str"
  have x: "x = str + p" by (simp add: p_def)
  have less: "y < i + 1 \<longleftrightarrow> y < i \<or> y = i" for y
    using assms by (rule word_less_Suc_iff)
  have sub: "p \<le> index \<Longrightarrow> index - p = i \<longleftrightarrow> p = index - i"
    by (auto simp: algebra_simps)
  have un: "reversed m str index i (str + (index - i)) = m (str + (index - i))"
    "reversed m str index i (str + i) = m (str + i)"
    using le by (auto simp: reversed_def)
  show "((reversed m str index i)(str + i := reversed m str index i (str + (index - i)),
      str + (index - i) := reversed m str index i (str + i))) x = reversed m str index (i + 1) x"
    unfolding un x using le sub
    by (auto simp: reversed_def less word_sub_le)
qed

lemma xtoa_reverse_reversed:
  assumes "i \<le> index div 2 + 1"
  shows "xtoa_reverse (reversed m str index i) str index i = reversed m str index (index div 2 + 1)"
  using assms
proof (induction rule: word_upto_induct)
  case stop
  show ?case by (simp add: xtoa_reverse.simps)
next
  case (step i)
  then show ?case by (subst xtoa_reverse.simps) (simp add: reversed_step)
qed

lemma xtoa_reverse_full:
  "xtoa_reverse m str index 0 = (\<lambda>x. if x - str \<le> index then m (str + (index - (x - str))) else m x)"
proof -
  have "p < index div 2 + 1 \<or> index - p < index div 2 + 1" if "p \<le> index" for p
    using that by (simp add: word_less_nat_alt word_le_nat_alt unat_half unat_sub) linarith
  then have "reversed m str index (index div 2 + 1)
      = (\<lambda>x. if x - str \<le> index then m (str + (index - (x - str))) else m x)"
    by (auto simp: reversed_def)
  then show ?thesis
    using xtoa_reverse_reversed [of 0 index m str] by simp
qed

lemma xtoa_reverse_write:
  assumes "ys \<noteq> []" and "length ys < 2 ^ 32"
  shows "xtoa_reverse (write_bytes m str (ys @ [z])) str (of_nat (length ys) - 1) 0 = write_bytes m str (rev ys @ [z])"
proof -
  define index :: u32 where "index = of_nat (length ys) - 1"
  have index: "unat index = length ys - 1"
    using assms by (simp add: index_def unat_minus_one word_unat_eq_iff unat_of_nat)
  have "xtoa_reverse (write_bytes m str (ys @ [z])) str index 0 (str + p) = write_bytes m str (rev ys @ [z]) (str + p)" for p
  proof (cases "p \<le> index")
    case True
    then have le: "unat p \<le> length ys - 1"
      using index by (simp add: word_le_nat_alt)
    moreover have "0 < length ys" using assms(1) by simp
    ultimately have "unat p < length ys" and "length ys - Suc (unat p) < length ys" by linarith+
    moreover have "unat (index - p) = length ys - 1 - unat p"
      using True index by (simp add: unat_sub)
    ultimately show ?thesis using True
      by (simp add: xtoa_reverse_full write_bytes_def nth_append rev_nth)
  next
    case False
    then have "length ys \<le> unat p" using index by (simp add: word_le_nat_alt)
    with False show ?thesis
      by (simp add: xtoa_reverse_full write_bytes_def nth_append)
  qed
  from this [of "x - str" for x] show ?thesis by (auto simp: index_def)
qed

section \<open>The whole function\<close>

text \<open>The text \<open>xtoa\<close> leaves in the buffer, as a function of its arguments.\<close>

definition xtoa_text :: "int \<Rightarrow> int \<Rightarrow> u8 list" where
  "xtoa_text val base =
     (if val = 0 then [48]
      else (if base = 10 \<and> val < 0 then [45] else []) @
        rev (map (\<lambda>d. digit_char (sgn val * int d)) (lsd_digits (nat base) (nat \<bar>val\<bar>))))"

lemma xtoa_writes_text:
  assumes "2 \<le> base" and "base \<le> 16" and "\<bar>val\<bar> < 2 ^ 64"
  shows "xtoa m val str base = Some (str, write_bytes m str (xtoa_text val base @ [0]))"
proof (cases "val = 0")
  case True
  with assms show ?thesis
    using write_bytes_snoc [of "[]" m str 48] write_bytes_snoc [of "[48]" m str 0]
    by (simp add: xtoa_def xtoa_text_def)
next
  case False
  define ds where "ds = lsd_digits (nat base) (nat \<bar>val\<bar>)"
  define cs where "cs = map (\<lambda>d. digit_char (sgn val * int d)) ds"
  have len: "length cs \<le> 64"
    using lsd_digits_length_64 [OF assms(3) two_power_le_base [OF assms(1)]] by (simp add: cs_def ds_def)
  have ne: "cs \<noteq> []"
    using False assms(1) by (simp add: cs_def ds_def lsd_digits_eq_Nil_iff)
  define ys where "ys = cs @ (if base = 10 \<and> val < 0 then [45] else [])"
  have ys: "ys \<noteq> []" "length ys < 2 ^ 32"
    using len ne by (auto simp: ys_def)
  have digits: "xtoa_digits m str base val 0 = Some (write_bytes m str cs, of_nat (length cs))"
    using xtoa_digits_write [of base "[]" val m str] assms(1) len by (simp add: cs_def ds_def)
  have rev_ys: "rev ys = xtoa_text val base"
    using False by (simp add: ys_def xtoa_text_def cs_def ds_def)
  have "(write_bytes m str ys)(str + of_nat (length ys) := 0) = write_bytes m str (ys @ [0])"
    using ys(2) by (rule write_bytes_snoc)
  then have "xtoa m val str base = Some (str, xtoa_reverse (write_bytes m str (ys @ [0])) str (of_nat (length ys) - 1) 0)"
    using False assms len by (auto simp: xtoa_def digits ys_def write_bytes_snoc add_ac)
  then show ?thesis by (simp only: xtoa_reverse_write [OF ys] rev_ys)
qed

lemma xtoa_text_length:
  assumes "2 \<le> base" and "\<bar>val\<bar> < 2 ^ 64"
  shows "length (xtoa_text val base) < MAX_NUM_STR_SIZE"
proof -
  note len = lsd_digits_length_64 [OF assms(2)]
  from len [OF two_power_le_base [OF assms(1)]] len [of base 20] show ?thesis
    by (auto simp: xtoa_text_def)
qed

lemma unat_of_int_u8:
  assumes "0 \<le> k" and "k < 256"
  shows "unat (of_int k :: u8) = nat k"
proof -
  have "(of_int k :: u8) = of_nat (nat k)"
    using assms(1) by (metis of_int_of_nat_eq nat_0_le)
  moreover have "unat (of_nat (nat k) :: u8) = nat k"
    using assms unfolding unat_of_nat by (simp add: nat_less_iff)
  ultimately show ?thesis by simp
qed

lemma digit_char_unat:
  assumes "0 \<le> d" and "d < 16"
  shows "unat (digit_char d) = nat (if d < 10 then 48 + d else 55 + d)"
  using assms unat_of_int_u8 [of "48 + d"] unat_of_int_u8 [of "65 + d - 10"]
  by (auto simp: digit_char_def)

lemma digit_char_neg: "- 16 < d \<Longrightarrow> d \<le> 0 \<Longrightarrow> unat (digit_char d) = nat (48 + d)"
  using unat_of_int_u8 [of "48 + d"] by (auto simp: digit_char_def)

text \<open>Reading a numeral back: the value of a character, and of a text in a given base.\<close>

definition char_digit :: "u8 \<Rightarrow> nat" where
  "char_digit c = (if unat c < 58 then unat c - 48 else unat c - 55)"

fun parse_digits :: "nat \<Rightarrow> u8 list \<Rightarrow> nat" where
  "parse_digits b [] = 0"
| "parse_digits b (c # cs) = char_digit c * b ^ length cs + parse_digits b cs"

lemma parse_digits_snoc: "parse_digits b (cs @ [c]) = parse_digits b cs * b + char_digit c"
  by (induction cs) (simp_all add: algebra_simps)

lemma char_digit_char: "d < 16 \<Longrightarrow> char_digit (digit_char (int d)) = d"
  by (simp add: char_digit_def digit_char_unat nat_add_distrib)

lemma parse_digits_rev:
  "\<forall>d \<in> set ds. d < 16 \<Longrightarrow> parse_digits b (rev (map (\<lambda>d. digit_char (int d)) ds)) = lsd_value b ds"
  by (induction ds) (simp_all add: parse_digits_snoc char_digit_char algebra_simps)

lemma lsd_digits_less_16: "2 \<le> base \<Longrightarrow> base \<le> 16 \<Longrightarrow> d \<in> set (lsd_digits (nat base) n) \<Longrightarrow> d < 16"
  using lsd_digits_less [of "nat base" d n] by linarith

lemma digit_char_nonzero: "\<bar>d\<bar> < 16 \<Longrightarrow> digit_char d \<noteq> 0"
  by (cases "0 \<le> d")
     (auto dest!: arg_cong [of "digit_char d" 0 unat] simp: digit_char_unat digit_char_neg split: if_splits)

lemma xtoa_text_no_nul:
  assumes "2 \<le> base" and "base \<le> 16"
  shows "0 \<notin> set (xtoa_text val base)"
proof -
  have "digit_char (sgn val * int d) \<noteq> 0" if "d \<in> set (lsd_digits (nat base) (nat \<bar>val\<bar>))" for d
    using lsd_digits_less_16 [OF assms that]
    by (intro digit_char_nonzero) (simp add: abs_mult abs_sgn_eq)
  then have "0 \<notin> digit_char ` (\<lambda>d. sgn val * int d) ` set (lsd_digits (nat base) (nat \<bar>val\<bar>))"
    by force
  then show ?thesis by (auto simp: xtoa_text_def image_image)
qed

lemma xtoa_cstr:
  assumes "2 \<le> base" and "base \<le> 16" and "\<bar>val\<bar> < 2 ^ 64"
  shows "\<exists>m'. xtoa m val str base = Some (str, m') \<and> cstr m' str (xtoa_text val base) \<and>
    (\<forall>x. \<not> unat (x - str) < MAX_NUM_STR_SIZE \<longrightarrow> m' x = m x)"
  using xtoa_text_length [OF assms(1,3)] xtoa_text_no_nul [OF assms(1,2), of val]
  by (auto simp: xtoa_writes_text [OF assms] intro!: cstr_write_bytes write_bytes_outside)

lemma xtoa_text_unsigned:
  "0 \<le> val \<Longrightarrow> xtoa_text val base =
    (if val = 0 then [48] else rev (map (\<lambda>d. digit_char (int d)) (lsd_digits (nat base) (nat val))))"
  by (simp add: xtoa_text_def)

lemma xtoa_text_value:
  assumes "2 \<le> base" and "base \<le> 16" and "0 \<le> val"
  shows "int (parse_digits (nat base) (xtoa_text val base)) = val"
proof -
  have "\<forall>d \<in> set (lsd_digits (nat base) (nat val)). d < 16"
    using lsd_digits_less_16 [OF assms(1,2)] by blast
  then show ?thesis
    using assms by (simp add: xtoa_text_unsigned parse_digits_rev lsd_value_digits char_digit_def)
qed

section \<open>What the formatter guarantees\<close>

text \<open>
  C19. For every value of an unsigned type of up to 64 bits and every base from 2 to 16,
  \<open>xtoa\<close> returns its buffer holding a numeral that reads back as the value, has no leading
  zero, and fits \<open>MAX_NUM_STR_SIZE\<close> bytes with its terminator; nothing outside the buffer
  changes.
\<close>

theorem xtoa_roundtrip:
  assumes "2 \<le> base" and "base \<le> 16" and "0 \<le> val" and "val < 2 ^ 64"
  shows "\<exists>m' cs. xtoa m val str base = Some (str, m') \<and> cstr m' str cs \<and>
    int (parse_digits (nat base) cs) = val \<and> (val \<noteq> 0 \<longrightarrow> char_digit (hd cs) \<noteq> 0) \<and>
    (\<forall>x. \<not> unat (x - str) < MAX_NUM_STR_SIZE \<longrightarrow> m' x = m x)"
proof -
  let ?ds = "lsd_digits (nat base) (nat val)"
  have small: "\<forall>d \<in> set ?ds. d < 16"
    using lsd_digits_less_16 [OF assms(1,2)] by blast
  have "int (parse_digits (nat base) (xtoa_text val base)) = val"
    using assms(1-3) by (rule xtoa_text_value)
  moreover have "char_digit (hd (xtoa_text val base)) \<noteq> 0" if "val \<noteq> 0"
    using that assms small lsd_digits_last [of "nat base" "nat val"]
    by (simp add: xtoa_text_unsigned hd_rev lsd_digits_eq_Nil_iff last_map char_digit_char)
  ultimately show ?thesis
    using xtoa_cstr [of base val m str] assms by fastforce
qed

theorem xtoa_roundtrip_witness:
  "\<exists>m' cs. xtoa (\<lambda>_. 0) 0xBEEF 0x100 16 = Some (0x100, m') \<and> cstr m' 0x100 cs \<and>
    int (parse_digits 16 cs) = 0xBEEF"
  using xtoa_roundtrip [of 16 "0xBEEF" "\<lambda>_. 0" "0x100"] by auto

text \<open>
  A negative value in base 10 comes out as a minus sign followed by characters
  \<open>'0' - d\<close> instead of \<open>'0' + d\<close>, because C's remainder of a negative number is negative:
  no digit but 0 is printed as a digit.
\<close>

theorem xtoa_negative_digits:
  assumes "- (2 ^ 63) \<le> val" and "val < 0"
  shows "\<exists>m'. xtoa m val str 10 = Some (str, m') \<and>
    cstr m' str (45 # rev (map (\<lambda>d. 48 - of_nat d) (lsd_digits 10 (nat (- val)))))"
proof -
  have "digit_char (- int d) = 48 - of_nat d" for d
    by (simp add: digit_char_def)
  then have "xtoa_text val 10 = 45 # rev (map (\<lambda>d. 48 - of_nat d) (lsd_digits 10 (nat (- val))))"
    using assms(2) by (simp add: xtoa_text_def)
  with xtoa_cstr [of 10 val m str] assms show ?thesis by auto
qed

theorem xtoa_negative_digits_witness:
  "\<exists>m'. xtoa (\<lambda>_. 0) (-5) 0x100 10 = Some (0x100, m') \<and> cstr m' 0x100 [45, 43]"
  using xtoa_negative_digits [of "-5" "\<lambda>_. 0" "0x100"]
  by (simp add: lsd_digits.simps [of 10 5])

end
