(* ===== verification/Outstream.thy ===== *)
theory Outstream
  imports Terminal Xtoa
begin

text \<open>
  The output stream template \<open>io::_outstream<backEnd>\<close> of \<open>src/include/klib/io.hpp\<close> and
  \<open>earlyPanic\<close> of \<open>src/lib/stdlibC/cstdlib.cpp\<close>. A back end is anything with a \<open>putchar\<close>; the
  operations take it as an argument, the locale \<open>char_sink\<close> says what the stream relies on, and
  the terminal is shown to provide it. Character arrays on the caller's stack appear as the
  address \<open>buf\<close> where the compiler puts them.
\<close>

section \<open>Operations\<close>

type_synonym 't putc = "memory \<Rightarrow> 't \<Rightarrow> u8 \<Rightarrow> int \<times> 't \<times> memory"

text \<open>The object has a back end and a base; the back end's state is passed separately.\<close>

record outstream =
  os_base :: int

definition os_init :: "outstream \<Rightarrow> outstream" where
  "os_init os = os\<lparr>os_base := 10\<rparr>"

definition os_hex :: "outstream \<Rightarrow> outstream" where
  "os_hex os = os\<lparr>os_base := 16\<rparr>"

definition os_dec :: "outstream \<Rightarrow> outstream" where
  "os_dec os = os\<lparr>os_base := 10\<rparr>"

definition os_set_base :: "outstream \<Rightarrow> int \<Rightarrow> outstream" where
  "os_set_base os num = (if num < 2 \<or> num > 16 then os else os\<lparr>os_base := num\<rparr>)"

text \<open>The loop of \<open>writeString(str)\<close>, which advances the pointer with the counter.\<close>

function writeString_loop :: "'t putc \<Rightarrow> memory \<Rightarrow> 't \<Rightarrow> u32 \<Rightarrow> u32 \<Rightarrow> u32 \<Rightarrow> u32 \<times> 't \<times> memory" where
  "writeString_loop putc m t str i n =
     (if i < n then
        case putc m t (m str) of (_, t', m') \<Rightarrow> writeString_loop putc m' t' (str + 1) (i + 1) n
      else (i, t, m))"
  by pat_completeness auto
termination
  by (relation "measure (\<lambda>(putc, m, t, str, i, n). unat n - unat i)") (auto simp: word_count_up)

definition writeString :: "'t putc \<Rightarrow> memory \<Rightarrow> 't \<Rightarrow> u32 \<Rightarrow> (u32 \<times> 't \<times> memory) option" where
  "writeString putc m t str =
     (case strlen m str of None \<Rightarrow> None | Some n \<Rightarrow> Some (writeString_loop putc m t str 0 n))"

text \<open>The overload \<open>writeString(str, size)\<close> indexes instead.\<close>

function writeString_sized_loop :: "'t putc \<Rightarrow> memory \<Rightarrow> 't \<Rightarrow> u32 \<Rightarrow> u32 \<Rightarrow> u32 \<Rightarrow> u32 \<times> 't \<times> memory" where
  "writeString_sized_loop putc m t str i n =
     (if i < n then
        case putc m t (m (str + i)) of (_, t', m') \<Rightarrow> writeString_sized_loop putc m' t' str (i + 1) n
      else (i, t, m))"
  by pat_completeness auto
termination
  by (relation "measure (\<lambda>(putc, m, t, str, i, n). unat n - unat i)") (auto simp: word_count_up)

definition writeString_sized :: "'t putc \<Rightarrow> memory \<Rightarrow> 't \<Rightarrow> u32 \<Rightarrow> u32 \<Rightarrow> u32 \<times> 't \<times> memory" where
  "writeString_sized putc m t str n = writeString_sized_loop putc m t str 0 n"

declare writeString_loop.simps [simp del] writeString_sized_loop.simps [simp del]

text \<open>\<open>writeNum\<close>, \<open>writeHex\<close> and \<open>writeInt\<close> differ in the base and in the type of the argument.\<close>

definition write_in_base :: "'t putc \<Rightarrow> int \<Rightarrow> memory \<Rightarrow> 't \<Rightarrow> u32 \<Rightarrow> int \<Rightarrow> (u32 \<times> 't \<times> memory) option" where
  "write_in_base putc base m t buf num =
     (case xtoa m num buf base of None \<Rightarrow> None | Some (_, m') \<Rightarrow> writeString putc m' t buf)"

definition writeHex :: "'t putc \<Rightarrow> memory \<Rightarrow> 't \<Rightarrow> u32 \<Rightarrow> u64 \<Rightarrow> (u32 \<times> 't \<times> memory) option" where
  "writeHex putc m t buf num = write_in_base putc 16 m t buf (uint num)"

definition writeInt :: "'t putc \<Rightarrow> memory \<Rightarrow> 't \<Rightarrow> u32 \<Rightarrow> u64 \<Rightarrow> (u32 \<times> 't \<times> memory) option" where
  "writeInt putc m t buf num = write_in_base putc 10 m t buf (sint num)"

definition writeNum :: "'t putc \<Rightarrow> outstream \<Rightarrow> memory \<Rightarrow> 't \<Rightarrow> u32 \<Rightarrow> int \<Rightarrow> (u32 \<times> 't \<times> memory) option" where
  "writeNum putc os m t buf num = write_in_base putc (os_base os) m t buf num"

text \<open>
  \<open>earlyPanic\<close> switches the terminal to red if the configuration macro \<open>__is32__\<close> or \<open>__is64__\<close> is
  defined (the flag \<open>is32\<close>), prints its prefix (a literal at address \<open>prefix\<close>) and the message, and
  hangs. The result is the state in which the machine stays.
\<close>

definition earlyPanic_prefix :: string where
  "earlyPanic_prefix = ''earlyPanic(): ''"

definition earlyPanic :: "bool \<Rightarrow> memory \<Rightarrow> framebuffer_terminal \<Rightarrow> u32 \<Rightarrow> u32 \<Rightarrow> (framebuffer_terminal \<times> memory) option" where
  "earlyPanic is32 m t prefix str =
     (let t1 = (if is32 then setColor t VGA_COLOR_LIGHT_GREY VGA_COLOR_RED else t)
      in case writeString putchar m t1 prefix of
           None \<Rightarrow> None
         | Some (_, t2, m2) \<Rightarrow>
             (case writeString putchar m2 t2 str of
                None \<Rightarrow> None
              | Some (_, t3, m3) \<Rightarrow> Some (t3, m3)))"

text \<open>\<open>abort\<close> is \<open>earlyPanic\<close> of a message of its own, the literal at address \<open>msg\<close>; the halt after it is never reached.\<close>

definition abort_msg :: string where
  "abort_msg = ''kernel: panic: abort()''"

definition abort :: "bool \<Rightarrow> memory \<Rightarrow> framebuffer_terminal \<Rightarrow> u32 \<Rightarrow> u32 \<Rightarrow> (framebuffer_terminal \<times> memory) option" where
  "abort is32 m t prefix msg = earlyPanic is32 m t prefix msg"

section \<open>The contract of a back end\<close>

fun put_all :: "'t putc \<Rightarrow> memory \<Rightarrow> 't \<Rightarrow> u8 list \<Rightarrow> 't \<times> memory" where
  "put_all putc m t [] = (t, m)"
| "put_all putc m t (c # cs) = (case putc m t c of (_, t', m') \<Rightarrow> put_all putc m' t' cs)"

text \<open>
  A sink keeps an invariant and writes only to addresses it owns, so a string that lies
  elsewhere is printed unchanged.
\<close>

locale char_sink =
  fixes putc :: "'t putc"
    and inv :: "'t \<Rightarrow> bool"
    and own :: "'t \<Rightarrow> u32 \<Rightarrow> bool"
  assumes putc_inv: "inv t \<Longrightarrow> putc m t c = (r, t', m') \<Longrightarrow> inv t'"
    and putc_own: "inv t \<Longrightarrow> putc m t c = (r, t', m') \<Longrightarrow> own t' = own t"
    and putc_frame: "inv t \<Longrightarrow> putc m t c = (r, t', m') \<Longrightarrow> \<not> own t x \<Longrightarrow> m' x = m x"
begin

lemma put_all_frame:
  "inv t \<Longrightarrow> put_all putc m t cs = (t', m') \<Longrightarrow> inv t' \<and> own t' = own t \<and> (\<forall>x. \<not> own t x \<longrightarrow> m' x = m x)"
proof (induction cs arbitrary: m t)
  case (Cons c cs)
  obtain r t1 m1 where step: "putc m t c = (r, t1, m1)" by (metis prod_cases3)
  with Cons.prems have "put_all putc m1 t1 cs = (t', m')" by simp
  with Cons.IH [of t1 m1] Cons.prems(1) step putc_inv putc_own putc_frame show ?case by metis
qed simp

lemma writeString_loop_put_all:
  assumes "inv t" and "unat i + length cs = unat n" and "\<And>k. k < length cs \<Longrightarrow> \<not> own t (str + of_nat k)"
    and "\<And>k. k < length cs \<Longrightarrow> m (str + of_nat k) = cs ! k"
  shows "writeString_loop putc m t str i n = (n, put_all putc m t cs)"
  using assms
proof (induction cs arbitrary: m t str i)
  case Nil
  then have "i = n" by (simp add: word_unat_eq_iff)
  then show ?case by (simp add: writeString_loop.simps)
next
  case (Cons c cs)
  have less: "i < n" using Cons.prems(2) by (simp add: word_less_nat_alt)
  have c: "m str = c" using Cons.prems(4) [of 0] by simp
  obtain r t1 m1 where step: "putc m t c = (r, t1, m1)" by (metis prod_cases3)
  have "writeString_loop putc m1 t1 (str + 1) (i + 1) n = (n, put_all putc m1 t1 cs)"
  proof (rule Cons.IH)
    show "inv t1" using putc_inv [OF Cons.prems(1) step] .
    show "unat (i + 1) + length cs = unat n"
      using Cons.prems(2) word_Suc_unat [OF less] by simp
    show "\<not> own t1 (str + 1 + of_nat k)" if "k < length cs" for k
      using Cons.prems(3) [of "Suc k"] that putc_own [OF Cons.prems(1) step] by (simp add: add.assoc)
    then show "m1 (str + 1 + of_nat k) = cs ! k" if "k < length cs" for k
      using Cons.prems(4) [of "Suc k"] that putc_own [OF Cons.prems(1) step] putc_frame [OF Cons.prems(1) step]
      by (simp add: add.assoc)
  qed
  then show ?case
    using less c step by (simp add: writeString_loop.simps [of putc m])
qed

lemma writeString_cstr:
  assumes "inv t" and "cstr m str cs" and "\<And>k. k \<le> length cs \<Longrightarrow> \<not> own t (str + of_nat k)"
  shows "writeString putc m t str = Some (of_nat (length cs), put_all putc m t cs)"
proof -
  have "unat (of_nat (length cs) :: u32) = length cs"
    using cstr_length [OF assms(2)] by (simp add: unat_of_nat)
  then have "writeString_loop putc m t str 0 (of_nat (length cs)) = (of_nat (length cs), put_all putc m t cs)"
    using assms by (intro writeString_loop_put_all) (simp_all add: cstr_nth)
  with strlen_cstr [OF assms(2)] show ?thesis by (simp add: writeString_def)
qed

lemma write_in_base_text:
  assumes "inv t" and "2 \<le> base" and "base \<le> 16" and "\<bar>num\<bar> < 2 ^ 64"
    and "\<And>k. k < MAX_NUM_STR_SIZE \<Longrightarrow> \<not> own t (buf + of_nat k)"
  shows "\<exists>m'. cstr m' buf (xtoa_text num base) \<and>
    (\<forall>x. \<not> unat (x - buf) < MAX_NUM_STR_SIZE \<longrightarrow> m' x = m x) \<and>
    write_in_base putc base m t buf num
      = Some (of_nat (length (xtoa_text num base)), put_all putc m' t (xtoa_text num base))"
proof -
  obtain m' where m': "xtoa m num buf base = Some (buf, m')" "cstr m' buf (xtoa_text num base)"
    "\<forall>x. \<not> unat (x - buf) < MAX_NUM_STR_SIZE \<longrightarrow> m' x = m x"
    using xtoa_cstr [OF assms(2-4)] by blast
  have "writeString putc m' t buf = Some (of_nat (length (xtoa_text num base)), put_all putc m' t (xtoa_text num base))"
    using xtoa_text_length [OF assms(2,4)] assms(5) by (intro writeString_cstr [OF assms(1) m'(2)]) simp
  with m' show ?thesis by (auto simp: write_in_base_def)
qed

end

text \<open>The terminal owns the bytes of its framebuffer.\<close>

definition in_framebuffer :: "framebuffer_terminal \<Rightarrow> u32 \<Rightarrow> bool" where
  "in_framebuffer t x \<longleftrightarrow> x - t_buffer t < 4000"

interpretation fb: char_sink putchar term_inv in_framebuffer
proof
  fix t m c r t' m' x
  assume "term_inv t" and "putchar m t c = (r, t', m')"
  then have "term_inv t' \<and> same_outside (t_buffer t) m m' \<and> t_buffer t' = t_buffer t"
    using putchar_refines by blast
  then show "term_inv t'" and "in_framebuffer t' = in_framebuffer t"
    and "\<not> in_framebuffer t x \<Longrightarrow> m' x = m x"
    by (auto simp: in_framebuffer_def same_outside_def)
qed

definition print_spec :: "screen \<Rightarrow> u8 list \<Rightarrow> screen" where
  "print_spec = foldl (\<lambda>s c. snd (putchar_spec s c))"

lemma put_all_screen:
  "term_inv t \<Longrightarrow> put_all putchar m t cs = (t', m') \<Longrightarrow> term_abs m' t' = print_spec (term_abs m t) cs"
proof (induction cs arbitrary: m t)
  case (Cons c cs)
  obtain r t1 m1 where step: "putchar m t c = (r, t1, m1)" by (metis prod_cases3)
  then have "term_abs m1 t1 = snd (putchar_spec (term_abs m t) c)" "term_inv t1"
    using putchar_refines [OF Cons.prems(1) step] by (metis snd_conv, blast)
  with Cons step show ?case by (simp add: print_spec_def)
qed (simp add: print_spec_def)

lemma term_abs_cong:
  assumes "\<And>x. in_framebuffer t x \<Longrightarrow> m' x = m x"
  shows "term_abs m' t = term_abs m t"
proof -
  have "m' (t_buffer t + 2 * of_nat i + k) = m (t_buffer t + 2 * of_nat i + k)" if "i < 2000" "k < 2" for i and k :: u32
  proof (rule assms)
    have "unat (2 * of_nat i + k :: u32) = 2 * i + unat k"
      using that by (simp add: unat_word_ariths unat_of_nat word_less_nat_alt)
    with that show "in_framebuffer t (t_buffer t + 2 * of_nat i + k)"
      by (simp add: in_framebuffer_def word_less_nat_alt add.assoc)
  qed
  then show ?thesis
    by (auto simp: term_abs_def cells_def intro!: load16_cong)
qed

text \<open>The byte list of a string literal.\<close>

definition bytes_of :: "string \<Rightarrow> u8 list" where
  "bytes_of s = map of_char s"

text \<open>
  \<open>out << literal\<close> and \<open>out << number\<close> as seen by their callers. The literal is in read-only data and
  the digits are in a buffer on the stack of \<open>writeNum\<close>, both outside the modelled memory, so what is left
  of the calls is the characters put on the terminal (\<open>fb.writeString_cstr\<close>, \<open>fb.write_in_base_text\<close>).
\<close>

definition out_str :: "memory \<Rightarrow> framebuffer_terminal \<Rightarrow> string \<Rightarrow> framebuffer_terminal \<times> memory" where
  "out_str m t s = put_all putchar m t (bytes_of s)"

definition out_num :: "outstream \<Rightarrow> memory \<Rightarrow> framebuffer_terminal \<Rightarrow> int \<Rightarrow> framebuffer_terminal \<times> memory" where
  "out_num os m t num = put_all putchar m t (xtoa_text num (os_base os))"

lemma out_frame:
  assumes "term_inv t" "out_str m t s = (t', m') \<or> out_num os m t num = (t', m')"
  shows "term_inv t' \<and> t_buffer t' = t_buffer t \<and> (\<forall>x. \<not> in_framebuffer t x \<longrightarrow> m' x = m x)"
proof -
  obtain cs where "put_all putchar m t cs = (t', m')"
    using assms(2) by (auto simp: out_str_def out_num_def)
  note fb.put_all_frame [OF assms(1) this]
  moreover have "t_buffer t' = t_buffer t" if "in_framebuffer t' = in_framebuffer t"
  proof -
    have "in_framebuffer t (t_buffer t)" "in_framebuffer t' (t_buffer t')" by (simp_all add: in_framebuffer_def)
    with that have "in_framebuffer t (t_buffer t')" "in_framebuffer t' (t_buffer t)" by simp_all
    then show ?thesis
      by (auto simp: in_framebuffer_def word_less_nat_alt unat_sub_if' word_unat_eq_iff split: if_splits)
  qed
  ultimately show ?thesis by blast
qed

text \<open>A chain of \<open><<\<close> operators.\<close>

datatype out_item = Str string | Num int

fun out_chain :: "outstream \<Rightarrow> memory \<Rightarrow> framebuffer_terminal \<Rightarrow> out_item list \<Rightarrow> framebuffer_terminal \<times> memory" where
  "out_chain os m t [] = (t, m)"
| "out_chain os m t (Str s # xs) = (case out_str m t s of (t', m') \<Rightarrow> out_chain os m' t' xs)"
| "out_chain os m t (Num n # xs) = (case out_num os m t n of (t', m') \<Rightarrow> out_chain os m' t' xs)"

lemma out_chain_frame:
  "term_inv t \<Longrightarrow> out_chain os m t xs = (t', m') \<Longrightarrow>
   term_inv t' \<and> t_buffer t' = t_buffer t \<and> (\<forall>x. \<not> in_framebuffer t x \<longrightarrow> m' x = m x)"
proof (induction os m t xs rule: out_chain.induct)
  case (2 os m t s xs)
  obtain t1 m1 where o: "out_str m t s = (t1, m1)" by fastforce
  with 2 out_frame [of t m s t1 m1] show ?case by (auto simp: in_framebuffer_def)
next
  case (3 os m t n xs)
  obtain t1 m1 where o: "out_num os m t n = (t1, m1)" by fastforce
  with 3 out_frame [of t m _ t1 m1 os n] show ?case by (auto simp: in_framebuffer_def)
qed simp

section \<open>What the stream guarantees\<close>

text \<open>
  Writing a C string that does not overlap the framebuffer returns its length and leaves
  exactly the screen that results from printing its characters one after the other.
\<close>

theorem writeString_prints:
  assumes "term_inv t" and "cstr m str cs" and "\<forall>k \<le> length cs. \<not> in_framebuffer t (str + of_nat k)"
  shows "\<exists>t' m'. writeString putchar m t str = Some (of_nat (length cs), t', m') \<and> term_inv t' \<and>
    term_abs m' t' = print_spec (term_abs m t) cs \<and> cstr m' str cs"
proof -
  obtain t' m' where put: "put_all putchar m t cs = (t', m')" by fastforce
  have "writeString putchar m t str = Some (of_nat (length cs), t', m')"
    using fb.writeString_cstr [OF assms(1,2)] assms(3) put by simp
  moreover have "cstr m' str cs"
    using fb.put_all_frame [OF assms(1) put] assms(2,3) by (simp add: cstr_nth)
  ultimately show ?thesis
    using fb.put_all_frame [OF assms(1) put] put_all_screen [OF assms(1) put] by blast
qed

theorem writeString_prints_witness:
  "\<exists>t' m'. writeString putchar ((\<lambda>_. 0)(0 := 79, 1 := 75)) new_terminal 0 = Some (2, t', m') \<and>
     term_abs m' t' = print_spec (term_abs ((\<lambda>_. 0)(0 := 79, 1 := 75)) new_terminal) [79, 75]"
proof -
  have "\<forall>k \<le> length [79, 75 :: u8]. \<not> in_framebuffer new_terminal (0 + of_nat k)"
    by (auto simp: le_Suc_eq in_framebuffer_def FRAMEBUFFER_LOCATION_def)
  with writeString_prints [of new_terminal "(\<lambda>_. 0)(0 := 79, 1 := 75)" 0 "[79, 75]"] show ?thesis by auto
qed

text \<open>
  C20. \<open>earlyPanic\<close> gets to its halt: the machine stays on a screen that shows its prefix and then the whole message,
  on red if the configuration macro was defined, and no memory but the framebuffer has changed.
\<close>

theorem earlyPanic_prints:
  assumes "term_inv t" "cstr m prefix (bytes_of earlyPanic_prefix)" "cstr m str cs"
    and "\<forall>k \<le> length earlyPanic_prefix. \<not> in_framebuffer t (prefix + of_nat k)" "\<forall>k \<le> length cs. \<not> in_framebuffer t (str + of_nat k)"
    and "t1 = (if is32 then setColor t VGA_COLOR_LIGHT_GREY VGA_COLOR_RED else t)"
  shows "\<exists>t' m'. earlyPanic is32 m t prefix str = Some (t', m') \<and> term_inv t' \<and>
    term_abs m' t' = print_spec (term_abs m t1) (bytes_of earlyPanic_prefix @ cs) \<and> (\<forall>x. \<not> in_framebuffer t x \<longrightarrow> m' x = m x)"
proof -
  have t1: "term_inv t1" "in_framebuffer t1 = in_framebuffer t"
    using assms(1,6) by (auto simp: setColor_def term_inv_def in_framebuffer_def)
  obtain t2 m2 where p2: "put_all putchar m t1 (bytes_of earlyPanic_prefix) = (t2, m2)" by fastforce
  note f2 = fb.put_all_frame [OF t1(1) p2]
  have w2: "writeString putchar m t1 prefix = Some (of_nat (length (bytes_of earlyPanic_prefix)), t2, m2)"
    using fb.writeString_cstr [OF t1(1) assms(2)] assms(4) t1(2) p2 by (simp add: bytes_of_def)
  have str: "cstr m2 str cs" using f2 assms(3,5) t1(2) by (simp add: cstr_nth)
  obtain t3 m3 where p3: "put_all putchar m2 t2 cs = (t3, m3)" by fastforce
  have "writeString putchar m2 t2 str = Some (of_nat (length cs), t3, m3)"
    using fb.writeString_cstr [OF _ str, of t2] assms(5) t1(2) f2 p3 by simp
  moreover have "term_abs m3 t3 = print_spec (term_abs m t1) (bytes_of earlyPanic_prefix @ cs)"
    using put_all_screen [OF t1(1) p2] put_all_screen [OF _ p3] f2 by (simp add: print_spec_def)
  ultimately show ?thesis
    using w2 f2 fb.put_all_frame [OF _ p3] t1(2) assms(6) by (auto simp: earlyPanic_def Let_def)
qed

theorem earlyPanic_prints_witness:
  "\<exists>t' m'. earlyPanic True (write_bytes ((\<lambda>_. 0)(0x100 := 88)) 0 (bytes_of earlyPanic_prefix @ [0])) new_terminal 0 0x100 = Some (t', m') \<and> m' 0x100 = 88"
proof -
  let ?m = "write_bytes ((\<lambda>_. 0)(0x100 := 88)) 0 (bytes_of earlyPanic_prefix @ [0])"
  have out: "\<forall>k \<le> length earlyPanic_prefix. \<not> in_framebuffer new_terminal (0 + of_nat k)" "\<forall>k \<le> length [88 :: u8]. \<not> in_framebuffer new_terminal (0x100 + of_nat k)"
    by (auto simp: le_Suc_eq in_framebuffer_def FRAMEBUFFER_LOCATION_def earlyPanic_prefix_def)
  have p: "cstr ?m 0 (bytes_of earlyPanic_prefix)"
    by (rule cstr_write_bytes) (simp_all add: bytes_of_def earlyPanic_prefix_def)
  have x: "?m 0x100 = 88" "?m 0x101 = 0"
    by (simp_all add: write_bytes_outside bytes_of_def earlyPanic_prefix_def)
  then have c: "cstr ?m 0x100 [88]" by simp
  have n: "\<not> in_framebuffer new_terminal 0x100" using out(2) by (auto dest: spec [of _ 0])
  obtain t' m' where r: "earlyPanic True ?m new_terminal 0 0x100 = Some (t', m')" "\<forall>x. \<not> in_framebuffer new_terminal x \<longrightarrow> m' x = ?m x"
    using earlyPanic_prints [OF _ p c out refl, of True] by auto
  from r(2) n x(1) have "m' 0x100 = 88" by metis
  with r(1) show ?thesis by blast
qed

text \<open>
  C21. \<open>writeNum\<close> of an unsigned number prints, in the stream's base, a numeral whose value is
  that number, whatever valid base the stream was switched to; its own buffer on the stack is
  large enough.
\<close>

theorem writeNum_prints:
  assumes "term_inv t" and "2 \<le> os_base os" and "os_base os \<le> 16" and "0 \<le> num" and "num < 2 ^ 64"
    and "\<forall>k < MAX_NUM_STR_SIZE. \<not> in_framebuffer t (buf + of_nat k)"
    and "\<forall>x. in_framebuffer t x \<longrightarrow> \<not> unat (x - buf) < MAX_NUM_STR_SIZE"
  shows "\<exists>cs t' m'. writeNum putchar os m t buf num = Some (of_nat (length cs), t', m') \<and>
    term_abs m' t' = print_spec (term_abs m t) cs \<and> int (parse_digits (nat (os_base os)) cs) = num"
proof -
  let ?cs = "xtoa_text num (os_base os)"
  obtain m1 where m1: "cstr m1 buf ?cs" "\<forall>x. \<not> unat (x - buf) < MAX_NUM_STR_SIZE \<longrightarrow> m1 x = m x"
    "write_in_base putchar (os_base os) m t buf num = Some (of_nat (length ?cs), put_all putchar m1 t ?cs)"
    using fb.write_in_base_text [of t "os_base os" num buf m] assms by auto
  obtain t' m' where put: "put_all putchar m1 t ?cs = (t', m')" by fastforce
  have "term_abs m1 t = term_abs m t"
    using m1(2) assms(7) by (intro term_abs_cong) blast
  moreover have "int (parse_digits (nat (os_base os)) ?cs) = num"
    using assms xtoa_text_value by simp
  ultimately show ?thesis
    using m1(3) put put_all_screen [OF assms(1) put] by (auto simp: writeNum_def)
qed

theorem writeNum_prints_witness:
  "\<exists>cs t' m'. writeNum putchar \<lparr>os_base = 16\<rparr> (\<lambda>_. 0) new_terminal 0 0xAB = Some (of_nat (length cs), t', m') \<and>
     int (parse_digits 16 cs) = 0xAB"
proof -
  have a: "\<forall>k < MAX_NUM_STR_SIZE. \<not> in_framebuffer new_terminal (0 + of_nat k)"
    by (auto simp: in_framebuffer_def FRAMEBUFFER_LOCATION_def word_less_nat_alt unat_sub_if' unat_of_nat)
  have b: "\<forall>x. in_framebuffer new_terminal x \<longrightarrow> \<not> unat (x - 0) < MAX_NUM_STR_SIZE"
    using a [rule_format, of "unat (x :: u32)" for x] by fastforce
  show ?thesis
    using writeNum_prints [OF _ _ _ _ _ a b, of "\<lparr>os_base = 16\<rparr>" "0xAB" "\<lambda>_. 0"] by auto
qed

end
