(* ===== verification/Elf.thy ===== *)
theory Elf
  imports Outstream
begin

text \<open>
  The ELF structures of \<open>include/sys/elf.h\<close> and the loader of \<open>bootloader/stage1main.cpp\<close>
  (\<open>elf_check_file\<close>, \<open>elf_check_prog_header\<close>, \<open>elf32_load\<close>), with its progress messages.
\<close>

section \<open>The structures\<close>

record elf32_Ehdr =
  e_ident :: "u8 list"
  e_type :: u16
  e_machine :: u16
  e_version :: u32
  e_entry :: u32
  e_phoff :: u32
  e_shoff :: u32
  e_flags :: u32
  e_ehsize :: u16
  e_phentsize :: u16
  e_phnum :: u16
  e_shentsize :: u16
  e_shnum :: u16
  e_shstrndx :: u16

definition ehdr_at :: "memory \<Rightarrow> u32 \<Rightarrow> elf32_Ehdr" where
  "ehdr_at m a = \<lparr>e_ident = read_bytes m a 16, e_type = load16 m (a + 16), e_machine = load16 m (a + 18),
     e_version = load32 m (a + 20), e_entry = load32 m (a + 24), e_phoff = load32 m (a + 28), e_shoff = load32 m (a + 32),
     e_flags = load32 m (a + 36), e_ehsize = load16 m (a + 40), e_phentsize = load16 m (a + 42), e_phnum = load16 m (a + 44),
     e_shentsize = load16 m (a + 46), e_shnum = load16 m (a + 48), e_shstrndx = load16 m (a + 50)\<rparr>"

record elf32_Phdr =
  p_type :: u32
  p_offset :: u32
  p_vaddr :: u32
  p_paddr :: u32
  p_filesz :: u32
  p_memsz :: u32
  p_flags :: u32
  p_align :: u32

definition phdr_at :: "memory \<Rightarrow> u32 \<Rightarrow> elf32_Phdr" where
  "phdr_at m a = \<lparr>p_type = load32 m a, p_offset = load32 m (a + 4), p_vaddr = load32 m (a + 8), p_paddr = load32 m (a + 12),
     p_filesz = load32 m (a + 16), p_memsz = load32 m (a + 20), p_flags = load32 m (a + 24), p_align = load32 m (a + 28)\<rparr>"

text \<open>The constants of \<open>elf.h\<close> that the loader tests for.\<close>

definition ELFMAG :: "u8 list" where
  "ELFMAG = [0x7f, 0x45, 0x4c, 0x46]"

definition ELFCLASS32 :: u8 where
  [simp]: "ELFCLASS32 = 1"

definition ELFDATA2LSB :: u8 where
  [simp]: "ELFDATA2LSB = 1"

definition ET_EXEC :: u16 where
  [simp]: "ET_EXEC = 2"

definition EM_386 :: u16 where
  [simp]: "EM_386 = 3"

definition EV_CURRENT :: u8 where
  [simp]: "EV_CURRENT = 1"

definition PT_LOAD :: u32 where
  [simp]: "PT_LOAD = 1"

definition PT_DYNAMIC :: u32 where
  [simp]: "PT_DYNAMIC = 2"

definition PT_INTERP :: u32 where
  [simp]: "PT_INTERP = 3"

text \<open>The enumeration \<open>elf_Ident\<close>: positions in \<open>e_ident\<close>.\<close>

datatype elf_Ident = EI_MAG0 | EI_MAG1 | EI_MAG2 | EI_MAG3 | EI_CLASS | EI_DATA | EI_VERSION | EI_OSABI | EI_ABIVERSION | EI_PAD

primrec ident_index :: "elf_Ident \<Rightarrow> nat" where
  "ident_index EI_MAG0 = 0"
| "ident_index EI_MAG1 = 1"
| "ident_index EI_MAG2 = 2"
| "ident_index EI_MAG3 = 3"
| "ident_index EI_CLASS = 4"
| "ident_index EI_DATA = 5"
| "ident_index EI_VERSION = 6"
| "ident_index EI_OSABI = 7"
| "ident_index EI_ABIVERSION = 8"
| "ident_index EI_PAD = 9"

section \<open>The operations\<close>

definition elf_check_file :: "memory \<Rightarrow> u32 \<Rightarrow> bool" where
  "elf_check_file m header =
     (if header = 0 then False else
      let h = ehdr_at m header; ident = (\<lambda>i. e_ident h ! ident_index i) in
      if ident EI_MAG0 \<noteq> ELFMAG ! 0 then False
      else if ident EI_MAG1 \<noteq> ELFMAG ! 1 then False
      else if ident EI_MAG2 \<noteq> ELFMAG ! 2 then False
      else if ident EI_MAG3 \<noteq> ELFMAG ! 3 then False
      else if ident EI_CLASS \<noteq> ELFCLASS32 then False
      else if ident EI_DATA \<noteq> ELFDATA2LSB then False
      else if e_machine h \<noteq> EM_386 then False
      else if ident EI_VERSION \<noteq> EV_CURRENT then False
      else if e_type h \<noteq> ET_EXEC then False
      else True)"

definition elf_check_prog_header :: "elf32_Phdr \<Rightarrow> bool" where
  "elf_check_prog_header p = (if p_type p = PT_DYNAMIC then False else if p_type p = PT_INTERP then False else True)"

text \<open>The copying of one segment; the sizes are read again from the program header for every use.\<close>

definition load_segment :: "memory \<Rightarrow> u32 \<Rightarrow> u32 \<Rightarrow> u32 \<Rightarrow> memory" where
  "load_segment m dest src ph =
     (let m = memcpy m dest src (p_filesz (phdr_at m ph));
          p = phdr_at m ph
      in if p_memsz p > p_filesz p then memset m (dest + p_filesz p) 0 (p_memsz p - p_filesz p) else m)"

text \<open>The loop returns the final \<open>ph\<close> and the count, or no pair when a program header is refused.\<close>

partial_function (option) elf32_load_loop ::
  "outstream \<Rightarrow> memory \<Rightarrow> framebuffer_terminal \<Rightarrow> u32 \<Rightarrow> u32 \<Rightarrow> u32 \<Rightarrow> u32 \<Rightarrow>
   ((u32 \<times> u32) option \<times> framebuffer_terminal \<times> memory) option" where
  "elf32_load_loop os m t header ph eph i =
     (if ph < eph then
        let (t, m) = out_chain os m t [Str ''Found segment at 0x'', Num (uint ph), Str '' of type ''];
            (t, m) = out_chain os m t [Num (uint (p_type (phdr_at m ph))), Str [CHR 10]];
            p = phdr_at m ph
        in if \<not> elf_check_prog_header p then Some (None, t, m)
           else if p_type p \<noteq> PT_LOAD \<or> p_memsz p = 0
           then elf32_load_loop os m t header (ph + ucast (e_phentsize (ehdr_at m header))) eph i
           else let dest = p_paddr p; src = header + p_offset p;
                    (t, m) = out_chain os m t [Str ''Loading it to 0x'', Num (uint dest), Str [CHR 10]];
                    m = load_segment m dest src ph
                in elf32_load_loop os m t header (ph + ucast (e_phentsize (ehdr_at m header))) eph (i + 1)
      else Some (Some (ph, i), t, m))"

definition elf32_load :: "outstream \<Rightarrow> memory \<Rightarrow> framebuffer_terminal \<Rightarrow> u32 \<Rightarrow> (u32 \<times> framebuffer_terminal \<times> memory) option" where
  "elf32_load os m t header =
     (let ph = header + e_phoff (ehdr_at m header);
          eph = ph + 32 * ucast (e_phnum (ehdr_at m header))
      in case elf32_load_loop os m t header ph eph 0 of
           None \<Rightarrow> None
         | Some (None, t, m) \<Rightarrow> Some (0, t, m)
         | Some (Some (ph, i), t, m) \<Rightarrow>
             let ph = ph - ucast (e_phentsize (ehdr_at m header));
                 finalMem = p_paddr (phdr_at m ph) + p_memsz (phdr_at m ph);
                 (t, m) = out_chain os m t [Str ''Loaded '', Num (uint i), Str ('' segments total!'' @ [CHR 10])]
             in Some (finalMem, t, m))"

declare elf32_load_loop.simps [code]

section \<open>Specification of loading\<close>

definition loads :: "elf32_Phdr \<Rightarrow> bool" where
  "loads p \<longleftrightarrow> p_type p = PT_LOAD \<and> p_memsz p \<noteq> 0"

definition in_dest :: "elf32_Phdr \<Rightarrow> u32 \<Rightarrow> bool" where
  "in_dest p x \<longleftrightarrow> x - p_paddr p < p_memsz p"

definition in_file :: "u32 \<Rightarrow> u32 \<Rightarrow> u32 \<Rightarrow> bool" where
  "in_file header fl x \<longleftrightarrow> x - header < fl"

text \<open>The bytes of a loaded segment: the file's bytes, then zeros.\<close>

definition seg_content :: "memory \<Rightarrow> u32 \<Rightarrow> elf32_Phdr \<Rightarrow> memory \<Rightarrow> bool" where
  "seg_content m0 header p m' \<longleftrightarrow> (\<forall>k < p_memsz p. m' (p_paddr p + k) =
     (if k < p_filesz p then m0 (header + p_offset p + k) else 0))"

text \<open>A program header that can be loaded: accepted, and if it is loaded, it takes its bytes from the file and
  its destination is apart from the file and from the framebuffer.\<close>

definition good_phdr :: "u32 \<Rightarrow> u32 \<Rightarrow> framebuffer_terminal \<Rightarrow> elf32_Phdr \<Rightarrow> bool" where
  "good_phdr header fl t p \<longleftrightarrow> elf_check_prog_header p \<and> (loads p \<longrightarrow> p_filesz p \<le> p_memsz p \<and>
     (\<forall>k < p_filesz p. in_file header fl (header + p_offset p + k)) \<and>
     (\<forall>x. in_dest p x \<longrightarrow> \<not> in_file header fl x \<and> \<not> in_framebuffer t x))"

fun apart :: "elf32_Phdr list \<Rightarrow> bool" where
  "apart [] \<longleftrightarrow> True"
| "apart (p # ps) \<longleftrightarrow> (loads p \<longrightarrow> (\<forall>q \<in> set ps. loads q \<longrightarrow> (\<forall>x. \<not> (in_dest p x \<and> in_dest q x)))) \<and> apart ps"

section \<open>Loading one segment\<close>

lemma separate_ranges:
  assumes "\<And>x. x - a < n \<Longrightarrow> \<not> x - b < n"
  shows "sep a n b n"
proof (cases "n = 0")
  case False
  then have "0 < n" by (simp add: word_gt_0)
  then have "\<not> b - a < n" "\<not> a - b < n" using assms [of a] assms [of b] by auto
  then show ?thesis by (simp add: sep_def not_less)
qed (simp add: sep_def)

lemma phdr_at_cong:
  assumes "\<And>k. k < 32 \<Longrightarrow> m' (a + k) = m (a + k)"
  shows "phdr_at m' a = phdr_at m a"
proof -
  have "load32 m' (a + b) = load32 m (a + b)" if "b \<le> 28" for b
  proof (rule load32_cong)
    fix k :: u32 assume "k < 4"
    with that have "b + k < 32" by (simp add: word_less_nat_alt word_le_nat_alt unat_word_ariths)
    then show "m' (a + b + k) = m (a + b + k)" using assms [of "b + k"] by (simp add: add.assoc)
  qed
  from this [of 0] this [of 4] this [of 8] this [of 12] this [of 16] this [of 20] this [of 24] this [of 28]
  show ?thesis by (simp add: phdr_at_def)
qed

lemma load_segment_content:
  assumes "good_phdr header fl t p" "loads p" "phdr_at m ph = p" "\<And>k. k < 32 \<Longrightarrow> in_file header fl (ph + k)"
  shows "seg_content m header p (load_segment m (p_paddr p) (header + p_offset p) ph)"
    and "\<not> in_dest p x \<Longrightarrow> load_segment m (p_paddr p) (header + p_offset p) ph x = m x"
proof -
  let ?d = "p_paddr p" and ?s = "header + p_offset p" and ?f = "p_filesz p" and ?n = "p_memsz p"
  have le: "?f \<le> ?n" and src: "\<And>k. k < ?f \<Longrightarrow> in_file header fl (?s + k)"
    and dst: "\<And>x. in_dest p x \<Longrightarrow> \<not> in_file header fl x"
    using assms by (auto simp: good_phdr_def)
  have "\<not> x - ?s < ?f" if "x - ?d < ?f" for x
    using that le dst [of x] src [of "x - ?s"] by (auto simp: in_dest_def)
  then have cpy: "memcpy m ?d ?s ?f = copied m ?d ?s ?f"
    by (intro memcpy_eq_copied separate_ranges)
  have "copied m ?d ?s ?f (ph + k) = m (ph + k)" if "k < 32" for k
    using dst [of "ph + k"] assms(4) [OF that] le by (auto simp: copied_def in_dest_def dest: order_less_le_trans)
  then have p: "phdr_at (copied m ?d ?s ?f) ph = p" using phdr_at_cong assms(3) by blast
  have l: "load_segment m (p_paddr p) (header + p_offset p) ph = (if ?f < ?n then memset (copied m ?d ?s ?f) (?d + ?f) 0 (?n - ?f) else copied m ?d ?s ?f)"
    by (simp add: load_segment_def Let_def assms(3) cpy p)
  have ls: "load_segment m (p_paddr p) (header + p_offset p) ph x = (if x - ?d < ?f then m (?s + (x - ?d)) else if x - ?d < ?n then 0 else m x)" for x
  proof (cases "?f < ?n")
    case True
    have "x - (?d + ?f) < ?n - ?f \<longleftrightarrow> \<not> x - ?d < ?f \<and> x - ?d < ?n"
      using le by uint_arith
    then show ?thesis
      using True by (auto simp: l memset_eq_filled filled_def copied_def)
  next
    case False
    then have "?n = ?f" using le by simp
    then show ?thesis by (simp add: l copied_def)
  qed
  show "seg_content m header p (load_segment m (p_paddr p) (header + p_offset p) ph)" by (simp add: seg_content_def ls)
  show "load_segment m (p_paddr p) (header + p_offset p) ph x = m x" if "\<not> in_dest p x"
    using that le by (auto simp: ls in_dest_def dest: order_less_le_trans)
qed

section \<open>The loop over the program headers\<close>

lemma phentsize_cong:
  "(\<And>k. k < 52 \<Longrightarrow> m' (a + k) = m (a + k)) \<Longrightarrow> e_phentsize (ehdr_at m' a) = e_phentsize (ehdr_at m a)"
  by (simp add: ehdr_at_def load16_def add.assoc)

lemma elf_loop_loaded:
  assumes "\<And>x. in_file header fl x \<Longrightarrow> m x = m0 x" "term_inv t" "\<And>x. in_file header fl x \<Longrightarrow> \<not> in_framebuffer t x"
    and "\<And>k. k < 52 \<Longrightarrow> in_file header fl (header + k)" "e_phentsize (ehdr_at m0 header) = 32"
    and "ps = map (\<lambda>j. phdr_at m0 (ph + 32 * of_nat j)) [0..<n]" "unat ph + 32 * n < 2 ^ 32" "eph = ph + 32 * of_nat n"
    and "\<And>j k. j < n \<Longrightarrow> k < 32 \<Longrightarrow> in_file header fl (ph + 32 * of_nat j + k)"
    and "\<forall>p \<in> set ps. good_phdr header fl t p" "apart ps"
  shows "\<exists>t' m'. elf32_load_loop os m t header ph eph i = Some (Some (eph, i + of_nat (length (filter loads ps))), t', m') \<and>
    (\<forall>p \<in> set ps. loads p \<longrightarrow> seg_content m0 header p m') \<and> term_inv t' \<and> t_buffer t' = t_buffer t \<and>
    (\<forall>x. \<not> in_framebuffer t x \<and> (\<forall>p \<in> set ps. loads p \<longrightarrow> \<not> in_dest p x) \<longrightarrow> m' x = m x)"
  using assms
proof (induction n arbitrary: m t ph ps i)
  case 0
  then show ?case by (subst elf32_load_loop.simps) auto
next
  case (Suc n)
  let ?q = "phdr_at m0 ph" and ?ps = "map (\<lambda>j. phdr_at m0 (ph + 32 + 32 * of_nat j)) [0..<n]"
  have ps: "ps = ?q # ?ps"
    unfolding Suc.prems(6) upt_conv_Cons [OF zero_less_Suc]
    by (simp add: map_Suc_upt [symmetric] algebra_simps del: upt_Suc)
  have "unat eph = unat ph + 32 * Suc n"
    using Suc.prems(7,8) by (simp add: unat_word_ariths unat_of_nat)
  then have less: "ph < eph" by (simp add: word_less_nat_alt)
  have eph: "eph = ph + 32 + 32 * of_nat n" using Suc.prems(8) by (simp add: algebra_simps)
  have u: "unat (ph + 32) = unat ph + 32" using Suc.prems(7) by (simp add: unat_word_ariths)
  have good: "good_phdr header fl t ?q" "\<forall>p \<in> set ?ps. good_phdr header fl t p" and ap: "apart ?ps"
    using Suc.prems(10,11) ps by auto
  have infile: "in_file header fl (ph + 32 + 32 * of_nat j + k)" if "j < n" "k < 32" for j k
    using Suc.prems(9) [of "Suc j" k] that by (simp add: algebra_simps)
  obtain t1 m1 where c1: "out_chain os m t [Str ''Found segment at 0x'', Num (uint ph), Str '' of type ''] = (t1, m1)" by fastforce
  obtain t2 m2 where c2: "out_chain os m1 t1 [Num (uint (p_type (phdr_at m1 ph))), Str [CHR 10]] = (t2, m2)" by fastforce
  have t2: "term_inv t2" "t_buffer t2 = t_buffer t" "\<And>x. \<not> in_framebuffer t x \<Longrightarrow> m2 x = m x"
    using out_chain_frame [OF Suc.prems(2) c1] out_chain_frame [OF _ c2] by (auto simp: in_framebuffer_def)
  have f2: "in_framebuffer t2 = in_framebuffer t" using t2(2) by (simp add: in_framebuffer_def fun_eq_iff)
  have file2: "m2 x = m0 x" if "in_file header fl x" for x using that t2(3) Suc.prems(1,3) by simp
  have ph2: "phdr_at m2 ph = ?q" using Suc.prems(9) [of 0] file2 by (intro phdr_at_cong) simp
  have sz: "e_phentsize (ehdr_at m' header) = 32" if "\<And>x. in_file header fl x \<Longrightarrow> m' x = m0 x" for m'
    using phentsize_cong [of m' header m0] that Suc.prems(4,5) by simp
  have gp: "good_phdr header fl t' = good_phdr header fl t" if "t_buffer t' = t_buffer t" for t'
    using that by (simp add: good_phdr_def in_framebuffer_def fun_eq_iff)
  show ?case
  proof (cases "loads ?q")
    case False
    have step: "elf32_load_loop os m t header ph eph i = elf32_load_loop os m2 t2 header (ph + 32) eph i"
      using less c1 c2 ph2 good(1) False sz [OF file2]
      by (subst elf32_load_loop.simps) (auto simp: Let_def good_phdr_def loads_def)
    obtain t' m' where "elf32_load_loop os m2 t2 header (ph + 32) eph i = Some (Some (eph, i + of_nat (length (filter loads ?ps))), t', m')"
      "\<forall>p \<in> set ?ps. loads p \<longrightarrow> seg_content m0 header p m'" "term_inv t'" "t_buffer t' = t_buffer t2"
      "\<forall>x. \<not> in_framebuffer t2 x \<and> (\<forall>p \<in> set ?ps. loads p \<longrightarrow> \<not> in_dest p x) \<longrightarrow> m' x = m2 x"
      using Suc.IH [of m2 t2 ?ps "ph + 32" i] file2 t2 f2 Suc.prems(3-5,7) u eph infile good(2) ap gp [OF t2(2)] by auto
    then show ?thesis using step False ps t2(2,3) f2 by auto
  next
    case True
    obtain t3 m3 where c3: "out_chain os m2 t2 [Str ''Loading it to 0x'', Num (uint (p_paddr ?q)), Str [CHR 10]] = (t3, m3)" by fastforce
    have t3: "term_inv t3" "t_buffer t3 = t_buffer t" "\<And>x. \<not> in_framebuffer t x \<Longrightarrow> m3 x = m x"
      using out_chain_frame [OF t2(1) c3] t2 f2 by auto
    have f3: "in_framebuffer t3 = in_framebuffer t" using t3(2) by (simp add: in_framebuffer_def fun_eq_iff)
    have file3: "m3 x = m0 x" if "in_file header fl x" for x using that t3(3) Suc.prems(1,3) by simp
    have ph3: "phdr_at m3 ph = ?q" using Suc.prems(9) [of 0] file3 by (intro phdr_at_cong) simp
    let ?m = "load_segment m3 (p_paddr ?q) (header + p_offset ?q) ph"
    have "in_file header fl (ph + k)" if "k < 32" for k using Suc.prems(9) [of 0 k] that by simp
    note content = load_segment_content [OF good(1) True ph3 this]
    have file4: "?m x = m0 x" if "in_file header fl x" for x
      using that content(2) [of x] file3 good(1) True by (auto simp: good_phdr_def)
    have step: "elf32_load_loop os m t header ph eph i = elf32_load_loop os ?m t3 header (ph + 32) eph (i + 1)"
      using less c1 c2 c3 ph2 ph3 good(1) True sz [OF file4]
      by (subst elf32_load_loop.simps) (auto simp: Let_def good_phdr_def loads_def)
    obtain t' m' where r: "elf32_load_loop os ?m t3 header (ph + 32) eph (i + 1) = Some (Some (eph, i + 1 + of_nat (length (filter loads ?ps))), t', m')"
      "\<forall>p \<in> set ?ps. loads p \<longrightarrow> seg_content m0 header p m'" "term_inv t'" "t_buffer t' = t_buffer t3"
      "\<forall>x. \<not> in_framebuffer t3 x \<and> (\<forall>p \<in> set ?ps. loads p \<longrightarrow> \<not> in_dest p x) \<longrightarrow> m' x = ?m x"
      using Suc.IH [of ?m t3 ?ps "ph + 32" "i + 1"] file4 t3(1,2) f3 Suc.prems(3-5,7) u eph infile good(2) ap gp [OF t3(2)] by auto
    have "m' x = ?m x" if "in_dest ?q x" for x
      using r(5) f3 that good(1) True Suc.prems(11) ps by (auto simp: good_phdr_def)
    moreover have "seg_content m0 header ?q ?m"
      using content(1) file3 good(1) True by (auto simp: seg_content_def good_phdr_def)
    ultimately have "seg_content m0 header ?q m'" by (simp add: seg_content_def in_dest_def)
    then show ?thesis using step r True ps t3(2,3) f3 content(2) by (auto simp: add.assoc)
  qed
qed

section \<open>Loading a file\<close>

lemma elf32_load_loads:
  assumes "term_inv t" "\<And>x. in_file header fl x \<Longrightarrow> \<not> in_framebuffer t x"
    and "\<And>k. k < 52 \<Longrightarrow> in_file header fl (header + k)" "e_phentsize (ehdr_at m header) = 32"
    and "n = unat (e_phnum (ehdr_at m header))" "0 < n" "ph = header + e_phoff (ehdr_at m header)" "unat ph + 32 * n < 2 ^ 32"
    and "ps = map (\<lambda>j. phdr_at m (ph + 32 * of_nat j)) [0..<n]"
    and "\<And>j k. j < n \<Longrightarrow> k < 32 \<Longrightarrow> in_file header fl (ph + 32 * of_nat j + k)"
    and "\<forall>p \<in> set ps. good_phdr header fl t p" "apart ps"
  shows "\<exists>t' m'. elf32_load os m t header = Some (p_paddr (last ps) + p_memsz (last ps), t', m') \<and>
    (\<forall>p \<in> set ps. loads p \<longrightarrow> seg_content m header p m') \<and>
    (\<forall>x. \<not> in_framebuffer t x \<and> (\<forall>p \<in> set ps. loads p \<longrightarrow> \<not> in_dest p x) \<longrightarrow> m' x = m x) \<and>
    term_inv t' \<and> t_buffer t' = t_buffer t"
proof -
  let ?eph = "ph + 32 * of_nat n"
  have eph: "header + e_phoff (ehdr_at m header) + 32 * ucast (e_phnum (ehdr_at m header)) = ?eph"
    using assms(5,7) by (simp add: unat_ucast_up of_nat_unat)
  obtain t1 m1 where r: "elf32_load_loop os m t header ph ?eph 0 = Some (Some (?eph, of_nat (length (filter loads ps))), t1, m1)"
    "\<forall>p \<in> set ps. loads p \<longrightarrow> seg_content m header p m1" "term_inv t1" "t_buffer t1 = t_buffer t"
    "\<forall>x. \<not> in_framebuffer t x \<and> (\<forall>p \<in> set ps. loads p \<longrightarrow> \<not> in_dest p x) \<longrightarrow> m1 x = m x"
    using elf_loop_loaded [of header fl m m t ps ph n ?eph os 0] assms by auto
  have kept: "m1 x = m x" if "in_file header fl x" for x
  proof -
    have "\<forall>p \<in> set ps. loads p \<longrightarrow> \<not> in_dest p x" using that assms(11) by (auto simp: good_phdr_def)
    with that r(5) assms(2) show ?thesis by blast
  qed
  have sz: "e_phentsize (ehdr_at m1 header) = 32" using phentsize_cong [of m1 header m] kept assms(3,4) by simp
  have "?eph - 32 = ph + 32 * of_nat (n - 1)" using assms(6) by (simp add: algebra_simps)
  moreover have "phdr_at m1 (ph + 32 * of_nat (n - 1)) = last ps"
  proof -
    have "phdr_at m1 (ph + 32 * of_nat (n - 1)) = phdr_at m (ph + 32 * of_nat (n - 1))"
      by (rule phdr_at_cong, rule kept, rule assms(10)) (use assms(6) in simp_all)
    then show ?thesis using assms(6,9) by (simp add: last_map)
  qed
  ultimately have lst: "phdr_at m1 (?eph - 32) = last ps" by (simp only:)
  obtain t2 m2 where c: "out_chain os m1 t1 [Str ''Loaded '', Num (uint (of_nat (length (filter loads ps)) :: u32)), Str ('' segments total!'' @ [CHR 10])] = (t2, m2)"
    by fastforce
  have m2: "m2 x = m1 x" if "\<not> in_framebuffer t x" for x
    using out_chain_frame [OF r(3) c] that r(4) by (auto simp: in_framebuffer_def)
  have t2: "term_inv t2" "t_buffer t2 = t_buffer t" using out_chain_frame [OF r(3) c] r(4) by simp_all
  have "elf32_load os m t header = Some (p_paddr (last ps) + p_memsz (last ps), t2, m2)"
    using r(1) sz lst c eph assms(7) by (simp add: elf32_load_def Let_def)
  moreover have "seg_content m header p m2" if "p \<in> set ps" "loads p" for p
  proof -
    have "\<not> in_framebuffer t (p_paddr p + k)" if "k < p_memsz p" for k
      using that \<open>p \<in> set ps\<close> \<open>loads p\<close> assms(11) by (auto simp: good_phdr_def in_dest_def)
    then show ?thesis using r(2) that m2 by (simp add: seg_content_def)
  qed
  moreover have "\<forall>x. \<not> in_framebuffer t x \<and> (\<forall>p \<in> set ps. loads p \<longrightarrow> \<not> in_dest p x) \<longrightarrow> m2 x = m x"
    using r(5) m2 by metis
  ultimately show ?thesis using t2 by blast
qed

text \<open>What \<open>elf_check_file\<close> asks of the file header, apart from the pointer.\<close>

definition elf_supported :: "elf32_Ehdr \<Rightarrow> bool" where
  "elf_supported h \<longleftrightarrow> take 4 (e_ident h) = ELFMAG \<and> e_ident h ! 4 = ELFCLASS32 \<and> e_ident h ! 5 = ELFDATA2LSB \<and>
     e_ident h ! 6 = EV_CURRENT \<and> e_machine h = EM_386 \<and> e_type h = ET_EXEC"

lemma elf_check_file_iff: "elf_check_file m header \<longleftrightarrow> header \<noteq> 0 \<and> elf_supported (ehdr_at m header)"
proof -
  have "take 4 (read_bytes m header 16) = [m header, m (header + 1), m (header + 2), m (header + 3)]"
    by (rule nth_equalityI) (auto simp: read_bytes_def less_Suc_eq_0_disj numeral_eq_Suc)
  then show ?thesis by (auto simp: elf_check_file_def elf_supported_def Let_def ehdr_at_def ELFMAG_def read_bytes_def)
qed

section \<open>What the loader guarantees\<close>

text \<open>
  C5. For an ELF file in memory whose program headers are accepted and have 32 bytes, whose loadable segments take
  their bytes from the file and go to places apart from one another, from the file and from the framebuffer:
  \<open>elf32_load\<close> returns, every loadable segment is in place (its bytes from the file, the rest zero), no other byte
  outside the framebuffer has changed, and the result is the end of the segment of the last program header.
\<close>

theorem elf32_load_correct:
  assumes "term_inv t" "\<And>x. in_file header fl x \<Longrightarrow> \<not> in_framebuffer t x"
    and "\<And>k. k < 52 \<Longrightarrow> in_file header fl (header + k)" "e_phentsize (ehdr_at m header) = 32"
    and "n = unat (e_phnum (ehdr_at m header))" "0 < n" "ph = header + e_phoff (ehdr_at m header)" "unat ph + 32 * n < 2 ^ 32"
    and "ps = map (\<lambda>j. phdr_at m (ph + 32 * of_nat j)) [0..<n]"
    and "\<And>j k. j < n \<Longrightarrow> k < 32 \<Longrightarrow> in_file header fl (ph + 32 * of_nat j + k)"
    and "\<forall>p \<in> set ps. good_phdr header fl t p" "apart ps"
  shows "\<exists>t' m'. elf32_load os m t header = Some (p_paddr (last ps) + p_memsz (last ps), t', m') \<and>
    (\<forall>p \<in> set ps. loads p \<longrightarrow> seg_content m header p m') \<and>
    (\<forall>x. \<not> in_framebuffer t x \<and> (\<forall>p \<in> set ps. loads p \<longrightarrow> \<not> in_dest p x) \<longrightarrow> m' x = m x)"
  using elf32_load_loads [OF assms] by blast

text \<open>A file of 88 bytes at \<open>0x10000\<close> with one segment of four bytes and four zeros for address \<open>0x100000\<close>.\<close>

definition tiny_elf :: memory where
  "tiny_elf = (\<lambda>_. 0)(0x1001c := 52, 0x1002a := 32, 0x1002c := 1, 0x10034 := 1, 0x10038 := 84, 0x10042 := 16,
     0x10044 := 4, 0x10048 := 8, 0x10054 := 1, 0x10055 := 2, 0x10056 := 3, 0x10057 := 4)"

theorem elf32_load_correct_witness:
  "\<exists>t' m'. elf32_load \<lparr>os_base = 16\<rparr> tiny_elf new_terminal 0x10000 = Some (0x100008, t', m') \<and>
     m' 0x100001 = 2 \<and> m' 0x100005 = 0"
proof -
  let ?p = "\<lparr>p_type = 1, p_offset = 84, p_vaddr = 0, p_paddr = 0x100000, p_filesz = 4, p_memsz = 8, p_flags = 0, p_align = 0\<rparr>"
  have p: "phdr_at tiny_elf 0x10034 = ?p" by (simp add: phdr_at_def tiny_elf_def load_defs)
  have h: "e_phentsize (ehdr_at tiny_elf 0x10000) = 32" "e_phnum (ehdr_at tiny_elf 0x10000) = 1" "e_phoff (ehdr_at tiny_elf 0x10000) = 52"
    by (simp_all add: ehdr_at_def tiny_elf_def load_defs)
  have fb: "\<not> in_framebuffer new_terminal x" if "in_file 0x10000 88 x" for x
    using that by (auto simp: in_file_def in_framebuffer_def new_terminal_def FRAMEBUFFER_LOCATION_def word_less_nat_alt unat_sub_if' split: if_splits)
  have good: "good_phdr 0x10000 88 new_terminal ?p"
    by (auto simp: good_phdr_def elf_check_prog_header_def in_file_def in_dest_def in_framebuffer_def new_terminal_def FRAMEBUFFER_LOCATION_def
        word_less_nat_alt unat_sub_if' unat_word_ariths split: if_splits)
  have k52: "in_file 0x10000 88 (0x10000 + k)" if "k < 52" for k
    using that by (auto simp: in_file_def word_less_nat_alt)
  have k32: "in_file 0x10000 88 (0x10034 + 32 * of_nat j + k)" if "j < 1" "k < 32" for j and k :: u32
    using that by (auto simp: in_file_def word_less_nat_alt unat_word_ariths)
  have "\<exists>t' m'. elf32_load \<lparr>os_base = 16\<rparr> tiny_elf new_terminal 0x10000 = Some (p_paddr ?p + p_memsz ?p, t', m') \<and>
    (\<forall>p \<in> set [?p]. loads p \<longrightarrow> seg_content tiny_elf 0x10000 p m')"
    using elf32_load_correct [of new_terminal "0x10000" 88 tiny_elf 1 "0x10034" "[?p]" "\<lparr>os_base = 16\<rparr>"]
      new_terminal_inv(1) fb k52 k32 h p good by auto
  then obtain t' m' where r: "elf32_load \<lparr>os_base = 16\<rparr> tiny_elf new_terminal 0x10000 = Some (0x100008, t', m')"
    "seg_content tiny_elf 0x10000 ?p m'" by (auto simp: loads_def)
  have "m' (0x100000 + 1) = 2" "m' (0x100000 + 5) = 0"
    using r(2) [unfolded seg_content_def, rule_format, of 1] r(2) [unfolded seg_content_def, rule_format, of 5]
    by (simp_all add: tiny_elf_def)
  with r(1) show ?thesis by simp
qed

end
