(* ===== verification/Mbr.thy ===== *)
theory Mbr
  imports Prelude
begin

text \<open>
  The master boot record of \<open>include/fs/mbr.hpp\<close> and \<open>getPartitionLBA\<close> of
  \<open>bootloader/stage1main.cpp\<close>, which looks for the first bootable partition in the record that
  stage 0 moved to \<open>_final_mbr_address\<close>.
\<close>

record partitionTable =
  attributes :: u8
  chsStart :: "u8 list"
  partType :: u8
  chsEnd :: "u8 list"
  lbaBegin :: u32
  part_numSectors :: u32

definition partition_at :: "memory \<Rightarrow> u32 \<Rightarrow> partitionTable" where
  "partition_at m a = \<lparr>attributes = m a, chsStart = read_bytes m (a + 1) 3, partType = m (a + 4),
     chsEnd = read_bytes m (a + 5) 3, lbaBegin = load32 m (a + 8), part_numSectors = load32 m (a + 12)\<rparr>"

record MBR =
  bootstrap :: "u8 list"
  uniqueID :: u32
  mbr_reserved :: u16
  part1 :: partitionTable
  part2 :: partitionTable
  part3 :: partitionTable
  part4 :: partitionTable
  mbr_signature :: u16

definition mbr_at :: "memory \<Rightarrow> u32 \<Rightarrow> MBR" where
  "mbr_at m a = \<lparr>bootstrap = read_bytes m a 440, uniqueID = load32 m (a + 440), mbr_reserved = load16 m (a + 444),
     part1 = partition_at m (a + 446), part2 = partition_at m (a + 462), part3 = partition_at m (a + 478),
     part4 = partition_at m (a + 494), mbr_signature = load16 m (a + 510)\<rparr>"

definition final_mbr_address :: u32 where
  "final_mbr_address = 0x800"

definition getPartitionLBA_msg :: panic where
  "getPartitionLBA_msg = ''getPartitionLBA(): Couldn'' @ [CHR 0x27] @ ''t get the partition LBA!''"

text \<open>\<open>ptr[i]\<close> is 16 bytes after \<open>ptr[i - 1]\<close>.\<close>

function getPartitionLBA_loop :: "memory \<Rightarrow> u32 \<Rightarrow> u32 \<Rightarrow> u32 outcome" where
  "getPartitionLBA_loop m ptr i =
     (if i < 4 then
        if attributes (partition_at m (ptr + 16 * i)) AND push_bit 7 1 \<noteq> 0
        then Inr (lbaBegin (partition_at m (ptr + 16 * i)))
        else getPartitionLBA_loop m ptr (i + 1)
      else Inl getPartitionLBA_msg)"
  by pat_completeness auto
termination
  by (relation "measure (\<lambda>(m, ptr, i). 4 - unat i)") (use word_count_up [of _ "4 :: u32"] in auto)

declare getPartitionLBA_loop.simps [simp del]

definition getPartitionLBA :: "memory \<Rightarrow> u32 outcome" where
  "getPartitionLBA m = getPartitionLBA_loop m (final_mbr_address + 0x1be) 0"

section \<open>What the search returns\<close>

definition bootable :: "partitionTable \<Rightarrow> bool" where
  "bootable p \<longleftrightarrow> bit (attributes p) 7"

lemma and_bit7: "x AND 128 \<noteq> 0 \<longleftrightarrow> bit x 7" for x :: u8
  using and_exp_eq_0_iff_not_bit [of x 7] by simp

text \<open>
  C25. \<open>getPartitionLBA\<close> returns the start of the first of the four partitions of the boot
  record whose bootable bit is set, and panics exactly when there is none; the offset \<open>0x1be\<close>
  it uses is the offset of the partition table in the record.
\<close>

theorem getPartitionLBA_first:
  "getPartitionLBA m = (case find bootable [part1 (mbr_at m 0x800), part2 (mbr_at m 0x800),
       part3 (mbr_at m 0x800), part4 (mbr_at m 0x800)] of
     None \<Rightarrow> Inl getPartitionLBA_msg | Some p \<Rightarrow> Inr (lbaBegin p))"
proof -
  note unfold = getPartitionLBA_loop.simps [of m "0x9be"]
  show ?thesis
    by (simp add: getPartitionLBA_def final_mbr_address_def unfold [of 0] unfold [of 1] unfold [of 2] unfold [of 3]
        unfold [of 4] and_bit7 bootable_def mbr_at_def)
qed

end
