(* ===== verification/Heap.thy ===== *)
theory Heap
  imports Prelude
begin

text \<open>
  The heap of \<open>lib/earlyLib/memory.cpp\<close> and \<open>include/earlyLib/memory.hpp\<close>: a singly linked
  list of block headers (\<open>heapEntry\<close>: a \<open>_next\<close> pointer and a \<open>reserved\<close> bit, 8 bytes) laid out
  in the memory they manage, first-fit allocation with splitting, and forward coalescing on
  release. The specification is a list of (reserved, size) blocks that tile the heap; the
  locale \<open>allocator\<close> states what clients of \<open>kalloc\<close> and \<open>kfree\<close> rely on.
\<close>

section \<open>The operations\<close>

definition heapEntry_headerSize :: u32 where
  "heapEntry_headerSize = 8"

text \<open>The object \<open>heapEntry\<close> at address \<open>e\<close>: \<open>_next\<close> in bytes 0 to 3, \<open>_flags.reserved\<close> in bit 0 of byte 4.\<close>

definition entry_next :: "memory \<Rightarrow> u32 \<Rightarrow> u32" where
  "entry_next m e = load32 m e"

definition entry_reserved :: "memory \<Rightarrow> u32 \<Rightarrow> bool" where
  "entry_reserved m e = bit (m (e + 4)) 0"

definition set_next :: "memory \<Rightarrow> u32 \<Rightarrow> u32 \<Rightarrow> memory" where
  "set_next m e v = store32 m e v"

definition set_reserved :: "memory \<Rightarrow> u32 \<Rightarrow> bool \<Rightarrow> memory" where
  "set_reserved m e r = m(e + 4 := (m (e + 4) AND NOT 1) OR (if r then 1 else 0))"

definition entry_init :: "memory \<Rightarrow> u32 \<Rightarrow> u32 \<Rightarrow> memory" where
  "entry_init m e nxt = set_next (set_reserved m e (if nxt \<noteq> 0 then False else True)) e nxt"

definition getSize :: "memory \<Rightarrow> u32 \<Rightarrow> u32" where
  "getSize m e = entry_next m e - e - heapEntry_headerSize"

definition getDataPtr :: "u32 \<Rightarrow> u32" where
  "getDataPtr e = e + heapEntry_headerSize"

definition isLast :: "memory \<Rightarrow> u32 \<Rightarrow> bool" where
  "isLast m e = (if entry_next m e \<noteq> 0 then False else True)"

partial_function (option) allocate :: "memory \<Rightarrow> u32 \<Rightarrow> u32 \<Rightarrow> (u32 \<times> memory) option" where
  "allocate m this n =
     (if entry_next m this = 0 then Some (0, m)
      else if entry_reserved m this \<or> n > getSize m this then allocate m (entry_next m this) n
      else let available = getSize m this; ptr = getDataPtr this;
               m1 = (if n - available > heapEntry_headerSize + 4
                     then let old_next = entry_next m this; m' = set_next m this (ptr + n)
                          in entry_init m' (entry_next m' this) old_next
                     else m)
           in Some (ptr, set_reserved m1 this True))"

partial_function (option) defragment :: "memory \<Rightarrow> u32 \<Rightarrow> memory option" where
  "defragment m this =
     (if \<not> entry_reserved m (entry_next m this)
      then defragment (set_next m this (entry_next m (entry_next m this))) this
      else Some m)"

definition entry_free :: "memory \<Rightarrow> u32 \<Rightarrow> memory option" where
  "entry_free m this = defragment (set_reserved m this False) this"

text \<open>The file-level variables \<open>heap\<close> and \<open>heapEnd\<close>.\<close>

record heap_vars =
  heap :: u32
  heapEnd :: u32

definition kalloc :: "heap_vars \<Rightarrow> memory \<Rightarrow> u32 \<Rightarrow> (u32 \<times> memory) option" where
  "kalloc g m n = allocate m (heap g) n"

definition kfree_msg :: panic where
  "kfree_msg = ''kfree: no such memory address!''"

partial_function (option) kfree_loop :: "memory \<Rightarrow> u32 \<Rightarrow> u32 \<Rightarrow> memory run" where
  "kfree_loop m it ptr =
     (if isLast m it then Some (Inl kfree_msg)
      else if getDataPtr it = ptr then map_option Inr (entry_free m it)
      else kfree_loop m (entry_next m it) ptr)"

definition kfree :: "heap_vars \<Rightarrow> memory \<Rightarrow> u32 \<Rightarrow> memory run" where
  "kfree g m ptr = kfree_loop m (heap g) ptr"

text \<open>\<open>new\<close> and \<open>new[]\<close> have the body of \<open>kalloc\<close>, the four forms of \<open>delete\<close> call \<open>kfree\<close>; where the sources use them, the model
  has \<open>kalloc\<close> and \<open>kfree\<close>.\<close>

definition operator_new :: "heap_vars \<Rightarrow> memory \<Rightarrow> u32 \<Rightarrow> (u32 \<times> memory) option" where
  "operator_new g m n = allocate m (heap g) n"

definition operator_delete :: "heap_vars \<Rightarrow> memory \<Rightarrow> u32 \<Rightarrow> memory run" where
  "operator_delete g m ptr = kfree g m ptr"

lemma operators: "operator_new = kalloc" "operator_delete = kfree"
  by (simp_all add: fun_eq_iff operator_new_def operator_delete_def kalloc_def)

definition heapInitialize :: "memory \<Rightarrow> u32 \<Rightarrow> u32 \<Rightarrow> heap_vars \<times> memory" where
  "heapInitialize m ptr maxSize =
     (let g = \<lparr>heap = ptr, heapEnd = ptr + maxSize - heapEntry_headerSize\<rparr>
      in (g, entry_init (entry_init m (heap g) (heapEnd g)) (heapEnd g) 0))"

declare allocate.simps [code] defragment.simps [code] kfree_loop.simps [code]

section \<open>Specification: a list of blocks\<close>

text \<open>A block is its reserved flag and the number of its data bytes; an end marker follows the last one.\<close>

type_synonym blocks = "(bool \<times> nat) list"

fun extent :: "blocks \<Rightarrow> nat" where
  "extent [] = 8"
| "extent ((r, s) # bs) = 8 + s + extent bs"

fun heap_rep :: "memory \<Rightarrow> nat \<Rightarrow> blocks \<Rightarrow> bool" where
  "heap_rep m a [] \<longleftrightarrow> entry_next m (of_nat a) = 0 \<and> entry_reserved m (of_nat a)"
| "heap_rep m a ((r, s) # bs) \<longleftrightarrow>
     entry_next m (of_nat a) = of_nat (a + 8 + s) \<and> entry_reserved m (of_nat a) = r \<and> heap_rep m (a + 8 + s) bs"

fun live :: "nat \<Rightarrow> blocks \<Rightarrow> (nat \<times> nat) list" where
  "live a [] = []"
| "live a ((r, s) # bs) = (if r then (a + 8, s) # live (a + 8 + s) bs else live (a + 8 + s) bs)"

fun alloc_spec :: "nat \<Rightarrow> nat \<Rightarrow> blocks \<Rightarrow> nat \<times> blocks" where
  "alloc_spec a n [] = (0, [])"
| "alloc_spec a n ((r, s) # bs) =
     (if r \<or> n > s then (case alloc_spec (a + 8 + s) n bs of (p, bs') \<Rightarrow> (p, (r, s) # bs'))
      else (a + 8, if n = s then (True, s) # bs else (True, n) # (False, s - n - 8) # bs))"

fun coalesce :: "nat \<Rightarrow> blocks \<Rightarrow> blocks" where
  "coalesce s ((False, s') # bs) = coalesce (s + 8 + s') bs"
| "coalesce s bs = (False, s) # bs"

fun free_spec :: "nat \<Rightarrow> nat \<Rightarrow> blocks \<Rightarrow> blocks option" where
  "free_spec a p [] = None"
| "free_spec a p ((r, s) # bs) =
     (if a + 8 = p then Some (coalesce s bs) else map_option (Cons (r, s)) (free_spec (a + 8 + s) p bs))"

text \<open>
  Splitting needs room for a header: the first block that fits is either filled exactly or
  leaves at least 8 bytes. The code does not check this (its test subtracts the wrong way round).
\<close>

fun splits :: "nat \<Rightarrow> blocks \<Rightarrow> bool" where
  "splits n [] \<longleftrightarrow> True"
| "splits n ((r, s) # bs) \<longleftrightarrow> (if r \<or> n > s then splits n bs else n = s \<or> n + 8 \<le> s)"

fun header_bytes :: "nat \<Rightarrow> blocks \<Rightarrow> nat set" where
  "header_bytes a [] = {a..<a + 8}"
| "header_bytes a ((r, s) # bs) = {a..<a + 8} \<union> header_bytes (a + 8 + s) bs"

definition agree :: "nat set \<Rightarrow> memory \<Rightarrow> memory \<Rightarrow> bool" where
  "agree X m m' \<longleftrightarrow> (\<forall>x \<in> X. m' (of_nat x) = m (of_nat x))"

section \<open>Reads and writes of headers\<close>

lemma extent_ge [simp]: "8 \<le> extent bs"
  by (cases bs rule: extent.cases) auto

lemma header_agree:
  assumes "agree {a..<a + 8} m m'"
  shows "entry_next m' (of_nat a) = entry_next m (of_nat a)"
    and "entry_reserved m' (of_nat a) = entry_reserved m (of_nat a)"
proof -
  have b: "m' (of_nat (a + k)) = m (of_nat (a + k))" if "k < 8" for k
  proof -
    from that have "a + k \<in> {a..<a + 8}" by simp
    with assms show ?thesis unfolding agree_def by blast
  qed
  from b [of 4] show "entry_reserved m' (of_nat a) = entry_reserved m (of_nat a)"
    by (simp add: entry_reserved_def)
  from b [of 0] b [of 1] b [of 2] b [of 3] show "entry_next m' (of_nat a) = entry_next m (of_nat a)"
    by (simp add: entry_next_def load_defs ac_simps)
qed

lemma agree_mono: "agree X m m' \<Longrightarrow> Y \<subseteq> X \<Longrightarrow> agree Y m m'"
  by (auto simp: agree_def)

lemma agree_trans: "agree X m m' \<Longrightarrow> agree X m' m'' \<Longrightarrow> agree X m m''"
  by (auto simp: agree_def)

lemma agree_refl [simp]: "agree X m m"
  by (simp add: agree_def)

lemma agree_Un [simp]: "agree (X \<union> Y) m m' \<longleftrightarrow> agree X m m' \<and> agree Y m m'"
  by (auto simp: agree_def)

lemma heap_rep_agree: "agree (header_bytes a bs) m m' \<Longrightarrow> heap_rep m' a bs = heap_rep m a bs"
  by (induction a bs rule: header_bytes.induct) (auto simp: header_agree)

lemma header_bytes_bounds: "header_bytes a bs \<subseteq> {a..<a + extent bs}"
  by (induction a bs rule: header_bytes.induct) auto

lemma of_nat_outside:
  assumes "x < 2 ^ 32" "a + n \<le> 2 ^ 32" "x < a \<or> a + n \<le> x" "n < 2 ^ 32"
  shows "\<not> (of_nat x :: u32) - of_nat a < of_nat n"
proof -
  have "unat (of_nat x :: u32) = x" "unat (of_nat a :: u32) = a mod 2 ^ 32" "unat (of_nat n :: u32) = n"
    using assms by (simp_all add: unat_of_nat)
  moreover have "n = 0 \<or> a < 2 ^ 32" using assms(2) by linarith
  ultimately show ?thesis
    using assms by (auto simp: word_less_nat_alt unat_sub_if')
qed

lemma store32_agree:
  assumes "a + 8 \<le> 2 ^ 32" "X \<subseteq> {..<2 ^ 32} - {a..<a + 8}"
  shows "agree X m (set_next m (of_nat a) v)"
  unfolding agree_def set_next_def
proof
  fix x assume "x \<in> X"
  with assms have "x < 2 ^ 32" "x < a \<or> a + 4 \<le> x" by auto
  with assms(1) have "\<not> (of_nat x :: u32) - of_nat a < 4"
    using of_nat_outside [of x a 4] by simp
  then show "store32 m (of_nat a) v (of_nat x) = m (of_nat x)" by (rule store32_other)
qed

lemma of_nat_eq_u32: "x < 2 ^ 32 \<Longrightarrow> y < 2 ^ 32 \<Longrightarrow> of_nat x = (of_nat y :: u32) \<longleftrightarrow> x = y"
  by (simp add: word_unat_eq_iff unat_of_nat)

lemma set_reserved_agree:
  assumes "a + 8 \<le> 2 ^ 32" "X \<subseteq> {..<2 ^ 32} - {a..<a + 8}"
  shows "agree X m (set_reserved m (of_nat a) r)"
  unfolding agree_def
proof
  fix x assume "x \<in> X"
  with assms have "x < 2 ^ 32" "x \<noteq> a + 4" "a + 4 < 2 ^ 32" by auto
  then have "of_nat x \<noteq> (of_nat (a + 4) :: u32)" by (simp only: of_nat_eq_u32 simp_thms)
  then show "set_reserved m (of_nat a) r (of_nat x) = m (of_nat x)" by (simp add: set_reserved_def)
qed

lemma header_get_set [mem_simps]:
  "entry_next (set_next m e v) e = v"
  "entry_reserved (set_reserved m e r) e = r"
  "entry_next (set_reserved m e r) e = entry_next m e"
  "entry_reserved (set_next m e v) e = entry_reserved m e"
proof -
  show "entry_next (set_next m e v) e = v" by (simp add: entry_next_def set_next_def mem_simps)
  show "entry_reserved (set_reserved m e r) e = r" by (simp add: entry_reserved_def set_reserved_def bit_simps)
  have "sep (e + 4) 1 e 4" by (simp add: sep_def word_le_nat_alt)
  then show "entry_next (set_reserved m e r) e = entry_next m e"
    by (simp add: entry_next_def set_reserved_def mem_simps)
  show "entry_reserved (set_next m e v) e = entry_reserved m e"
    by (simp add: entry_reserved_def set_next_def store32_other)
qed

lemma header_init [mem_simps]:
  "entry_next (entry_init m e v) e = v" "entry_reserved (entry_init m e v) e \<longleftrightarrow> v = 0"
  by (simp_all add: entry_init_def mem_simps)

lemma entry_init_agree:
  assumes "a + 8 \<le> 2 ^ 32" "X \<subseteq> {..<2 ^ 32} - {a..<a + 8}"
  shows "agree X m (entry_init m (of_nat a) v)"
  unfolding entry_init_def using agree_trans [OF set_reserved_agree [OF assms] store32_agree [OF assms]] .

lemmas header_writes = store32_agree set_reserved_agree entry_init_agree

section \<open>The operations implement the specification\<close>

lemma getSize_block:
  "entry_next m (of_nat a) = of_nat (a + 8 + s) \<Longrightarrow> getSize m (of_nat a) = of_nat s"
  by (simp add: getSize_def heapEntry_headerSize_def)

lemma of_nat_less_u32: "x < 2 ^ 32 \<Longrightarrow> y < 2 ^ 32 \<Longrightarrow> of_nat x < (of_nat y :: u32) \<longleftrightarrow> x < y"
  by (simp add: word_less_nat_alt unat_of_nat)

lemma wrong_way_subtraction:
  assumes "n < s" "s + 16 \<le> 2 ^ 32"
  shows "(of_nat n :: u32) - of_nat s > heapEntry_headerSize + 4"
  using assms by (simp add: word_less_nat_alt unat_sub_if' unat_of_nat heapEntry_headerSize_def)

text \<open>What an operation may write: the headers, and the data of blocks that are free.\<close>

definition payload :: "(nat \<times> nat) list \<Rightarrow> nat set" where
  "payload ps = (\<Union>(p, s) \<in> set ps. {p..<p + s})"

lemma payload_simps [simp]:
  "payload [] = {}" "payload ((p, s) # ps) = {p..<p + s} \<union> payload ps"
  by (simp_all add: payload_def)

definition writable :: "nat \<Rightarrow> blocks \<Rightarrow> nat set" where
  "writable a bs = {a..<a + extent bs} - payload (live a bs)"

lemma payload_bounds: "payload (live a bs) \<subseteq> {a + 8..<a + extent bs}"
proof (induction a bs rule: live.induct)
  case (2 a r s bs)
  then have "payload (live (a + 8 + s) bs) \<subseteq> {a + 8 + s + 8..<a + 8 + s + extent bs}" by (cases r) simp_all
  also have "\<dots> \<subseteq> {a + 8..<a + extent ((r, s) # bs)}" by auto
  finally show ?case by (cases r) auto
qed simp

lemma writable_Cons:
  "writable a ((r, s) # bs) = (if r then {a..<a + 8} else {a..<a + 8 + s}) \<union> writable (a + 8 + s) bs"
proof -
  have "{a..<a + extent ((r, s) # bs)} = {a..<a + 8} \<union> {a + 8..<a + 8 + s} \<union> {a + 8 + s..<a + 8 + s + extent bs}"
    by auto
  with payload_bounds [of "a + 8 + s" bs] show ?thesis
    by (auto simp: writable_def subset_iff)
qed

lemma agree_tail_headers:
  assumes "a + extent ((r, s) # bs) \<le> 2 ^ 32" "agree ({..<2 ^ 32} - {a..<a + 8 + s}) m m'"
  shows "heap_rep m' (a + 8 + s) bs = heap_rep m (a + 8 + s) bs"
  using assms header_bytes_bounds [of "a + 8 + s" bs]
  by (intro heap_rep_agree agree_mono [OF assms(2)]) (auto simp: subset_iff)

text \<open>Splitting the block at \<open>a\<close>, and marking it reserved.\<close>

lemma split_block:
  fixes m :: memory
  assumes "0 < a" "a + extent ((r, s) # bs) \<le> 2 ^ 32" "n + 8 \<le> s"
    and rep: "heap_rep m a ((False, s) # bs)"
  defines "m1 \<equiv> set_next m (of_nat a) (of_nat (a + 8 + n))"
  defines "m2 \<equiv> set_reserved (entry_init m1 (of_nat (a + 8 + n)) (of_nat (a + 8 + s))) (of_nat a) True"
  shows "heap_rep m2 a ((True, n) # (False, s - n - 8) # bs) \<and> agree ({..<2 ^ 32} - {a..<a + 8 + s}) m m2"
proof -
  let ?new = "a + 8 + n" and ?nx = "a + 8 + s"
  have b: "a + 8 \<le> 2 ^ 32" "?new + 8 \<le> ?nx" "?nx + 8 \<le> 2 ^ 32" "?new + 8 \<le> 2 ^ 32"
    using assms(2,3) extent_ge [of bs] by (auto simp del: extent_ge)
  define m1' where "m1' = entry_init m1 (of_nat ?new) (of_nat ?nx)"
  have m2: "m2 = set_reserved m1' (of_nat a) True" by (simp add: m2_def m1'_def)
  have new: "agree {?new..<?new + 8} m1' m2" and old: "agree {a..<a + 8} m1 m1'"
    unfolding m2 m1'_def by (rule header_writes; use b in auto)+
  let ?X = "{..<2 ^ 32} - {a..<?nx}"
  have "agree ?X m m1" and "agree ?X m1 m1'" and "agree ?X m1' m2"
    unfolding m2 m1'_def m1_def by (rule header_writes; use b in auto)+
  then have "agree ?X m m2" by (meson agree_trans)
  moreover from this have "heap_rep m2 ?nx bs"
    using agree_tail_headers [OF assms(2)] rep by simp
  moreover have "(of_nat ?nx :: u32) \<noteq> 0"
    using b of_nat_eq_u32 [of ?nx 0] by simp
  then have "entry_next m2 (of_nat ?new) = of_nat ?nx \<and> \<not> entry_reserved m2 (of_nat ?new)"
    using header_agree [OF new] by (simp add: m1'_def mem_simps)
  moreover have "entry_next m2 (of_nat a) = of_nat ?new \<and> entry_reserved m2 (of_nat a)"
    using header_agree [OF old] by (simp add: m2 m1_def mem_simps)
  moreover have "?new + 8 + (s - n - 8) = ?nx" using assms(3) by simp
  ultimately show ?thesis by (simp only: heap_rep.simps simp_thms)
qed

lemma take_block:
  assumes "a + extent ((r, s) # bs) \<le> 2 ^ 32" and rep: "heap_rep m a ((r, s) # bs)"
  shows "heap_rep (set_reserved m (of_nat a) b) a ((b, s) # bs) \<and>
    agree ({..<2 ^ 32} - {a..<a + 8}) m (set_reserved m (of_nat a) b)"
proof -
  let ?m = "set_reserved m (of_nat a) b"
  have g: "agree ({..<2 ^ 32} - {a..<a + 8}) m ?m"
    using assms(1) by (intro header_writes) auto
  then have "heap_rep ?m (a + 8 + s) bs"
    using agree_tail_headers [OF assms(1) agree_mono [OF g]] rep by fastforce
  with g rep show ?thesis by (simp add: mem_simps)
qed

lemma alloc_rep:
  assumes "0 < a" "a + extent bs \<le> 2 ^ 32" "n < 2 ^ 32" "splits n bs" "heap_rep m a bs"
    and "alloc_spec a n bs = (p, bs')"
  shows "\<exists>m'. allocate m (of_nat a) (of_nat n) = Some (of_nat p, m') \<and> heap_rep m' a bs' \<and>
    agree ({..<2 ^ 32} - writable a bs) m m'"
  using assms
proof (induction a n bs arbitrary: p bs' rule: alloc_spec.induct)
  case (1 a n)
  then show ?case by (subst allocate.simps) auto
next
  case (2 a n r s bs)
  let ?nx = "a + 8 + s"
  have b: "s + 16 \<le> 2 ^ 32" "?nx < 2 ^ 32" "s < 2 ^ 32" using "2.prems"(2) extent_ge [of bs] by (auto simp del: extent_ge)
  have nz: "entry_next m (of_nat a) \<noteq> 0"
    using "2.prems"(5) b of_nat_eq_u32 [of ?nx 0] by (simp del: of_nat_add)
  have sz: "getSize m (of_nat a) = of_nat s" using "2.prems"(5) getSize_block by simp
  have w: "writable ?nx bs \<subseteq> writable a ((r, s) # bs)" by (auto simp: writable_Cons)
  show ?case
  proof (cases "r \<or> n > s")
    case True
    then obtain bs2 where bs2: "alloc_spec ?nx n bs = (p, bs2)" "bs' = (r, s) # bs2"
      using "2.prems"(6) by (auto split: prod.splits)
    have ex: "a + 8 + s + extent bs \<le> 2 ^ 32" using "2.prems"(2) by simp
    obtain m' where m': "allocate m (of_nat ?nx) (of_nat n) = Some (of_nat p, m')" "heap_rep m' ?nx bs2"
      "agree ({..<2 ^ 32} - writable ?nx bs) m m'"
      using "2.IH" [OF True _ ex "2.prems"(3)] True "2.prems" bs2 by auto
    have "agree {a..<a + 8} m m'"
      using ex by (intro agree_mono [OF m'(3)]) (auto simp: writable_def)
    then have "heap_rep m' a bs'" using m'(2) bs2 "2.prems"(5) by (simp add: header_agree)
    moreover have "allocate m (of_nat a) (of_nat n) = allocate m (of_nat ?nx) (of_nat n)"
      using nz True "2.prems"(3,5) b sz by (subst allocate.simps) (simp add: of_nat_less_u32)
    moreover have "agree ({..<2 ^ 32} - writable a ((r, s) # bs)) m m'"
      using w by (intro agree_mono [OF m'(3)]) auto
    ultimately show ?thesis using m'(1) by auto
  next
    case False
    then have fit: "\<not> entry_reserved m (of_nat a)" "\<not> of_nat n > (of_nat s :: u32)" "p = a + 8"
      using "2.prems" b by (simp_all add: of_nat_less_u32)
    have w': "{..<2 ^ 32} - writable a ((r, s) # bs) \<subseteq> {..<2 ^ 32} - {a..<?nx}" using False by (auto simp: writable_Cons)
    show ?thesis
    proof (cases "n = s")
      case True
      have "allocate m (of_nat a) (of_nat n) = Some (of_nat p, set_reserved m (of_nat a) True)"
        using nz fit sz True by (subst allocate.simps) (simp add: getDataPtr_def heapEntry_headerSize_def)
      with take_block [OF "2.prems"(2,5), of True] True False "2.prems"(6) show ?thesis
        by (auto simp: writable_Cons intro: agree_mono)
    next
      case ns: False
      then have n: "n < s" "n + 8 \<le> s" using False "2.prems"(4) by auto
      let ?m = "set_reserved (entry_init (set_next m (of_nat a) (of_nat (a + 8 + n)))
        (of_nat (a + 8 + n)) (of_nat ?nx)) (of_nat a) True"
      have "allocate m (of_nat a) (of_nat n) = Some (of_nat p, ?m)"
        using nz fit sz wrong_way_subtraction [OF n(1) b(1)] "2.prems"(5)
        by (subst allocate.simps, simp add: getDataPtr_def Let_def mem_simps) (simp add: heapEntry_headerSize_def add.assoc)
      moreover have "heap_rep m a ((False, s) # bs)" using "2.prems"(5) False by simp
      note split_block [OF "2.prems"(1,2) n(2) this]
      ultimately show ?thesis using ns False "2.prems"(6) agree_mono [OF _ w'] by auto
    qed
  qed
qed

lemma extent_coalesce [simp]: "extent (coalesce s bs) = 8 + s + extent bs"
  by (induction s bs rule: coalesce.induct) auto

lemma live_coalesce [simp]: "live a (coalesce s bs) = live (a + 8 + s) bs"
  by (induction s bs rule: coalesce.induct) (auto simp: ac_simps)

lemma defragment_rep:
  assumes "a + 8 + s + extent bs \<le> 2 ^ 32" "heap_rep m a ((False, s) # bs)"
  shows "\<exists>m'. defragment m (of_nat a) = Some m' \<and> heap_rep m' a (coalesce s bs) \<and>
    agree ({..<2 ^ 32} - {a..<a + 8}) m m'"
  using assms
proof (induction s bs arbitrary: m rule: coalesce.induct)
  case (1 s s' bs)
  let ?nx = "a + 8 + (s + 8 + s')"
  let ?m = "set_next m (of_nat a) (of_nat ?nx)"
  have g: "agree ({..<2 ^ 32} - {a..<a + 8}) m ?m"
    using "1.prems"(1) by (intro header_writes) auto
  have "header_bytes ?nx bs \<subseteq> {..<2 ^ 32} - {a..<a + 8}"
    using header_bytes_bounds [of ?nx bs] "1.prems"(1) by (auto simp: subset_iff)
  then have "heap_rep ?m ?nx bs"
    using "1.prems"(2) heap_rep_agree [OF agree_mono [OF g]] by (simp add: ac_simps)
  then have "heap_rep ?m a ((False, s + 8 + s') # bs)"
    using "1.prems"(2) by (simp add: mem_simps del: of_nat_add)
  moreover have "a + 8 + (s + 8 + s') + extent bs \<le> 2 ^ 32" using "1.prems"(1) by simp
  ultimately obtain m' where "defragment ?m (of_nat a) = Some m'" "heap_rep m' a (coalesce (s + 8 + s') bs)"
    "agree ({..<2 ^ 32} - {a..<a + 8}) ?m m'"
    using "1.IH" by blast
  moreover have "defragment m (of_nat a) = defragment ?m (of_nat a)"
    using "1.prems"(2) by (subst defragment.simps) (simp add: ac_simps)
  ultimately show ?case using agree_trans [OF g] by auto
qed (subst defragment.simps; auto)+

lemma free_rep:
  assumes "a + extent bs \<le> 2 ^ 32" "heap_rep m a bs" "p < 2 ^ 32"
  shows "case free_spec a p bs of
      None \<Rightarrow> kfree_loop m (of_nat a) (of_nat p) = Some (Inl kfree_msg)
    | Some bs' \<Rightarrow> \<exists>m'. kfree_loop m (of_nat a) (of_nat p) = Some (Inr m') \<and> heap_rep m' a bs' \<and>
        agree ({..<2 ^ 32} - header_bytes a bs) m m'"
  using assms
proof (induction a p bs rule: free_spec.induct)
  case (1 a p)
  then show ?case by (subst kfree_loop.simps) (simp add: isLast_def)
next
  case (2 a p r s bs)
  let ?nx = "a + 8 + s"
  have b: "?nx + extent bs \<le> 2 ^ 32" "?nx < 2 ^ 32" "a + 8 < 2 ^ 32"
    using "2.prems"(1) extent_ge [of bs] by (auto simp del: extent_ge)
  then have nl: "\<not> isLast m (of_nat a)"
    using "2.prems"(2) of_nat_eq_u32 [of ?nx 0] by (simp add: isLast_def del: of_nat_add)
  show ?case
  proof (cases "a + 8 = p")
    case True
    note taken = take_block [OF "2.prems"(1,2), of False]
    then obtain m' where m': "defragment (set_reserved m (of_nat a) False) (of_nat a) = Some m'"
      "heap_rep m' a (coalesce s bs)" "agree ({..<2 ^ 32} - {a..<a + 8}) (set_reserved m (of_nat a) False) m'"
      using defragment_rep [OF b(1)] by blast
    have "kfree_loop m (of_nat a) (of_nat p) = Some (Inr m')"
      using nl True m'(1) by (subst kfree_loop.simps) (auto simp: getDataPtr_def heapEntry_headerSize_def entry_free_def)
    moreover have "agree ({..<2 ^ 32} - header_bytes a ((r, s) # bs)) m m'"
      using taken by (intro agree_mono [OF agree_trans [OF _ m'(3)]]) auto
    ultimately show ?thesis using True m'(2) by simp
  next
    case False
    then have "(of_nat (a + 8) :: u32) \<noteq> of_nat p"
      by (simp only: of_nat_eq_u32 [OF b(3) "2.prems"(3)] simp_thms)
    then have "getDataPtr (of_nat a) \<noteq> of_nat p" by (simp add: getDataPtr_def heapEntry_headerSize_def)
    then have step: "kfree_loop m (of_nat a) (of_nat p) = kfree_loop m (of_nat ?nx) (of_nat p)"
      using nl "2.prems"(2) by (subst kfree_loop.simps) simp
    have sub: "{..<2 ^ 32} - header_bytes a ((r, s) # bs) \<subseteq> {..<2 ^ 32} - header_bytes ?nx bs" by auto
    have hd: "{a..<a + 8} \<subseteq> {..<2 ^ 32} - header_bytes ?nx bs"
      using header_bytes_bounds [of ?nx bs] b by (auto simp: subset_iff)
    show ?thesis
    proof (cases "free_spec ?nx p bs")
      case None
      with "2.IH" [OF False b(1)] "2.prems"(2,3) step False show ?thesis by simp
    next
      case (Some bs')
      with "2.IH" [OF False b(1)] "2.prems"(2,3) obtain m' where
        m': "kfree_loop m (of_nat ?nx) (of_nat p) = Some (Inr m')" "heap_rep m' ?nx bs'"
        "agree ({..<2 ^ 32} - header_bytes ?nx bs) m m'" by auto
      then have "heap_rep m' a ((r, s) # bs')"
        using "2.prems"(2) header_agree [OF agree_mono [OF m'(3) hd]] by simp
      with m' step Some False agree_mono [OF m'(3) sub] show ?thesis by auto
    qed
  qed
qed

section \<open>Facts about the specification\<close>

definition aligned :: "blocks \<Rightarrow> bool" where
  "aligned bs \<longleftrightarrow> (\<forall>(r, s) \<in> set bs. 8 dvd s)"

lemma aligned_simps [simp]: "aligned []" "aligned ((r, s) # bs) \<longleftrightarrow> 8 dvd s \<and> aligned bs"
  by (simp_all add: aligned_def)

lemma dvd8_gap: "8 dvd n \<Longrightarrow> 8 dvd s \<Longrightarrow> n < s \<Longrightarrow> n + 8 \<le> s" for n s :: nat
  by (auto elim!: dvdE)

lemma aligned_splits: "aligned bs \<Longrightarrow> 8 dvd n \<Longrightarrow> splits n bs"
  by (induction bs rule: extent.induct) (auto simp: not_less dest: le_neq_implies_less dvd8_gap)

lemma aligned_coalesce [simp]: "8 dvd s \<Longrightarrow> aligned bs \<Longrightarrow> aligned (coalesce s bs)"
  by (induction s bs rule: coalesce.induct) auto

lemma aligned_alloc: "aligned bs \<Longrightarrow> 8 dvd n \<Longrightarrow> aligned (snd (alloc_spec a n bs))"
  by (induction a n bs rule: alloc_spec.induct) (auto simp: dvd_diff_nat split: prod.splits)

lemma aligned_free: "aligned bs \<Longrightarrow> free_spec a p bs = Some bs' \<Longrightarrow> aligned bs'"
  by (induction a p bs arbitrary: bs' rule: free_spec.induct) (auto split: if_splits)

lemma extent_alloc: "splits n bs \<Longrightarrow> extent (snd (alloc_spec a n bs)) = extent bs"
  by (induction a n bs rule: alloc_spec.induct) (auto split: prod.splits if_splits)

lemma extent_free: "free_spec a p bs = Some bs' \<Longrightarrow> extent bs' = extent bs"
  by (induction a p bs arbitrary: bs' rule: free_spec.induct) (auto split: if_splits)

lemma live_bounds: "(p, s) \<in> set (live a bs) \<Longrightarrow> a + 8 \<le> p \<and> p + s + 8 \<le> a + extent bs"
  by (induction a bs rule: live.induct) (fastforce split: if_splits)+

lemma live_apart:
  "(p, s) \<in> set (live a bs) \<Longrightarrow> (q, t) \<in> set (live a bs) \<Longrightarrow>
   (p, s) = (q, t) \<or> p + s < q \<or> q + t < p"
  by (induction a bs rule: live.induct) (auto split: if_splits dest: live_bounds)

lemma payload_not_header: "payload (live a bs) \<inter> header_bytes a bs = {}"
proof (induction a bs rule: live.induct)
  case (2 a r s bs)
  then have "payload (live (a + 8 + s) bs) \<inter> header_bytes (a + 8 + s) bs = {}" by (cases r) auto
  with header_bytes_bounds [of "a + 8 + s" bs] payload_bounds [of "a + 8 + s" bs] show ?case
    by (cases r) (fastforce simp: subset_iff)+
qed simp

lemma live_alloc:
  assumes "alloc_spec a n bs = (p, bs')" "splits n bs"
  shows "p = 0 \<and> bs' = bs \<or> a + 8 \<le> p \<and> set (live a bs') = insert (p, n) (set (live a bs)) \<and>
    p \<notin> fst ` set (live a bs)"
  using assms
proof (induction a n bs arbitrary: p bs' rule: alloc_spec.induct)
  case (2 a n r s bs)
  have low: "a + 8 \<notin> fst ` set (live (a + 8 + s) bs)" by (fastforce dest: live_bounds)
  show ?case
  proof (cases "r \<or> n > s")
    case True
    then show ?thesis using 2 by (auto split: prod.splits)
  next
    case False
    then have "set (live a bs') = insert (a + 8, n) (set (live (a + 8 + s) bs))" "p = a + 8"
      using "2.prems" by (auto simp: ac_simps split: if_splits)
    with low False show ?thesis by simp
  qed
qed simp

lemma live_free:
  assumes "(p, s) \<in> set (live a bs)"
  shows "\<exists>bs'. free_spec a p bs = Some bs' \<and> set (live a bs') = set (live a bs) - {(p, s)}"
  using assms
proof (induction a p bs rule: free_spec.induct)
  case (2 a p r t bs)
  have low: "(a + 8, s) \<notin> set (live (a + 8 + t) bs)" for s by (fastforce dest: live_bounds)
  show ?case
  proof (cases "a + 8 = p")
    case True
    with "2.prems" low show ?thesis by (auto split: if_splits)
  next
    case False
    with "2.prems" have "(p, s) \<in> set (live (a + 8 + t) bs)" by (auto split: if_splits)
    with "2.IH" [OF False] False low show ?thesis by auto
  qed
qed simp

section \<open>The contract of an allocator and its clients\<close>

text \<open>A client's call, with the pointer \<open>kalloc\<close> returned; \<open>L\<close> records the blocks (start, size) it owns.\<close>

datatype heap_event = Alloc nat nat | Free nat | Write nat u8

inductive client_run :: "(memory \<Rightarrow> u32 \<Rightarrow> (u32 \<times> memory) option) \<Rightarrow> (memory \<Rightarrow> u32 \<Rightarrow> memory run) \<Rightarrow>
    memory \<times> (nat \<times> nat) set \<Rightarrow> heap_event list \<Rightarrow> memory \<times> (nat \<times> nat) set \<Rightarrow> bool"
  for alloc release where
  client_Nil: "client_run alloc release s [] s"
| client_Alloc: "client_run alloc release s es (m, L) \<Longrightarrow> 8 dvd n \<Longrightarrow> n < 2 ^ 32 \<Longrightarrow>
    alloc m (of_nat n) = Some (p, m') \<Longrightarrow>
    client_run alloc release s (es @ [Alloc n (unat p)]) (m', if p = 0 then L else insert (unat p, n) L)"
| client_Free: "client_run alloc release s es (m, L) \<Longrightarrow> (p, n) \<in> L \<Longrightarrow>
    release m (of_nat p) = Some (Inr m') \<Longrightarrow> client_run alloc release s (es @ [Free p]) (m', L - {(p, n)})"
| client_Write: "client_run alloc release s es (m, L) \<Longrightarrow> (p, n) \<in> L \<Longrightarrow> p \<le> x \<Longrightarrow> x < p + n \<Longrightarrow>
    client_run alloc release s (es @ [Write x v]) (m(of_nat x := v), L)"

definition same_block :: "nat \<times> nat \<Rightarrow> memory \<Rightarrow> memory \<Rightarrow> bool" where
  "same_block b m m' \<longleftrightarrow> (\<forall>x. fst b \<le> x \<and> x < fst b + snd b \<longrightarrow> m' (of_nat x) = m (of_nat x))"

lemma same_block_refl [simp]: "same_block b m m"
  by (simp add: same_block_def)

lemma same_block_trans: "same_block b m m1 \<Longrightarrow> same_block b m1 m2 \<Longrightarrow> same_block b m m2"
  by (simp add: same_block_def)

definition untouched :: "nat \<times> nat \<Rightarrow> heap_event \<Rightarrow> bool" where
  "untouched b e = (case e of Alloc n p \<Rightarrow> True | Free p \<Rightarrow> p \<noteq> fst b | Write x v \<Rightarrow> \<not> (fst b \<le> x \<and> x < fst b + snd b))"

locale allocator =
  fixes alloc :: "memory \<Rightarrow> u32 \<Rightarrow> (u32 \<times> memory) option"
    and release :: "memory \<Rightarrow> u32 \<Rightarrow> memory run"
    and ok :: "memory \<Rightarrow> (nat \<times> nat) set \<Rightarrow> bool"
    and lo hi :: nat
  assumes inside: "ok m L \<Longrightarrow> (p, s) \<in> L \<Longrightarrow> lo \<le> p \<and> p + s \<le> hi \<and> hi < 2 ^ 32"
    and apart: "ok m L \<Longrightarrow> (p, s) \<in> L \<Longrightarrow> (q, t) \<in> L \<Longrightarrow> (p, s) = (q, t) \<or> p + s < q \<or> q + t < p"
    and alloc_law: "ok m L \<Longrightarrow> 8 dvd n \<Longrightarrow> n < 2 ^ 32 \<Longrightarrow>
      \<exists>p m'. alloc m (of_nat n) = Some (p, m') \<and> ok m' (if p = 0 then L else insert (unat p, n) L) \<and>
        (p = 0 \<or> unat p \<notin> fst ` L) \<and> (\<forall>b \<in> L. same_block b m m')"
    and release_law: "ok m L \<Longrightarrow> (p, s) \<in> L \<Longrightarrow>
      \<exists>m'. release m (of_nat p) = Some (Inr m') \<and> ok m' (L - {(p, s)}) \<and> (\<forall>b \<in> L. same_block b m m')"
    and write_law: "ok m L \<Longrightarrow> (p, s) \<in> L \<Longrightarrow> p \<le> x \<Longrightarrow> x < p + s \<Longrightarrow> ok (m(of_nat x := v)) L"
begin

lemma run_ok: "client_run alloc release s es s' \<Longrightarrow> ok (fst s) (snd s) \<Longrightarrow> ok (fst s') (snd s')"
proof (induction rule: client_run.induct)
  case (client_Alloc s es m L n p m')
  with alloc_law [of m L n] show ?case by auto
next
  case (client_Free s es m L p n m')
  with release_law [of m L p n] show ?case by auto
next
  case (client_Write s es m L p n x v)
  then show ?case using write_law [of m L p n x v] by (simp add: fun_upd_def)
qed auto

lemma never_stuck:
  assumes "client_run alloc release s es (m, L)" "ok (fst s) (snd s)"
  shows "8 dvd n \<Longrightarrow> n < 2 ^ 32 \<Longrightarrow> \<exists>p m'. alloc m (of_nat n) = Some (p, m')"
    and "(p, t) \<in> L \<Longrightarrow> \<exists>m'. release m (of_nat p) = Some (Inr m')"
  using run_ok [OF assms] alloc_law [of m L n] release_law [of m L p t] by auto

lemma blocks_separate:
  assumes "client_run alloc release s es (m, L)" "ok (fst s) (snd s)" "(p, n) \<in> L"
  shows "lo \<le> p \<and> p + n \<le> hi" and "(q, t) \<in> L \<Longrightarrow> (p, n) \<noteq> (q, t) \<Longrightarrow> p + n < q \<or> q + t < p"
  using run_ok [OF assms(1,2)] assms(3) inside [of m L p n] apart [of m L p n q t] by auto

lemma contents_kept:
  assumes "client_run alloc release s es s'" "ok (fst s) (snd s)" "b \<in> snd s" "\<forall>e \<in> set es. untouched b e"
  shows "b \<in> snd s' \<and> same_block b (fst s) (fst s')"
  using assms
proof (induction rule: client_run.induct)
  case (client_Nil s)
  then show ?case by (simp add: same_block_def)
next
  case (client_Alloc s es m L n p m')
  then have "ok m L" "b \<in> L" "same_block b (fst s) m" 
    using run_ok [OF client_Alloc.hyps(1)] by (auto simp: same_block_def)
  moreover from this client_Alloc have "same_block b m m'" using alloc_law [of m L n] by auto
  ultimately show ?case by (simp add: same_block_def)
next
  case (client_Free s es m L p n m')
  then have "ok m L" "b \<in> L" "same_block b (fst s) m" "p \<noteq> fst b"
    using run_ok [OF client_Free.hyps(1)] by (auto simp: same_block_def untouched_def)
  moreover from this client_Free have "same_block b m m'" using release_law [of m L p n] by auto
  ultimately show ?case by (auto simp: same_block_def)
next
  case (client_Write s es m L p n x v)
  then have *: "ok m L" "b \<in> L" "same_block b (fst s) m" "\<not> (fst b \<le> x \<and> x < fst b + snd b)"
    using run_ok [OF client_Write.hyps(1)] by (auto simp: same_block_def untouched_def)
  then have "fst b + snd b < 2 ^ 32" "x < 2 ^ 32"
    using inside [of m L "fst b" "snd b"] inside [of m L p n] client_Write by auto
  then have "y \<noteq> x \<and> y < 2 ^ 32" if "fst b \<le> y \<and> y < fst b + snd b" for y using that *(4) by auto
  with \<open>x < 2 ^ 32\<close> have "same_block b m (m(of_nat x := v))"
    unfolding same_block_def by (simp add: of_nat_eq_u32)
  with * show ?case by (simp add: same_block_def)
qed

end

section \<open>The heap is an allocator\<close>

definition heap_ok :: "nat \<Rightarrow> nat \<Rightarrow> memory \<Rightarrow> (nat \<times> nat) set \<Rightarrow> bool" where
  "heap_ok a len m L \<longleftrightarrow> 0 < a \<and> a + len \<le> 2 ^ 32 \<and>
     (\<exists>bs. heap_rep m a bs \<and> aligned bs \<and> extent bs = len \<and> L = set (live a bs))"

lemma agree_same_block:
  assumes "agree X m m'" "b \<in> set (live a bs)" "payload (live a bs) \<subseteq> X"
  shows "same_block b m m'"
proof -
  have "{fst b..<fst b + snd b} \<subseteq> X" using assms(2,3) by (force simp: payload_def)
  with assms(1) show ?thesis by (auto simp: same_block_def agree_def subset_iff)
qed

text \<open>Nothing outside the heap's own region changes.\<close>

definition heap_only :: "nat \<Rightarrow> nat \<Rightarrow> memory \<Rightarrow> memory \<Rightarrow> bool" where
  "heap_only a len m m' \<longleftrightarrow> (\<forall>x < 2 ^ 32. \<not> (a \<le> x \<and> x < a + len) \<longrightarrow> m' (of_nat x) = m (of_nat x))"

lemma kalloc_blocks:
  assumes "heap_rep m (unat (heap g)) bs" "0 < unat (heap g)" "unat (heap g) + extent bs \<le> 2 ^ 32" "n < 2 ^ 32" "splits n bs"
    and "alloc_spec (unat (heap g)) n bs = (q, bs')" "L = set (live (unat (heap g)) bs)"
  shows "\<exists>p m'. kalloc g m (of_nat n) = Some (p, m') \<and> unat p = q \<and> heap_rep m' (unat (heap g)) bs' \<and> extent bs' = extent bs \<and>
    (p = 0 \<and> bs' = bs \<or> p \<noteq> 0 \<and> set (live (unat (heap g)) bs') = insert (unat p, n) L \<and> unat p \<notin> fst ` L) \<and>
    (\<forall>b \<in> L. same_block b m m') \<and> heap_only (unat (heap g)) (extent bs) m m'"
proof -
  let ?a = "unat (heap g)"
  have ex: "extent bs' = extent bs" using extent_alloc [OF assms(5), of ?a] assms(6) by simp
  obtain m' where m': "allocate m (of_nat ?a) (of_nat n) = Some (of_nat q, m')" "heap_rep m' ?a bs'"
    "agree ({..<2 ^ 32} - writable ?a bs) m m'"
    using alloc_rep [OF assms(2-5,1,6)] by auto
  have live: "q = 0 \<and> bs' = bs \<or> 0 < q \<and> set (live ?a bs') = insert (q, n) L \<and> q \<notin> fst ` L"
    using live_alloc [OF assms(6,5)] assms(2,7) by auto
  then have "q = 0 \<or> q + 8 \<le> ?a + extent bs" using live_bounds [of q n ?a bs'] ex by auto
  then have "q < 2 ^ 32" using assms(3) by auto
  then have u: "unat (of_nat q :: u32) = q" "(of_nat q :: u32) = 0 \<longleftrightarrow> q = 0"
    using of_nat_eq_u32 [of q 0] by (simp_all add: unat_of_nat)
  have "same_block b m m'" if "b \<in> L" for b
    using agree_same_block [OF m'(3), of b ?a bs] that assms(3,7) payload_bounds [of ?a bs]
    by (fastforce simp: writable_def subset_iff)
  moreover have "heap_only ?a (extent bs) m m'"
    using m'(3) by (auto simp: heap_only_def agree_def writable_def)
  ultimately show ?thesis using m'(1,2) live u ex by (auto simp: kalloc_def)
qed

lemma kalloc_ok:
  assumes "heap_ok (unat (heap g)) len m L" "8 dvd n" "n < 2 ^ 32"
  shows "\<exists>p m'. kalloc g m (of_nat n) = Some (p, m') \<and>
    heap_ok (unat (heap g)) len m' (if p = 0 then L else insert (unat p, n) L) \<and>
    (p = 0 \<or> unat p \<notin> fst ` L) \<and> (\<forall>b \<in> L. same_block b m m')"
proof -
  let ?a = "unat (heap g)"
  obtain bs where bs: "heap_rep m ?a bs" "aligned bs" "extent bs = len" "L = set (live ?a bs)" "0 < ?a" "?a + len \<le> 2 ^ 32"
    using assms(1) by (auto simp: heap_ok_def)
  have sp: "splits n bs" using bs(2) assms(2) by (rule aligned_splits)
  obtain q bs' where q: "alloc_spec ?a n bs = (q, bs')" by fastforce
  then have al: "aligned bs'" using aligned_alloc [OF bs(2) assms(2), of ?a] by simp
  obtain p m' where "kalloc g m (of_nat n) = Some (p, m')" "heap_rep m' ?a bs'" "extent bs' = extent bs"
    "p = 0 \<and> bs' = bs \<or> p \<noteq> 0 \<and> set (live ?a bs') = insert (unat p, n) L \<and> unat p \<notin> fst ` L" "\<forall>b \<in> L. same_block b m m'"
    using kalloc_blocks [OF bs(1,5) _ assms(3) sp q bs(4)] bs(3,6) by auto
  with al bs(3-6) show ?thesis by (auto simp: heap_ok_def)
qed

lemma kfree_ok:
  assumes "heap_ok (unat (heap g)) len m L" "(p, s) \<in> L"
  shows "\<exists>m'. kfree g m (of_nat p) = Some (Inr m') \<and> heap_ok (unat (heap g)) len m' (L - {(p, s)}) \<and>
    (\<forall>b \<in> L. same_block b m m')"
proof -
  let ?a = "unat (heap g)"
  obtain bs where bs: "heap_rep m ?a bs" "aligned bs" "extent bs = len" "L = set (live ?a bs)" "0 < ?a" "?a + len \<le> 2 ^ 32"
    using assms(1) by (auto simp: heap_ok_def)
  obtain bs' where bs': "free_spec ?a p bs = Some bs'" "set (live ?a bs') = L - {(p, s)}"
    using live_free [of p s ?a bs] assms(2) bs(4) by auto
  have "p < 2 ^ 32" using live_bounds [of p s ?a bs] assms(2) bs by auto
  then obtain m' where m': "kfree_loop m (of_nat ?a) (of_nat p) = Some (Inr m')" "heap_rep m' ?a bs'"
    "agree ({..<2 ^ 32} - header_bytes ?a bs) m m'"
    using free_rep [OF _ bs(1), of p] bs bs'(1) by auto
  have "payload (live ?a bs) \<subseteq> {..<2 ^ 32} - header_bytes ?a bs"
    using payload_bounds [of ?a bs] payload_not_header [of ?a bs] bs(3,6) by (auto simp: subset_iff)
  then have "\<forall>b \<in> L. same_block b m m'" using agree_same_block [OF m'(3)] bs(4) by blast
  then show ?thesis
    using m' bs' bs aligned_free [OF bs(2) bs'(1)] extent_free [OF bs'(1)] by (auto simp: kfree_def heap_ok_def)
qed

lemma write_ok:
  assumes "heap_ok a len m L" "(p, s) \<in> L" "p \<le> x" "x < p + s"
  shows "heap_ok a len (m(of_nat x := v)) L"
proof -
  obtain bs where bs: "heap_rep m a bs" "aligned bs" "extent bs = len" "L = set (live a bs)" "0 < a" "a + len \<le> 2 ^ 32"
    using assms(1) by (auto simp: heap_ok_def)
  have x: "x \<in> payload (live a bs)" using assms(2-4) bs(4) by (force simp: payload_def)
  then have "x < 2 ^ 32" and "x \<notin> header_bytes a bs"
    using payload_bounds [of a bs] payload_not_header [of a bs] bs(3,6) by (auto simp: subset_iff)
  then have "agree (header_bytes a bs) m (m(of_nat x := v))"
    using header_bytes_bounds [of a bs] bs(3,6) unfolding agree_def
    by (auto simp: of_nat_eq_u32 subset_iff)
  note heap_rep_agree [OF this]
  with bs show ?thesis unfolding heap_ok_def by blast
qed

interpretation kheap: allocator "kalloc g" "kfree g" "heap_ok (unat (heap g)) len"
  "unat (heap g) + 8" "unat (heap g) + len - 8" for g len
proof unfold_locales
  fix m L p s assume "heap_ok (unat (heap g)) len m L" "(p, s) \<in> L"
  then show "unat (heap g) + 8 \<le> p \<and> p + s \<le> unat (heap g) + len - 8 \<and> unat (heap g) + len - 8 < 2 ^ 32"
    using live_bounds by (fastforce simp: heap_ok_def)
qed (use kalloc_ok kfree_ok write_ok in \<open>auto simp: heap_ok_def dest: live_apart\<close>)

section \<open>Clients that only allocate\<close>

text \<open>
  The boot loader never releases memory, so its heap is a sequence of reserved blocks with one free block; the
  sizes it asks for are not multiples of 8, and what keeps them safe is that the free block is large.
  \<open>arena a len m L k\<close>: the heap at \<open>a\<close> of \<open>len\<close> bytes has the owned blocks \<open>L\<close> and one free block of at least \<open>k\<close> bytes.
\<close>

definition one_free :: "blocks \<Rightarrow> nat \<Rightarrow> bool" where
  "one_free bs s \<longleftrightarrow> filter (\<lambda>b. \<not> fst b) bs = [(False, s)]"

definition arena :: "nat \<Rightarrow> nat \<Rightarrow> memory \<Rightarrow> (nat \<times> nat) set \<Rightarrow> nat \<Rightarrow> bool" where
  "arena a len m L k \<longleftrightarrow> 0 < a \<and> a + len \<le> 2 ^ 32 \<and>
     (\<exists>bs. heap_rep m a bs \<and> extent bs = len \<and> L = set (live a bs) \<and> (\<exists>s \<ge> k. one_free bs s))"

lemma one_free_splits: "one_free bs s \<Longrightarrow> n + 8 \<le> s \<Longrightarrow> splits n bs"
  by (induction n bs rule: splits.induct) (auto simp: one_free_def split: if_splits)

lemma no_free_filter: "filter (\<lambda>b. \<not> fst b) bs = [] \<Longrightarrow> alloc_spec a n bs = (0, bs)"
  by (induction a n bs rule: alloc_spec.induct) (auto split: if_splits)

lemma one_free_alloc:
  "one_free bs s \<Longrightarrow> n + 8 \<le> s \<Longrightarrow> alloc_spec a n bs = (p, bs') \<Longrightarrow> a + 8 \<le> p \<and> one_free bs' (s - n - 8)"
proof (induction a n bs arbitrary: p bs' rule: alloc_spec.induct)
  case (2 a n r t bs)
  show ?case
  proof (cases r)
    case True
    then obtain bs2 where bs2: "alloc_spec (a + 8 + t) n bs = (p, bs2)" "bs' = (r, t) # bs2"
      using "2.prems"(3) by (auto split: prod.splits)
    then show ?thesis using "2.IH" [OF _ _ _ bs2(1)] "2.prems" True by (auto simp: one_free_def)
  next
    case False
    then have "t = s" "filter (\<lambda>b. \<not> fst b) bs = []" using "2.prems"(1) by (auto simp: one_free_def)
    with "2.prems"(2,3) False show ?thesis by (auto simp: one_free_def)
  qed
qed (simp add: one_free_def)

lemma arena_kalloc:
  assumes "arena (unat (heap g)) len m L (n + 8 + k)" "n < 2 ^ 32"
  shows "\<exists>p m'. kalloc g m (of_nat n) = Some (p, m') \<and> p \<noteq> 0 \<and> arena (unat (heap g)) len m' (insert (unat p, n) L) k \<and>
    unat p \<notin> fst ` L \<and> (\<forall>b \<in> L. same_block b m m') \<and> heap_only (unat (heap g)) len m m'"
proof -
  let ?a = "unat (heap g)"
  obtain bs s where bs: "heap_rep m ?a bs" "extent bs = len" "L = set (live ?a bs)" "0 < ?a" "?a + len \<le> 2 ^ 32"
    and s: "one_free bs s" "n + 8 + k \<le> s"
    using assms(1) by (auto simp: arena_def)
  have sp: "splits n bs" using one_free_splits [OF s(1)] s(2) by simp
  obtain q bs' where q: "alloc_spec ?a n bs = (q, bs')" by fastforce
  have q': "?a + 8 \<le> q" "one_free bs' (s - n - 8)" using one_free_alloc [OF s(1) _ q] s(2) by auto
  obtain p m' where r: "kalloc g m (of_nat n) = Some (p, m')" "unat p = q" "heap_rep m' ?a bs'" "extent bs' = extent bs"
    "p = 0 \<and> bs' = bs \<or> p \<noteq> 0 \<and> set (live ?a bs') = insert (unat p, n) L \<and> unat p \<notin> fst ` L" "\<forall>b \<in> L. same_block b m m'"
    "heap_only ?a len m m'"
    using kalloc_blocks [OF bs(1,4) _ assms(2) sp q bs(3)] bs(2,5) by auto
  then have "p \<noteq> 0" using q'(1) by auto
  moreover have "k \<le> s - n - 8" using s(2) by simp
  ultimately show ?thesis using r bs q'(2) by (auto simp: arena_def)
qed

lemma arena_inside: "arena a len m L k \<Longrightarrow> (p, s) \<in> L \<Longrightarrow> a + 8 \<le> p \<and> p + s + 8 \<le> a + len \<and> a + len \<le> 2 ^ 32"
  using live_bounds by (fastforce simp: arena_def)

lemma arena_apart: "arena a len m L k \<Longrightarrow> (p, s) \<in> L \<Longrightarrow> (q, t) \<in> L \<Longrightarrow> (p, s) = (q, t) \<or> p + s < q \<or> q + t < p"
  using live_apart by (fastforce simp: arena_def)

lemma arena_mono: "arena a len m L k \<Longrightarrow> j \<le> k \<Longrightarrow> arena a len m L j"
proof -
  assume "arena a len m L k" "j \<le> k"
  then obtain bs s where bs: "heap_rep m a bs" "extent bs = len" "L = set (live a bs)" "k \<le> s" "one_free bs s" "0 < a" "a + len \<le> 2 ^ 32"
    by (auto simp: arena_def)
  moreover have "j \<le> s" using bs(4) \<open>j \<le> k\<close> by simp
  ultimately show ?thesis unfolding arena_def by blast
qed

definition outside :: "(nat \<times> nat) set \<Rightarrow> nat \<Rightarrow> bool" where
  "outside L x \<longleftrightarrow> (\<forall>(p, s) \<in> L. \<not> (p \<le> x \<and> x < p + s))"

text \<open>Writes that do not touch the heap's own memory, or only blocks that are owned, leave the arena as it is.\<close>

lemma arena_agree:
  assumes "arena a len m L k" "\<And>x. a \<le> x \<Longrightarrow> x < a + len \<Longrightarrow> outside L x \<Longrightarrow> m' (of_nat x) = m (of_nat x)"
  shows "arena a len m' L k"
proof -
  obtain bs s where bs: "heap_rep m a bs" "extent bs = len" "L = set (live a bs)" "s \<ge> k" "one_free bs s" "0 < a" "a + len \<le> 2 ^ 32"
    using assms(1) by (auto simp: arena_def)
  have "agree (header_bytes a bs) m m'"
    unfolding agree_def
  proof
    fix x assume x: "x \<in> header_bytes a bs"
    then have "a \<le> x" "x < a + len" using header_bytes_bounds [of a bs] bs(2) by (auto simp: subset_iff)
    moreover have "x \<notin> payload (live a bs)" using x payload_not_header [of a bs] by blast
    then have "outside L x" using bs(3) by (auto simp: payload_def outside_def)
    ultimately show "m' (of_nat x) = m (of_nat x)" using assms(2) by blast
  qed
  then have "heap_rep m' a bs" using bs(1) by (simp add: heap_rep_agree)
  with bs show ?thesis unfolding arena_def by blast
qed

lemma owner_write:
  assumes "arena a len m L k" "(p, n) \<in> L"
    and "\<And>x. a \<le> x \<Longrightarrow> x < a + len \<Longrightarrow> \<not> (p \<le> x \<and> x < p + n) \<Longrightarrow> m' (of_nat x) = m (of_nat x)"
  shows "arena a len m' L k" and "b \<in> L \<Longrightarrow> b \<noteq> (p, n) \<Longrightarrow> same_block b m m'"
proof -
  show "arena a len m' L k"
    using assms(2,3) by (intro arena_agree [OF assms(1)]) (auto simp: outside_def)
  assume b: "b \<in> L" "b \<noteq> (p, n)"
  have "fst b + snd b \<le> p \<or> p + n \<le> fst b" "a \<le> fst b" "fst b + snd b \<le> a + len"
    using arena_apart [OF assms(1), of "fst b" "snd b" p n] arena_inside [OF assms(1), of "fst b" "snd b"] b assms(2) by auto
  then show "same_block b m m'"
    unfolding same_block_def using assms(3) by auto
qed

lemma owner_store32:
  assumes "arena a len m L j" "(unat r, n) \<in> L" "k + 4 \<le> n"
  shows "arena a len (store32 m (r + of_nat k) v) L j"
    and "b \<in> L \<Longrightarrow> b \<noteq> (unat r, n) \<Longrightarrow> same_block b m (store32 m (r + of_nat k) v)"
proof -
  have b: "unat r + n + 8 \<le> 2 ^ 32" "a + len \<le> 2 ^ 32" using arena_inside [OF assms(1,2)] by auto
  have "store32 m (r + of_nat k) v (of_nat x) = m (of_nat x)"
    if "a \<le> x" "x < a + len" "\<not> (unat r \<le> x \<and> x < unat r + n)" for x
  proof (rule store32_other)
    show "\<not> of_nat x - (r + of_nat k) < 4"
      using of_nat_outside [of x "unat r + k" 4] that b assms(3) by auto
  qed
  then show "arena a len (store32 m (r + of_nat k) v) L j"
    and "b \<in> L \<Longrightarrow> b \<noteq> (unat r, n) \<Longrightarrow> same_block b m (store32 m (r + of_nat k) v)"
    using owner_write [OF assms(1,2)] by blast+
qed

text \<open>None of this touches memory outside the heap's own region.\<close>

lemma heap_only_trans [trans]: "heap_only a len m m1 \<Longrightarrow> heap_only a len m1 m2 \<Longrightarrow> heap_only a len m m2"
  by (simp add: heap_only_def)

lemma owner_only:
  assumes "arena a len m0 L k" "(p, n) \<in> L" "\<And>x. x < 2 ^ 32 \<Longrightarrow> \<not> (p \<le> x \<and> x < p + n) \<Longrightarrow> m' (of_nat x) = m (of_nat x)"
  shows "heap_only a len m m'"
  using arena_inside [OF assms(1,2)] assms(3) by (auto simp: heap_only_def)

lemma owner_store32_only:
  assumes "arena a len m0 L j" "(unat r, n) \<in> L" "k + 4 \<le> n" "c = of_nat k"
  shows "heap_only a len m (store32 m (r + c) v)"
proof (rule owner_only [OF assms(1,2)])
  fix x assume x: "x < 2 ^ 32" "\<not> (unat r \<le> x \<and> x < unat r + n)"
  have b: "unat r + n + 8 \<le> 2 ^ 32" using arena_inside [OF assms(1,2)] by auto
  show "store32 m (r + c) v (of_nat x) = m (of_nat x)"
  proof (rule store32_other)
    show "\<not> of_nat x - (r + c) < 4"
      using of_nat_outside [of x "unat r + k" 4] x b assms(3,4) by auto
  qed
qed

lemma load32_same_block:
  assumes "same_block (p, n) m m'" "p \<le> unat a" "unat a + 4 \<le> p + n"
  shows "load32 m' a = load32 m a"
proof (rule load32_cong)
  fix k :: u32 assume "k < 4"
  then have "unat k < 4" by (simp add: word_less_nat_alt)
  then have "m' (of_nat (unat a + unat k)) = m (of_nat (unat a + unat k))"
    using assms unfolding same_block_def by (simp del: of_nat_add)
  then show "m' (a + k) = m (a + k)" by simp
qed

lemma heapInitialize_rep:
  assumes "0 < ptr" "16 \<le> maxSize" "ptr + maxSize \<le> 2 ^ 32" "maxSize < 2 ^ 32"
    and "heapInitialize m (of_nat ptr) (of_nat maxSize) = (g, m')"
  shows "unat (heap g) = ptr \<and> heap_rep m' ptr [(False, maxSize - 16)]"
proof -
  let ?e = "ptr + maxSize - 8"
  have e: "of_nat ptr + of_nat maxSize - (8 :: u32) = of_nat ?e" using assms(2) by simp
  have "8 \<le> ?e" "?e < 2 ^ 32" using assms by auto
  then have ez: "(of_nat ?e :: u32) \<noteq> 0" using of_nat_eq_u32 [of ?e 0] by simp
  let ?m1 = "entry_init m (of_nat ptr) (of_nat ?e)"
  have m': "m' = entry_init ?m1 (of_nat ?e) 0" and g: "heap g = of_nat ptr"
    using assms(5) e by (auto simp: heapInitialize_def Let_def heapEntry_headerSize_def)
  have "?e + 8 \<le> 2 ^ 32" using assms by auto
  then have "agree {ptr..<ptr + 8} ?m1 m'"
    unfolding m' using assms by (intro header_writes) auto
  note * = header_agree [OF this]
  have "ptr + 8 + (maxSize - 16) = ?e" using assms(2) by simp
  then have "heap_rep m' ptr [(False, maxSize - 16)]"
    using * ez by (simp only: heap_rep.simps) (simp add: m' mem_simps)
  then show ?thesis using assms g by (auto simp: unat_of_nat)
qed

lemma heapInitialize_ok:
  assumes "0 < ptr" "16 \<le> maxSize" "ptr + maxSize \<le> 2 ^ 32" "8 dvd maxSize" "maxSize < 2 ^ 32"
    and "heapInitialize m (of_nat ptr) (of_nat maxSize) = (g, m')"
  shows "unat (heap g) = ptr \<and> heap_rep m' ptr [(False, maxSize - 16)] \<and> heap_ok ptr maxSize m' {}"
proof -
  note r = heapInitialize_rep [OF assms(1-3,5,6)]
  moreover have "8 dvd maxSize - 16" using assms(4) by (simp add: dvd_diff_nat)
  then have "heap_ok ptr maxSize m' {}"
    unfolding heap_ok_def using r assms by (intro conjI exI [of _ "[(False, maxSize - 16)]"]) auto
  ultimately show ?thesis by simp
qed

lemma heapInitialize_arena:
  assumes "0 < ptr" "16 \<le> maxSize" "ptr + maxSize \<le> 2 ^ 32" "maxSize < 2 ^ 32"
    and "heapInitialize m (of_nat ptr) (of_nat maxSize) = (g, m')"
  shows "unat (heap g) = ptr" and "arena ptr maxSize m' {} (maxSize - 16)"
proof -
  show "unat (heap g) = ptr" using heapInitialize_rep [OF assms] by simp
  have "heap_rep m' ptr [(False, maxSize - 16)]" using heapInitialize_rep [OF assms] by simp
  then show "arena ptr maxSize m' {} (maxSize - 16)"
    unfolding arena_def using assms by (intro conjI exI [of _ "[(False, maxSize - 16)]"]) (auto simp: one_free_def)
qed

lemma entry_init_other: "\<not> x - e < 8 \<Longrightarrow> entry_init m e v x = m x"
proof -
  assume x: "\<not> x - e < 8"
  then have "\<not> x - e < 4" by (auto dest: order_less_trans [of _ 4 8])
  moreover have "x \<noteq> e + 4" using x by auto
  ultimately show ?thesis by (simp add: entry_init_def set_next_def set_reserved_def store32_other)
qed

lemma heapInitialize_only:
  assumes "16 \<le> maxSize" "ptr + maxSize \<le> 2 ^ 32" "maxSize < 2 ^ 32"
    and "heapInitialize m (of_nat ptr) (of_nat maxSize) = (g, m')" "\<not> (ptr \<le> unat x \<and> unat x < ptr + maxSize)"
  shows "m' x = m x"
proof -
  define e where "e = ptr + maxSize - 8"
  have e: "of_nat ptr + of_nat maxSize - (8 :: u32) = of_nat e" using assms(1) by (simp add: e_def)
  have "unat x < e \<or> e + 8 \<le> unat x" "e + 8 \<le> 2 ^ 32" using assms(1,2,5) by (auto simp: e_def)
  then have "\<not> x - of_nat ptr < 8" "\<not> x - of_nat e < 8"
    using of_nat_outside [of "unat x" ptr 8] of_nat_outside [of "unat x" e 8] assms(1,2,5) unat_less_2pow [of x] by auto
  then show ?thesis using assms(4) e by (auto simp: heapInitialize_def Let_def heapEntry_headerSize_def entry_init_other)
qed

text \<open>Releasing the block just allocated gives back the block it was cut from, unless a free block follows.\<close>

fun no_adjacent_free :: "blocks \<Rightarrow> bool" where
  "no_adjacent_free ((r, s) # (r', s') # bs) \<longleftrightarrow> (r \<or> r') \<and> no_adjacent_free ((r', s') # bs)"
| "no_adjacent_free bs \<longleftrightarrow> True"

lemma coalesce_reserved: "no_adjacent_free ((False, s) # bs) \<Longrightarrow> coalesce s bs = (False, s) # bs"
  by (cases "(s, bs)" rule: coalesce.cases) auto

lemma no_adjacent_free_tl: "no_adjacent_free (b # bs) \<Longrightarrow> no_adjacent_free bs"
  by (cases "b # bs" rule: no_adjacent_free.cases) auto

lemma free_alloc_spec:
  "alloc_spec a n bs = (p, bs') \<Longrightarrow> 0 < p \<Longrightarrow> splits n bs \<Longrightarrow> no_adjacent_free bs \<Longrightarrow> free_spec a p bs' = Some bs"
proof (induction a n bs arbitrary: p bs' rule: alloc_spec.induct)
  case (2 a n r s bs)
  show ?case
  proof (cases "r \<or> n > s")
    case True
    then obtain bs2 where bs2: "alloc_spec (a + 8 + s) n bs = (p, bs2)" "bs' = (r, s) # bs2" "splits n bs"
      using "2.prems" by (auto split: prod.splits)
    then have "a + 8 + s + 8 \<le> p" using live_alloc [OF bs2(1,3)] "2.prems"(2) by auto
    with bs2 "2.IH" [OF True bs2(1)] "2.prems" no_adjacent_free_tl show ?thesis by auto
  next
    case False
    with "2.prems" show ?thesis by (auto simp: coalesce_reserved split: if_splits)
  qed
qed auto

section \<open>What the heap guarantees\<close>

text \<open>
  C4. After \<open>heapInitialize\<close> on a region whose size is a multiple of 8, and after any sequence
  of allocations (of sizes that are multiples of 8), releases of owned blocks and writes into owned blocks:
  the owned blocks lie inside the region between the first and the end header and do not
  overlap, the next \<open>kalloc\<close> returns, and \<open>kfree\<close> of an owned block returns without panic.
\<close>

theorem heap_blocks_safe:
  assumes "0 < ptr" "16 \<le> maxSize" "ptr + maxSize \<le> 2 ^ 32" "8 dvd maxSize" "maxSize < 2 ^ 32"
    and "heapInitialize m0 (of_nat ptr) (of_nat maxSize) = (g, m1)"
    and "client_run (kalloc g) (kfree g) (m1, {}) es (m, L)" and "(p, s) \<in> L"
  shows "ptr + 8 \<le> p \<and> p + s \<le> ptr + maxSize - 8 \<and>
    (\<forall>(q, t) \<in> L. (q, t) \<noteq> (p, s) \<longrightarrow> p + s < q \<or> q + t < p) \<and>
    (\<forall>n < 2 ^ 32. 8 dvd n \<longrightarrow> (\<exists>r m'. kalloc g m (of_nat n) = Some (r, m'))) \<and>
    (\<exists>m'. kfree g m (of_nat p) = Some (Inr m'))"
proof -
  have h: "unat (heap g) = ptr" and ok: "heap_ok (unat (heap g)) maxSize (fst (m1, {})) (snd (m1, {}))"
    using heapInitialize_ok [OF assms(1-6)] by auto
  show ?thesis
  proof (intro conjI)
    show "ptr + 8 \<le> p" "p + s \<le> ptr + maxSize - 8"
      using kheap.blocks_separate(1) [OF assms(7) ok assms(8)] h by simp_all
    show "\<forall>(q, t) \<in> L. (q, t) \<noteq> (p, s) \<longrightarrow> p + s < q \<or> q + t < p"
      using kheap.blocks_separate(2) [OF assms(7) ok assms(8)] by blast
    show "\<forall>n < 2 ^ 32. 8 dvd n \<longrightarrow> (\<exists>r m'. kalloc g m (of_nat n) = Some (r, m'))"
      using kheap.never_stuck(1) [OF assms(7) ok] by blast
    show "\<exists>m'. kfree g m (of_nat p) = Some (Inr m')"
      using kheap.never_stuck(2) [OF assms(7) ok assms(8)] .
  qed
qed

text \<open>A heap of 64 bytes at \<open>0x1000\<close> from which one block of 8 bytes is taken.\<close>

lemma small_heap:
  "\<exists>g m1 m. heapInitialize (\<lambda>_. 0) (of_nat 0x1000) (of_nat 64) = (g, m1) \<and> heap g = 0x1000 \<and>
     client_run (kalloc g) (kfree g) (m1, {}) [Alloc 8 0x1008] (m, {(0x1008, 8)})"
proof -
  obtain g m1 where g: "heapInitialize (\<lambda>_. 0) (of_nat 0x1000) (of_nat 64) = (g, m1)" by fastforce
  then have h: "heap g = 0x1000" by (auto simp: heapInitialize_def Let_def)
  have "heap_rep m1 0x1000 [(False, 64 - 16)]"
    using heapInitialize_ok [OF _ _ _ _ _ g] by simp
  then obtain m where "allocate m1 (of_nat 0x1000) (of_nat 8) = Some (of_nat 0x1008, m)"
    using alloc_rep [where a = "0x1000" and bs = "[(False, 64 - 16)]" and n = 8 and m = m1] by auto
  then have "kalloc g m1 (of_nat 8) = Some (of_nat 0x1008, m)" using h by (simp add: kalloc_def)
  from client_Alloc [where alloc = "kalloc g" and release = "kfree g" and L = "{}", OF client_Nil _ _ this] g h
  show ?thesis by auto
qed

theorem heap_blocks_safe_witness:
  "\<exists>g m. 0x1008 + 8 \<le> heap g + 64 \<and> (\<exists>m'. kfree g m (of_nat 0x1008) = Some (Inr m')) \<and>
     (\<exists>r m'. kalloc g m 24 = Some (r, m'))"
proof -
  obtain g m1 m where g: "heapInitialize (\<lambda>_. 0) (of_nat 0x1000) (of_nat 64) = (g, m1)" "heap g = 0x1000"
    "client_run (kalloc g) (kfree g) (m1, {}) [Alloc 8 0x1008] (m, {(0x1008, 8)})"
    using small_heap by blast
  have s: "(0x1008, 8) \<in> {(0x1008 :: nat, 8 :: nat)}" by simp
  from heap_blocks_safe [OF _ _ _ _ _ g(1) g(3) s]
  have "\<exists>m'. kfree g m (of_nat 0x1008) = Some (Inr m')" and all: "\<forall>n < 2 ^ 32. 8 dvd n \<longrightarrow> (\<exists>r m'. kalloc g m (of_nat n) = Some (r, m'))"
    by simp_all
  moreover from all [rule_format, of 24] have "\<exists>r m'. kalloc g m 24 = Some (r, m')" by simp
  ultimately show ?thesis using g(2) by (intro exI [of _ g] exI [of _ m]) simp
qed

text \<open>
  C22. The contents of an owned block change only by the owner's writes to it: on a heap whose size is a multiple of 8, with
  allocations whose sizes are multiples of 8 (so that no remainder is too small for a header), any
  sequence of other allocations, releases and writes leaves every byte of it as it was and the block owned.
\<close>

theorem heap_contents_kept:
  assumes "0 < ptr" "16 \<le> maxSize" "ptr + maxSize \<le> 2 ^ 32" "8 dvd maxSize" "maxSize < 2 ^ 32"
    and "heapInitialize m0 (of_nat ptr) (of_nat maxSize) = (g, m1)"
    and "client_run (kalloc g) (kfree g) (m1, {}) es (m, L)" and "(p, s) \<in> L"
    and "client_run (kalloc g) (kfree g) (m, L) es' (m', L')" and "\<forall>e \<in> set es'. untouched (p, s) e"
  shows "(p, s) \<in> L' \<and> (\<forall>x. p \<le> x \<and> x < p + s \<longrightarrow> m' (of_nat x) = m (of_nat x))"
proof -
  have ok: "heap_ok (unat (heap g)) maxSize (fst (m1, {})) (snd (m1, {}))"
    using heapInitialize_ok [OF assms(1-6)] by auto
  then have "heap_ok (unat (heap g)) maxSize (fst (m, L)) (snd (m, L))"
    using kheap.run_ok [OF assms(7)] by simp
  from kheap.contents_kept [OF assms(9) this _ assms(10)] assms(8) show ?thesis by (simp add: same_block_def)
qed

theorem heap_contents_kept_witness:
  "\<exists>g m r m' L'. heap g = 0x1000 \<and>
     client_run (kalloc g) (kfree g) (m, {(0x1008, 8)}) [Alloc 16 r] (m', L') \<and> (0x1008, 8) \<in> L' \<and>
     (\<forall>x. 0x1008 \<le> x \<and> x < 0x1010 \<longrightarrow> m' (of_nat x) = m (of_nat x))"
proof -
  obtain g m1 m where g: "heapInitialize (\<lambda>_. 0) (of_nat 0x1000) (of_nat 64) = (g, m1)" "heap g = 0x1000"
    "client_run (kalloc g) (kfree g) (m1, {}) [Alloc 8 0x1008] (m, {(0x1008, 8)})"
    using small_heap by blast
  have ok: "heap_ok (unat (heap g)) 64 (fst (m1, {})) (snd (m1, {}))"
    using heapInitialize_ok [OF _ _ _ _ _ g(1)] by auto
  obtain r m' where r: "kalloc g m (of_nat 16) = Some (r, m')"
    using kheap.never_stuck(1) [OF g(3) ok, of 16] by auto
  have s: "(0x1008, 8) \<in> {(0x1008 :: nat, 8 :: nat)}" by simp
  have run: "client_run (kalloc g) (kfree g) (m, {(0x1008, 8)}) [Alloc 16 (unat r)]
      (m', if r = 0 then {(0x1008, 8)} else insert (unat r, 16) {(0x1008, 8)})"
    using client_Alloc [where alloc = "kalloc g", OF client_Nil _ _ r] by simp
  from heap_contents_kept [OF _ _ _ _ _ g(1) g(3) s run] have "\<forall>x. 0x1008 \<le> x \<and> x < 0x1010 \<longrightarrow> m' (of_nat x) = m (of_nat x)"
    "(0x1008, 8) \<in> (if r = 0 then {(0x1008, 8)} else insert (unat r, 16) {(0x1008, 8)})"
    by (simp_all add: untouched_def)
  with run g(2) show ?thesis by blast
qed

text \<open>
  C12. On a heap that is a list of blocks, for a request such that the first free block that is large enough has exactly the size of the request or at
  least 8 bytes more (\<open>splits\<close>; the other case is \<open>small_remainder_overruns\<close>), \<open>kalloc\<close> returns and implements first fit: it takes
  the first free block that is large enough, splits off the rest, returns its data pointer (null
  when no block fits), and writes only headers and free memory.
\<close>

theorem kalloc_first_fit:
  assumes "0 < a" "a + extent bs \<le> 2 ^ 32" "n < 2 ^ 32" "splits n bs" "heap_rep m a bs" "heap g = of_nat a"
  shows "\<exists>m'. kalloc g m (of_nat n) = Some (of_nat (fst (alloc_spec a n bs)), m') \<and>
    heap_rep m' a (snd (alloc_spec a n bs)) \<and>
    (\<forall>x < 2 ^ 32. x \<notin> writable a bs \<longrightarrow> m' (of_nat x) = m (of_nat x))"
  using alloc_rep [OF assms(1-5) prod.collapse [symmetric]] assms(6) by (auto simp: kalloc_def agree_def)

theorem kalloc_first_fit_witness:
  "\<exists>m g m'. heap g = 0x1000 \<and> kalloc g m 8 = Some (0x1008, m') \<and> heap_rep m' 0x1000 [(True, 8), (False, 32)]"
proof -
  obtain g m where g: "heapInitialize (\<lambda>_. 0) (of_nat 0x1000) (of_nat 64) = (g, m)" by fastforce
  then have h: "heap g = of_nat 0x1000" by (auto simp: heapInitialize_def Let_def)
  have rep: "heap_rep m 0x1000 [(False, 48)]" using heapInitialize_ok [OF _ _ _ _ _ g] by simp
  from kalloc_first_fit [where n = 8, OF _ _ _ _ rep h] have
    "\<exists>m'. kalloc g m 8 = Some (0x1008, m') \<and> heap_rep m' 0x1000 [(True, 8), (False, 32)]" by (auto simp del: heap_rep.simps)
  with h show ?thesis by (auto simp del: heap_rep.simps)
qed

text \<open>
  C13. \<open>kfree\<close> returns or panics on every well-formed heap: it panics exactly when no block has the
  pointer as its data pointer, and otherwise marks that block free, merges it with the free
  blocks that follow it, and writes nothing but headers.
\<close>

theorem kfree_correct:
  assumes "a + extent bs \<le> 2 ^ 32" "heap_rep m a bs" "p < 2 ^ 32" "heap g = of_nat a"
  shows "case free_spec a p bs of
      None \<Rightarrow> kfree g m (of_nat p) = Some (Inl ''kfree: no such memory address!'')
    | Some bs' \<Rightarrow> \<exists>m'. kfree g m (of_nat p) = Some (Inr m') \<and> heap_rep m' a bs' \<and> extent bs' = extent bs \<and>
        (\<forall>x < 2 ^ 32. x \<notin> header_bytes a bs \<longrightarrow> m' (of_nat x) = m (of_nat x))"
  using free_rep [OF assms(1-3)] assms(4) extent_free [of a p bs]
  by (auto simp: kfree_def agree_def kfree_msg_def split: option.splits)

theorem kfree_correct_witness:
  "\<exists>m g. heap g = 0x1000 \<and> kfree g m 0x1010 = Some (Inl ''kfree: no such memory address!'')"
proof -
  obtain g m where g: "heapInitialize (\<lambda>_. 0) (of_nat 0x1000) (of_nat 64) = (g, m)" by fastforce
  then have h: "heap g = of_nat 0x1000" by (auto simp: heapInitialize_def Let_def)
  have rep: "heap_rep m 0x1000 [(False, 48)]" using heapInitialize_ok [OF _ _ _ _ _ g] by simp
  from kfree_correct [where p = "0x1010", OF _ rep _ h] h show ?thesis by auto
qed

text \<open>
  Allocating and at once releasing a block leaves the same list of blocks, provided
  no two free blocks are neighbours (\<open>kfree\<close> merges forward only, so it does not establish this itself).
\<close>

theorem kalloc_kfree_restores:
  assumes "0 < a" "a + extent bs \<le> 2 ^ 32" "n < 2 ^ 32" "splits n bs" "no_adjacent_free bs" "heap_rep m a bs"
    and "heap g = of_nat a" and "kalloc g m (of_nat n) = Some (p, m')" and "p \<noteq> 0"
  shows "\<exists>m''. kfree g m' p = Some (Inr m'') \<and> heap_rep m'' a bs"
proof -
  obtain q bs' where q: "alloc_spec a n bs = (q, bs')" by fastforce
  then have r: "p = of_nat q" "heap_rep m' a bs'"
    using alloc_rep [OF assms(1-4,6) q] assms(7,8) by (auto simp: kalloc_def)
  then have pos: "0 < q" using assms(9) by (cases "q = 0") auto
  then have "(q, n) \<in> set (live a bs')" using live_alloc [OF q assms(4)] by auto
  moreover have ex: "extent bs' = extent bs" using extent_alloc [OF assms(4), of a] q by simp
  ultimately have "q < 2 ^ 32" using live_bounds assms(2) by fastforce
  moreover have "a + extent bs' \<le> 2 ^ 32" using ex assms(2) by simp
  ultimately show ?thesis
    using free_rep [OF _ r(2), of q] free_alloc_spec [OF q pos assms(4,5)] r(1) assms(7) by (auto simp: kfree_def)
qed

theorem kalloc_kfree_restores_witness:
  "\<exists>m g m' m''. kalloc g m 8 = Some (0x1008, m') \<and> kfree g m' 0x1008 = Some (Inr m'') \<and> heap_rep m'' 0x1000 [(False, 48)]"
proof -
  obtain g m where g: "heapInitialize (\<lambda>_. 0) (of_nat 0x1000) (of_nat 64) = (g, m)" by fastforce
  then have h: "heap g = of_nat 0x1000" by (auto simp: heapInitialize_def Let_def)
  have rep: "heap_rep m 0x1000 [(False, 48)]" using heapInitialize_ok [OF _ _ _ _ _ g] by simp
  obtain m' where k: "kalloc g m (of_nat 8) = Some (of_nat 0x1008, m')"
    using alloc_rep [where n = 8, OF _ _ _ _ rep] h by (auto simp: kalloc_def)
  from kalloc_kfree_restores [OF _ _ _ _ _ rep h k] k show ?thesis by (auto simp del: heap_rep.simps)
qed

section \<open>Remainders without room for a header\<close>

text \<open>The blocks \<open>bs\<close> stand one after the other from \<open>a\<close> to the header at \<open>b\<close>.\<close>

fun chain_to :: "memory \<Rightarrow> nat \<Rightarrow> blocks \<Rightarrow> nat \<Rightarrow> bool" where
  "chain_to m a [] b \<longleftrightarrow> a = b"
| "chain_to m a ((r, s) # bs) b \<longleftrightarrow>
     entry_next m (of_nat a) = of_nat (a + 8 + s) \<and> entry_reserved m (of_nat a) = r \<and> chain_to m (a + 8 + s) bs b"

lemma chain_to_le: "chain_to m a bs b \<Longrightarrow> a \<le> b"
  by (induction m a bs b rule: chain_to.induct) auto

lemma heap_rep_append:
  "heap_rep m a (pre @ bs) \<longleftrightarrow> chain_to m a pre (a + extent pre - 8) \<and> heap_rep m (a + extent pre - 8) bs"
proof (induction pre arbitrary: a)
  case (Cons x pre)
  have "a + extent ((r, s) # pre) - 8 = a + 8 + s + extent pre - 8" for r s by simp
  then show ?case by (cases x) (simp only: append_Cons heap_rep.simps chain_to.simps Cons conj_assoc)
qed simp

lemma extent_append: "extent (pre @ bs) + 8 = extent pre + extent bs"
  by (induction pre rule: extent.induct) auto

lemma chain_to_agree:
  "chain_to m a bs b \<Longrightarrow> agree {a..<b} m m' \<Longrightarrow> chain_to m' a bs b"
proof (induction m a bs b rule: chain_to.induct)
  case (2 m a r s bs b)
  then have c: "chain_to m (a + 8 + s) bs b" by simp
  from chain_to_le [OF this] have sub: "{a..<a + 8} \<subseteq> {a..<b}" "{a + 8 + s..<b} \<subseteq> {a..<b}" by auto
  show ?case
    using "2.IH" [OF c agree_mono [OF "2.prems"(2) sub(2)]] header_agree [OF agree_mono [OF "2.prems"(2) sub(1)]] "2.prems"(1) by simp
qed simp

lemma allocate_walk:
  "chain_to m a bs b \<Longrightarrow> \<forall>(r, s) \<in> set bs. r \<or> s < n \<Longrightarrow> 0 < a \<Longrightarrow> b < 2 ^ 32 \<Longrightarrow> n < 2 ^ 32 \<Longrightarrow>
   allocate m (of_nat a) (of_nat n) = allocate m (of_nat b) (of_nat n)"
proof (induction m a bs b rule: chain_to.induct)
  case (2 m a r s bs b)
  then have h: "entry_next m (of_nat a) = of_nat (a + 8 + s)" "entry_reserved m (of_nat a) = r" and c: "chain_to m (a + 8 + s) bs b"
    by simp_all
  have "a + 8 + s < 2 ^ 32" using chain_to_le [OF c] "2.prems"(4) by simp
  then have nz: "(of_nat (a + 8 + s) :: u32) \<noteq> 0" using of_nat_eq_u32 [of "a + 8 + s" 0] by simp
  have "r \<or> s < n" using "2.prems"(2) by auto
  then have skip: "entry_reserved m (of_nat a) \<or> getSize m (of_nat a) < of_nat n"
    using of_nat_less_u32 [of s n] getSize_block [OF h(1)] "2.prems"(5) h(2) by auto
  have "allocate m (of_nat a) (of_nat n) = allocate m (of_nat (a + 8 + s)) (of_nat n)"
    using nz skip h(1) by (subst allocate.simps) (simp only: if_False if_True)
  then show ?case using "2.IH" [OF c] "2.prems" by simp
qed simp

lemma allocate_overrun:
  assumes "0 < b" "b + 8 + s + 8 \<le> 2 ^ 32" "n < s"
    and rep: "entry_next m (of_nat b) = of_nat (b + 8 + s)" "\<not> entry_reserved m (of_nat b)"
  shows "\<exists>m'. allocate m (of_nat b) (of_nat n) = Some (of_nat (b + 8), m') \<and>
    entry_next m' (of_nat b) = of_nat (b + 8 + n) \<and> entry_reserved m' (of_nat b) \<and>
    entry_next m' (of_nat (b + 8 + n)) = of_nat (b + 8 + s) \<and> \<not> entry_reserved m' (of_nat (b + 8 + n)) \<and> agree {..<b} m m'"
proof -
  let ?new = "b + 8 + n" and ?nx = "b + 8 + s"
  define m1 where "m1 = set_next m (of_nat b) (of_nat ?new)"
  define m2 where "m2 = entry_init m1 (of_nat ?new) (of_nat ?nx)"
  define m' where "m' = set_reserved m2 (of_nat b) True"
  have nz: "(of_nat ?nx :: u32) \<noteq> 0" using of_nat_eq_u32 [of ?nx 0] assms(2) by simp
  have size: "getSize m (of_nat b) = of_nat s" by (rule getSize_block [OF rep(1)])
  have fit: "\<not> of_nat n > (of_nat s :: u32)" using of_nat_less_u32 [of s n] assms(2,3) by simp
  have wrap: "(of_nat n :: u32) - of_nat s > heapEntry_headerSize + 4" using assms(2,3) by (intro wrong_way_subtraction) auto
  have "getDataPtr (of_nat b) + of_nat n = of_nat ?new" "getDataPtr (of_nat b) = of_nat (b + 8)"
    by (simp_all add: getDataPtr_def heapEntry_headerSize_def add.commute add.left_commute)
  then have run: "allocate m (of_nat b) (of_nat n) = Some (of_nat (b + 8), m')"
    using nz fit wrap rep size by (subst allocate.simps) (simp add: Let_def m1_def m2_def m'_def mem_simps del: of_nat_add)
  have new: "agree {?new..<?new + 8} m2 m'" and old: "agree {b..<b + 8} m1 m2"
    unfolding m'_def m2_def by (rule header_writes; use assms(2,3) in auto)+
  have "agree {..<b} m m1" "agree {..<b} m1 m2" "agree {..<b} m2 m'"
    unfolding m'_def m2_def m1_def by (rule header_writes; use assms(2,3) in auto)+
  then have "agree {..<b} m m'" by (meson agree_trans)
  moreover have "entry_next m' (of_nat b) = of_nat ?new" "entry_reserved m' (of_nat b)"
    using header_agree [OF old] by (simp_all add: m'_def m1_def mem_simps del: of_nat_add)
  moreover have "entry_next m' (of_nat ?new) = of_nat ?nx" "\<not> entry_reserved m' (of_nat ?new)"
    using header_agree [OF new] nz by (simp_all add: m2_def mem_simps del: of_nat_add)
  ultimately show ?thesis using run by blast
qed

text \<open>
  C23. The test for room in \<open>allocate\<close> computes \<open>size - available\<close>, which wraps around, so a block
  is split even when the rest has no room for a header. On every heap where the first free block that fits the request \<open>n\<close> is 1 to 7 bytes too large,
  \<open>kalloc\<close> leaves behind the returned block a free entry whose size has wrapped around to almost \<open>2 ^ 32\<close>; the next request that is not
  smaller is served from it, whatever its size (up to \<open>2 ^ 32 - 8\<close>), and gets an address
  beyond the end \<open>q + s\<close> of the block, in the data of the next block or after the end of the heap.
\<close>

theorem small_remainder_overruns:
  assumes "0 < a" "a + extent bs \<le> 2 ^ 32" "heap_rep m a bs" "heap g = of_nat a"
    and "bs = pre @ (False, s) # post" "\<forall>(r, t) \<in> set pre. r \<or> t < n" "n < s" "s < n + 8" "q = a + extent pre"
  shows "\<exists>m'. kalloc g m (of_nat n) = Some (of_nat q, m') \<and> \<not> entry_reserved m' (of_nat (q + n)) \<and>
    unat (getSize m' (of_nat (q + n))) = 2 ^ 32 - (8 - (s - n)) \<and>
    (\<forall>k. n \<le> k \<and> k \<le> 2 ^ 32 - 8 \<longrightarrow> (\<exists>m''. kalloc g m' (of_nat k) = Some (of_nat (q + n + 8), m'')))"
proof -
  define b where "b = a + extent pre - 8"
  have q: "q = b + 8" "a \<le> b" unfolding b_def assms(9) using extent_ge [of pre] by (simp_all del: extent_ge)
  have pre: "chain_to m a pre b" and rep: "entry_next m (of_nat b) = of_nat (b + 8 + s)" "\<not> entry_reserved m (of_nat b)"
    using assms(3) unfolding assms(5) heap_rep_append b_def [symmetric] by simp_all
  have "a + extent bs = b + 8 + s + extent post"
    using extent_append [of pre "(False, s) # post"] extent_ge [of pre] unfolding assms(5) b_def by (simp del: extent_ge)
  then have top: "b + 8 + s + 8 \<le> 2 ^ 32" using assms(2) extent_ge [of post] by linarith
  have b: "0 < b" "b < 2 ^ 32" "n < 2 ^ 32" using q(2) assms(1,7) top by auto
  obtain m' where r: "allocate m (of_nat b) (of_nat n) = Some (of_nat (b + 8), m')"
      "entry_next m' (of_nat b) = of_nat (b + 8 + n)" "entry_reserved m' (of_nat b)"
      "entry_next m' (of_nat (b + 8 + n)) = of_nat (b + 8 + s)" "\<not> entry_reserved m' (of_nat (b + 8 + n))" "agree {..<b} m m'"
    using allocate_overrun [OF b(1) top assms(7) rep] by blast
  have first: "kalloc g m (of_nat n) = Some (of_nat q, m')"
    using allocate_walk [OF pre assms(6,1) b(2,3)] r(1) q(1) assms(4) by (simp add: kalloc_def)
  obtain d where d: "0 < d" "d < 8" "s - n = d" "s = n + d" using assms(7,8) that [of "s - n"] by simp
  have "getSize m' (of_nat (b + 8 + n)) = of_nat d - 8"
    unfolding getSize_def r(4) heapEntry_headerSize_def by (simp add: d(4))
  also have "unat \<dots> = 2 ^ 32 - (8 - (s - n))" using d(1,2) unfolding d(3) by (simp add: unat_sub_if' unat_of_nat)
  finally have size: "unat (getSize m' (of_nat (b + 8 + n))) = 2 ^ 32 - (8 - (s - n))" .
  have pre': "chain_to m' a pre b" by (rule chain_to_agree [OF pre agree_mono [OF r(6)]]) auto
  have "\<exists>m''. kalloc g m' (of_nat k) = Some (of_nat (q + n + 8), m'')" if k: "n \<le> k" "k \<le> 2 ^ 32 - 8" for k
  proof -
    have small: "\<forall>(r, t) \<in> set pre. r \<or> t < k" using assms(6) k(1) by fastforce
    have nz: "(of_nat (b + 8 + n) :: u32) \<noteq> 0" "(of_nat (b + 8 + s) :: u32) \<noteq> 0"
      using of_nat_eq_u32 [of "b + 8 + n" 0] of_nat_eq_u32 [of "b + 8 + s" 0] top assms(7) by simp_all
    have fit: "\<not> of_nat k > getSize m' (of_nat (b + 8 + n))"
      using size k(2) d(1,3) by (simp add: word_less_nat_alt unat_of_nat)
    have "allocate m' (of_nat a) (of_nat k) = allocate m' (of_nat b) (of_nat k)"
      using k(2) by (intro allocate_walk [OF pre' small assms(1) b(2)]) simp
    also have "\<dots> = allocate m' (of_nat (b + 8 + n)) (of_nat k)"
      using nz(1) r(2,3) by (subst allocate.simps) (simp only: if_False if_True simp_thms)
    also have "\<exists>m''. \<dots> = Some (getDataPtr (of_nat (b + 8 + n)), m'')"
      using nz(2) r(4,5) fit by (subst allocate.simps) (simp add: Let_def del: of_nat_add)
    moreover have "getDataPtr (of_nat (b + 8 + n)) = of_nat (q + n + 8)"
      by (simp add: getDataPtr_def heapEntry_headerSize_def q(1) add.commute add.left_commute)
    ultimately show ?thesis using assms(4) by (simp add: kalloc_def)
  qed
  then show ?thesis using first r(5) size q(1) by (intro exI [of _ m']) (simp add: add.assoc)
qed

text \<open>In a heap of 36 bytes, \<open>kalloc(16)\<close> leaves 4 bytes, and \<open>kalloc(100)\<close> then returns memory beyond the end of the heap.\<close>

theorem small_remainder_overruns_witness:
  "\<exists>g m m' m''. heapInitialize (\<lambda>_. 0) 0x1000 36 = (g, m) \<and> kalloc g m 16 = Some (0x1008, m') \<and>
     kalloc g m' 100 = Some (0x1020, m'') \<and> 0x1020 + 100 > heapEnd g + heapEntry_headerSize"
proof -
  obtain g m where g: "heapInitialize (\<lambda>_. 0) (of_nat 0x1000) (of_nat 36) = (g, m)" by fastforce
  then have h: "heap g = of_nat 0x1000" "heapEnd g = 0x101c" by (auto simp: heapInitialize_def Let_def heapEntry_headerSize_def)
  have rep: "heap_rep m 0x1000 [(False, 20)]" using heapInitialize_rep [OF _ _ _ _ g] by simp
  obtain m' where r: "kalloc g m (of_nat 16) = Some (of_nat 0x1008, m')"
    "\<forall>k. 16 \<le> k \<and> k \<le> 2 ^ 32 - 8 \<longrightarrow> (\<exists>m''. kalloc g m' (of_nat k) = Some (of_nat (0x1008 + 16 + 8), m''))"
    using small_remainder_overruns [OF _ _ rep h(1), of "[]" 20 "[]" 16 "0x1008"] by auto
  from r(2) [rule_format, of 100] obtain m'' where "kalloc g m' 100 = Some (0x1020, m'')" by auto
  with r(1) g h(2) show ?thesis by (auto simp: heapEntry_headerSize_def)
qed

end
