(* ===== verification/MemDetect.thy ===== *)
theory MemDetect
  imports Heap
begin

text \<open>
  Memory detection: \<open>lib/earlyLib/memoryDetection16.cpp\<close>, its header, the struct
  \<open>mmap_structure_entry\<close> of \<open>include/sys/multiboot.h\<close> and the real-mode stubs \<open>asmCall_int12.S\<close> and
  \<open>asmCall_int15.S\<close>. The two BIOS services are parameters: int 12h gives the carry flag and
  \<open>AX\<close>; int 15h, function \<open>E820h\<close>, maps the memory, \<open>ES\<close>, \<open>DI\<close> and \<open>EBX\<close> to the carry flag, the new \<open>EBX\<close>,
  \<open>EAX\<close> and \<open>ECX\<close>, and the new memory.
\<close>

section \<open>The operations\<close>

text \<open>\<open>struct mmap_structure_entry\<close>: no padding on this target, 28 bytes.\<close>

record mmap_structure_entry =
  entry_length :: u32
  base_addr :: u64
  length_field :: u64
  type_field :: u32
  acpi_3_0_extended :: u32

definition mmap_entry_size :: u32 where
  "mmap_entry_size = 28"

definition mmap_entry_at :: "memory \<Rightarrow> u32 \<Rightarrow> mmap_structure_entry" where
  "mmap_entry_at m a = \<lparr>entry_length = load32 m a, base_addr = load64 m (a + 4), length_field = load64 m (a + 12),
     type_field = load32 m (a + 20), acpi_3_0_extended = load32 m (a + 24)\<rparr>"

type_synonym bios12 = "bool \<times> u16"

definition asmCall_int12 :: "bios12 \<Rightarrow> u32" where
  "asmCall_int12 b = (case b of (carry, ax) \<Rightarrow> if carry then 0 else ucast ax)"

definition queryLowerMemory_msg :: panic where
  "queryLowerMemory_msg = ''queryLowerMemory(): Failure to query lower memory!''"

definition queryLowerMemory :: "bios12 \<Rightarrow> u32 outcome" where
  "queryLowerMemory b = (let result = asmCall_int12 b in
     if result = 0 then Inl queryLowerMemory_msg else Inr result)"

type_synonym bios15 = "memory \<Rightarrow> u16 \<Rightarrow> u16 \<Rightarrow> u32 \<Rightarrow> bool \<times> u32 \<times> u32 \<times> u32 \<times> memory"

text \<open>The registers the stub stores through its pointer arguments.\<close>

record int15_regs =
  r_ebx :: u32
  r_eax :: u32
  r_ecx :: u32
  r_carry :: u32

definition asmCall_int15 :: "bios15 \<Rightarrow> memory \<Rightarrow> u32 \<Rightarrow> u32 \<Rightarrow> u32 \<Rightarrow> int15_regs \<Rightarrow> int15_regs \<times> memory" where
  "asmCall_int15 bios m offset segment ebx r =
     (case bios m (ucast segment) (ucast offset) ebx of (carry, ebx', eax', ecx', m') \<Rightarrow>
        if carry then (r\<lparr>r_carry := 1\<rparr>, m')
        else (r\<lparr>r_ebx := ebx', r_eax := eax', r_ecx := ecx'\<rparr>, m'))"

definition eaxSignature :: u32 where
  "eaxSignature = 0x534D4150"

definition mmap_maxSize :: u32 where
  "mmap_maxSize = 100"

definition upper_carry_msg :: panic where
  "upper_carry_msg = ''queryUpperMemory(): Failure! Carry was set''"

definition upper_signature_msg :: panic where
  "upper_signature_msg = ''queryUpperMemory(): Failure! %eax is different than signature''"

definition upper_toobig_msg :: panic where
  "upper_toobig_msg = ''queryUpperMemory(): Failure! List got a little too big''"

partial_function (option) queryUpper_loop ::
  "bios15 \<Rightarrow> memory \<Rightarrow> u32 \<Rightarrow> u32 \<Rightarrow> int15_regs \<Rightarrow> (u32 \<times> memory) run" where
  "queryUpper_loop bios m mmapPtr n r =
     (let currPtr = mmapPtr + mmap_entry_size * n;
          offset = currPtr mod 16;
          segment = (currPtr - offset) div 16;
          (r, m) = asmCall_int15 bios m offset segment (r_ebx r) r
      in if r_carry r \<noteq> 0 then Some (Inl upper_carry_msg)
         else if r_eax r \<noteq> eaxSignature then Some (Inl upper_signature_msg)
         else let n = (if r_ecx r \<le> 20 \<or> acpi_3_0_extended (mmap_entry_at m currPtr) AND 1 = 0 then n + 1 else n)
              in if n \<ge> mmap_maxSize then Some (Inl upper_toobig_msg)
                 else if r_ebx r \<noteq> 0 then queryUpper_loop bios m mmapPtr n r
                 else Some (Inr (n, m)))"

text \<open>The struct \<open>upperMemory_mmap_struct\<close> is a size at offset 0 and a pointer at offset 4.\<close>

definition queryUpperMemory :: "bios15 \<Rightarrow> heap_vars \<Rightarrow> memory \<Rightarrow> (u32 \<times> memory) run" where
  "queryUpperMemory bios g m =
     (case kalloc g m (mmap_maxSize * mmap_entry_size) of None \<Rightarrow> None | Some (mmapPtr, m) \<Rightarrow>
      (case queryUpper_loop bios m mmapPtr 0 \<lparr>r_ebx = 0, r_eax = 0, r_ecx = 0, r_carry = 0\<rparr> of
         None \<Rightarrow> None | Some (Inl e) \<Rightarrow> Some (Inl e)
       | Some (Inr (n, m)) \<Rightarrow>
         (case kalloc g m 8 of None \<Rightarrow> None | Some (ret, m) \<Rightarrow>
            Some (Inr (ret, store32 (store32 m ret n) (ret + 4) mmapPtr)))))"

partial_function (option) upperSize_loop :: "memory \<Rightarrow> u32 \<Rightarrow> u32 \<Rightarrow> u32 \<Rightarrow> u32 option" where
  "upperSize_loop m entry stop finalSize =
     (if entry < stop then
        let test = ucast finalSize + length_field (mmap_entry_at m entry)
        in if test > 0xffffffff then Some 0
           else upperSize_loop m (entry + mmap_entry_size) stop (ucast (test :: u64))
      else Some finalSize)"

definition getUpperMemorySize :: "memory \<Rightarrow> u32 \<Rightarrow> u32 option" where
  "getUpperMemorySize m ptr =
     (let numEntries = load32 m ptr; mmapPtr = load32 m (ptr + 4)
      in upperSize_loop m mmapPtr (mmapPtr + mmap_entry_size * numEntries) 0)"

declare queryUpper_loop.simps [code] upperSize_loop.simps [code]

section \<open>Summing the lengths\<close>

definition entry_lengths :: "memory \<Rightarrow> u32 \<Rightarrow> nat \<Rightarrow> nat list" where
  "entry_lengths m a n = map (\<lambda>k. unat (length_field (mmap_entry_at m (a + 28 * of_nat k)))) [0..<n]"

lemma entry_lengths_Suc:
  "entry_lengths m a (Suc n) = unat (length_field (mmap_entry_at m a)) # entry_lengths m (a + 28) n"
  unfolding entry_lengths_def upt_conv_Cons [OF zero_less_Suc]
  by (simp add: map_Suc_upt [symmetric] algebra_simps del: upt_Suc)

lemma upperSize_loop_sum:
  assumes "unat entry + 28 * n < 2 ^ 32" "\<forall>l \<in> set (entry_lengths m entry n). l < 2 ^ 63"
  shows "upperSize_loop m entry (entry + 28 * of_nat n) acc =
    Some (if unat acc + sum_list (entry_lengths m entry n) < 2 ^ 32
          then of_nat (unat acc + sum_list (entry_lengths m entry n)) else 0)"
  using assms
proof (induction n arbitrary: entry acc)
  case 0
  then show ?case
    using unat_less_2pow [of acc] by (subst upperSize_loop.simps) (simp add: entry_lengths_def)
next
  case (Suc n)
  let ?l = "length_field (mmap_entry_at m entry)" and ?last = "entry + 28 * of_nat (Suc n)"
  have l: "unat ?l < 2 ^ 63" and rest: "\<forall>l \<in> set (entry_lengths m (entry + 28) n). l < 2 ^ 63"
    using Suc.prems(2) by (simp_all add: entry_lengths_Suc)
  have u: "unat (entry + 28) = unat entry + 28" using Suc.prems(1) by (simp add: unat_word_ariths)
  have "unat ?last = unat entry + 28 * Suc n"
    using Suc.prems(1) by (simp add: unat_word_ariths unat_of_nat)
  then have less: "entry < ?last" by (simp add: word_less_nat_alt)
  have last: "?last = entry + 28 + 28 * of_nat n" by (simp add: algebra_simps)
  have "unat (ucast acc :: u64) = unat acc" by (simp add: unat_ucast_up)
  moreover have "unat acc < 2 ^ 32" using unat_less_2pow [of acc] by simp
  ultimately have t: "unat (ucast acc + ?l) = unat acc + unat ?l" using l by (simp add: unat_word_ariths)
  then have big: "ucast acc + ?l > 0xffffffff \<longleftrightarrow> \<not> unat acc + unat ?l < 2 ^ 32" by (auto simp: word_less_nat_alt)
  show ?case
  proof (cases "unat acc + unat ?l < 2 ^ 32")
    case True
    then have "unat (ucast (ucast acc + ?l) :: u32) = unat acc + unat ?l"
      using t by (simp add: unsigned_ucast_eq take_bit_nat_eq_self_iff)
    then show ?thesis
      using Suc.IH [OF _ rest, of "ucast (ucast acc + ?l)"] Suc.prems(1) u less True big
      by (subst upperSize_loop.simps) (simp add: Let_def mmap_entry_size_def entry_lengths_Suc last add.assoc)
  next
    case False
    then show ?thesis
      using less big by (subst upperSize_loop.simps) (simp add: Let_def entry_lengths_Suc)
  qed
qed

section \<open>Collecting the map\<close>

text \<open>An entry as the BIOS lays it out, 20 bytes from the given address.\<close>

record e820 =
  e820_base :: u64
  e820_length :: u64
  e820_type :: u32

definition put_e820 :: "memory \<Rightarrow> u32 \<Rightarrow> e820 \<Rightarrow> memory" where
  "put_e820 m a e = store32 (store64 (store64 m a (e820_base e)) (a + 8) (e820_length e)) (a + 16) (e820_type e)"

definition e820_at :: "memory \<Rightarrow> u32 \<Rightarrow> e820" where
  "e820_at m a = \<lparr>e820_base = load64 m a, e820_length = load64 m (a + 8), e820_type = load32 m (a + 16)\<rparr>"

text \<open>
  An answer of the service is an entry of 20 bytes, or of 24 when a word of extended attributes follows at offset 20. The service enumerates
  the answers \<open>A\<close> and returns in \<open>EBX\<close> a continuation value
  for the next one, 0 after the last; the values in between are its own choice (\<open>cont\<close>).
\<close>

type_synonym answer = "e820 \<times> u32 option"

definition answer_size :: "answer \<Rightarrow> u32" where
  "answer_size x = (case snd x of None \<Rightarrow> 20 | Some attributes \<Rightarrow> 24)"

definition put_answer :: "memory \<Rightarrow> u32 \<Rightarrow> answer \<Rightarrow> memory" where
  "put_answer m a x = (case snd x of None \<Rightarrow> put_e820 m a (fst x) | Some attributes \<Rightarrow> store32 (put_e820 m a (fst x)) (a + 20) attributes)"

definition bios_answers :: "bios15 \<Rightarrow> (nat \<Rightarrow> u32) \<Rightarrow> answer list \<Rightarrow> bool" where
  "bios_answers bios cont A \<longleftrightarrow> cont 0 = 0 \<and> (\<forall>k. cont (Suc k) \<noteq> 0) \<and>
     (\<forall>k < length A. \<forall>m es di. bios m es di (cont k) =
        (False, if Suc k = length A then 0 else cont (Suc k), 0x534D4150, answer_size (A ! k),
         put_answer m (16 * ucast es + ucast di) (A ! k)))"

text \<open>A service whose answers all have 20 bytes.\<close>

definition bios_map :: "bios15 \<Rightarrow> (nat \<Rightarrow> u32) \<Rightarrow> e820 list \<Rightarrow> bool" where
  "bios_map bios cont T \<longleftrightarrow> cont 0 = 0 \<and> (\<forall>k. cont (Suc k) \<noteq> 0) \<and>
     (\<forall>k < length T. \<forall>m es di. bios m es di (cont k) =
        (False, if Suc k = length T then 0 else cont (Suc k), 0x534D4150, 20,
         put_e820 m (16 * ucast es + ucast di) (T ! k)))"

lemma bios_map_answers: "bios_map bios cont T \<Longrightarrow> bios_answers bios cont (map (\<lambda>e. (e, None)) T)"
  by (simp add: bios_map_def bios_answers_def answer_size_def put_answer_def)

text \<open>
  The test of the code for an answer of 24 bytes reads the word at offset 24 of the slot, which is the member \<open>acpi_3_0_extended\<close> behind the
  unused first member, and which the service does not write: the answers that are kept depend on the memory \<open>m\<close> before the first call. A slot whose answer
  is discarded is used again for the next one.
\<close>

definition keeps :: "memory \<Rightarrow> u32 \<Rightarrow> answer \<Rightarrow> bool" where
  "keeps m a x \<longleftrightarrow> snd x = None \<or> load32 m (a + 24) AND 1 = 0"

fun collect :: "memory \<Rightarrow> u32 \<Rightarrow> answer list \<Rightarrow> e820 list" where
  "collect m a [] = []"
| "collect m a (x # A) = (if keeps m a x then fst x # collect m (a + 28) A else collect m a A)"

fun put_answers :: "memory \<Rightarrow> u32 \<Rightarrow> answer list \<Rightarrow> memory" where
  "put_answers m a [] = m"
| "put_answers m a (x # A) = put_answers (put_answer m a x) (if keeps m a x then a + 28 else a) A"

lemma collect_20: "\<forall>x \<in> set A. snd x = None \<Longrightarrow> collect m a A = map fst A"
  by (induction m a A rule: collect.induct) (auto simp: keeps_def)

lemma collect_length: "length (collect m a A) \<le> length A"
  by (induction m a A rule: collect.induct) (auto simp: le_SucI)

lemma put_e820_other: "\<not> x - a < 20 \<Longrightarrow> put_e820 m a e x = m x"
proof -
  assume "\<not> x - a < 20"
  then have "\<not> x - (a + 16) < 4" "\<not> x - (a + 8) < 8" "\<not> x - a < 8" by uint_arith+
  then show ?thesis by (simp add: put_e820_def store32_other store64_other)
qed

lemma e820_at_cong:
  assumes "\<And>k. k < 20 \<Longrightarrow> m' (a + k) = m (a + k)"
  shows "e820_at m' a = e820_at m a"
proof -
  have sub: "\<And>k. k < 8 \<Longrightarrow> (8 + k :: u32) < 20" "\<And>k. k < 4 \<Longrightarrow> (16 + k :: u32) < 20" "\<And>k. k < 8 \<Longrightarrow> (k :: u32) < 20"
    by uint_arith+
  have "load64 m' a = load64 m a" by (rule load64_cong) (simp add: assms sub)
  moreover have "load64 m' (a + 8) = load64 m (a + 8)"
    by (rule load64_cong) (simp add: assms sub add.assoc)
  moreover have "load32 m' (a + 16) = load32 m (a + 16)"
    by (rule load32_cong) (simp add: assms sub add.assoc)
  ultimately show ?thesis by (simp add: e820_at_def)
qed

lemma e820_put: "e820_at (put_e820 m a e) a = e"
proof -
  have "load32 (put_e820 m a e) (a + 16) = e820_type e" by (simp add: put_e820_def mem_simps)
  moreover have "load64 (put_e820 m a e) (a + 8) = load64 (store64 m' (a + 8) (e820_length e)) (a + 8)"
    if "m' = store64 m a (e820_base e)" for m'
    unfolding put_e820_def that
    by (rule load64_cong, rule store32_other) (simp add: word_less_nat_alt unat_sub_if')
  moreover have "load64 (put_e820 m a e) a = load64 (store64 m a (e820_base e)) a"
    unfolding put_e820_def
    by (rule load64_cong, subst store32_other, simp add: word_less_nat_alt unat_sub_if', rule store64_other)
      (simp add: word_less_nat_alt unat_sub_if')
  ultimately show ?thesis by (simp add: e820_at_def mem_simps)
qed

lemma put_answer_other: "\<not> x - a < 24 \<Longrightarrow> put_answer m a y x = m x"
proof -
  assume "\<not> x - a < 24"
  then have "\<not> x - (a + 20) < 4" "\<not> x - a < 20" by uint_arith+
  then show ?thesis by (simp add: put_answer_def store32_other put_e820_other split: option.split)
qed

lemma answer_put: "e820_at (put_answer m a y) a = fst y"
proof (cases "snd y")
  case (Some v)
  have "put_answer m a y (a + k) = put_e820 m a (fst y) (a + k)" if "k < 20" for k
  proof -
    have "\<not> a + k - (a + 20) < 4" using that by (simp add: word_less_nat_alt unat_sub_if')
    then show ?thesis by (simp add: put_answer_def Some store32_other)
  qed
  then show ?thesis using e820_at_cong [of _ a "put_e820 m a (fst y)"] e820_put by simp
qed (simp add: put_answer_def e820_put)

text \<open>The word that is tested is in no slot's answer.\<close>

lemma slot_word:
  assumes "28 * k + 28 < 2 ^ 32"
  shows "load32 (put_answer m a y) (a + 28 * of_nat k + 24) = load32 m (a + 28 * of_nat k + 24)"
proof (rule load32_cong, rule put_answer_other)
  fix j :: u32 assume "j < 4"
  then have "unat (28 * of_nat k + 24 + j) = 28 * k + 24 + unat j"
    using assms by (simp add: word_less_nat_alt unat_word_ariths unat_of_nat)
  moreover have "a + 28 * of_nat k + 24 + j - a = 28 * of_nat k + 24 + j" by simp
  ultimately show "\<not> a + 28 * of_nat k + 24 + j - a < 24" by (simp only: word_less_nat_alt) simp
qed

lemma collect_cong:
  "\<forall>k < length A. load32 m' (a + 28 * of_nat k + 24) = load32 m (a + 28 * of_nat k + 24) \<Longrightarrow> collect m' a A = collect m a A"
proof (induction m a A rule: collect.induct)
  case (2 m a x A)
  have k: "keeps m' a x = keeps m a x" using "2.prems" by (auto simp: keeps_def dest: spec [of _ 0])
  have here: "\<forall>k < length A. load32 m' (a + 28 * of_nat k + 24) = load32 m (a + 28 * of_nat k + 24)" using "2.prems" by simp
  have nxt: "\<forall>k < length A. load32 m' (a + 28 + 28 * of_nat k + 24) = load32 m (a + 28 + 28 * of_nat k + 24)"
  proof (intro allI impI)
    fix k assume "k < length A"
    then have "Suc k < length (x # A)" by simp
    with "2.prems" have "load32 m' (a + 28 * of_nat (Suc k) + 24) = load32 m (a + 28 * of_nat (Suc k) + 24)" by blast
    then show "load32 m' (a + 28 + 28 * of_nat k + 24) = load32 m (a + 28 + 28 * of_nat k + 24)" by (simp add: algebra_simps)
  qed
  show ?case using "2.IH"(1) [OF _ nxt] "2.IH"(2) [OF _ here] k by simp
qed simp

lemma collect_put:
  assumes "28 * length A + 28 < 2 ^ 32"
  shows "collect (put_answer m a y) a A = collect m a A" and "collect (put_answer m a y) (a + 28) A = collect m (a + 28) A"
proof -
  have "load32 (put_answer m a y) (a + 28 * of_nat k + 24) = load32 m (a + 28 * of_nat k + 24)" if "k \<le> length A" for k
    by (rule slot_word) (use that assms in simp)
  note w = this
  show "collect (put_answer m a y) a A = collect m a A" by (rule collect_cong) (simp add: w)
  show "collect (put_answer m a y) (a + 28) A = collect m (a + 28) A"
  proof (rule collect_cong, intro allI impI)
    fix k assume "k < length A"
    then show "load32 (put_answer m a y) (a + 28 + 28 * of_nat k + 24) = load32 m (a + 28 + 28 * of_nat k + 24)"
      using w [of "Suc k"] by (simp add: algebra_simps)
  qed
qed

lemma put_answers_outside:
  "28 * length A \<le> unat (x - a) \<Longrightarrow> 28 * length A < 2 ^ 32 \<Longrightarrow> put_answers m a A x = m x"
proof (induction m a A rule: put_answers.induct)
  case (2 m a y A)
  then have "28 \<le> unat (x - a)" by simp
  then have "unat (x - (a + 28)) = unat (x - a) - 28" "\<not> x - a < 24"
    by (auto simp: diff_diff_eq [symmetric] unat_sub_if' [of "x - a"] word_less_nat_alt simp del: diff_diff_eq)
  with 2 show ?case by (cases "keeps m a y") (simp_all add: put_answer_other)
qed simp

lemma put_answers_entry:
  "k < length (collect m a A) \<Longrightarrow> 28 * length A < 2 ^ 32 \<Longrightarrow> e820_at (put_answers m a A) (a + 28 * of_nat k) = collect m a A ! k"
proof (induction m a A arbitrary: k rule: put_answers.induct)
  case (2 m a x A)
  have len: "28 * length A + 28 < 2 ^ 32" using "2.prems"(2) by simp
  note put = collect_put [OF len, of m a x]
  show ?case
  proof (cases "keeps m a x")
    case False
    with 2 put show ?thesis by simp
  next
    case True
    note keep = this
    show ?thesis
    proof (cases k)
      case 0
      have "put_answers (put_answer m a x) (a + 28) A (a + j) = put_answer m a x (a + j)" if "j < 20" for j
      proof (rule put_answers_outside)
        have "unat (a + j - (a + 28)) = unat j + 2 ^ 32 - 28"
          using that by (simp add: unat_sub_if' word_less_nat_alt)
        then show "28 * length A \<le> unat (a + j - (a + 28))" using len by simp
        show "28 * length A < 2 ^ 32" using len by simp
      qed
      then show ?thesis using 0 keep e820_at_cong [of _ a "put_answer m a x"] answer_put by simp
    next
      case (Suc j)
      then have "e820_at (put_answers (put_answer m a x) (a + 28) A) (a + 28 + 28 * of_nat j) = collect (put_answer m a x) (a + 28) A ! j"
        using 2 keep put len by (auto simp: if_P)
      then show ?thesis using Suc keep put by (simp add: algebra_simps)
    qed
  qed
qed simp

lemma segment_offset:
  assumes "unat a < 2 ^ 20"
  shows "16 * ucast (ucast ((a - a mod 16) div 16) :: u16) + ucast (ucast (a mod 16) :: u16) = (a :: u32)"
proof -
  let ?o = "a mod 16" and ?s = "(a - a mod 16) div 16"
  have o: "unat ?o = unat a mod 16" by (simp add: unat_mod)
  have le: "?o \<le> a" by (simp add: word_le_nat_alt o)
  have s: "unat ?s = unat a div 16"
    unfolding unat_div unat_sub [OF le] o by (simp add: minus_mod_eq_mult_div)
  have "unat (ucast (ucast ?s :: u16) :: u32) = unat a div 16"
    using assms s by (subst unat_ucast_up, simp, subst unat_ucast_small) simp_all
  moreover have "unat (ucast (ucast ?o :: u16) :: u32) = unat a mod 16"
    using o by (subst unat_ucast_up, simp, subst unat_ucast_small) (simp_all add: less_trans [OF mod_less_divisor])
  ultimately show ?thesis
    using assms by (simp add: word_unat_eq_iff unat_word_ariths)
qed

text \<open>One round of the loop.\<close>

lemma queryUpper_loop_step:
  fixes m :: memory
  assumes "bios_answers bios cont A" "k < length A" "n < 99" "unat p + 2800 \<le> 2 ^ 20" "r_ebx r = cont k" "r_carry r = 0"
  defines "a \<equiv> p + 28 * of_nat n" and "n' \<equiv> (if keeps m (p + 28 * of_nat n) (A ! k) then Suc n else n)"
  shows "\<exists>r'. r_carry r' = 0 \<and> r_ebx r' = (if Suc k = length A then 0 else cont (Suc k)) \<and>
    queryUpper_loop bios m p (of_nat n) r =
      (if Suc k = length A then Some (Inr (of_nat n', put_answer m a (A ! k))) else queryUpper_loop bios (put_answer m a (A ! k)) p (of_nat n') r')"
proof -
  have "unat a < 2 ^ 20" using assms(3,4) by (simp add: a_def unat_word_ariths unat_of_nat)
  note lin = segment_offset [OF this]
  let ?next = "if Suc k = length A then 0 else cont (Suc k)" and ?m = "put_answer m a (A ! k)"
  let ?r = "r\<lparr>r_ebx := ?next, r_eax := 0x534D4150, r_ecx := answer_size (A ! k)\<rparr>"
  have b: "bios m es di (cont k) = (False, ?next, 0x534D4150, answer_size (A ! k), put_answer m (16 * ucast es + ucast di) (A ! k))" for m es di
    using assms(1,2) by (simp add: bios_answers_def)
  have next0: "?next = 0 \<longleftrightarrow> Suc k = length A" using assms(1) by (simp add: bios_answers_def)
  have "load32 ?m (a + 24) = load32 m (a + 24)" using slot_word [of 0 m a "A ! k"] by simp
  then have keep: "answer_size (A ! k) \<le> 20 \<or> acpi_3_0_extended (mmap_entry_at ?m a) AND 1 = 0 \<longleftrightarrow> keeps m a (A ! k)"
    by (auto simp: answer_size_def keeps_def mmap_entry_at_def split: option.splits)
  have "n' < 100" using assms(3) by (simp add: n'_def)
  then have n': "(if keeps m a (A ! k) then of_nat n + 1 else of_nat n :: u32) = of_nat n'" "\<not> (of_nat n' :: u32) \<ge> 100"
    using \<open>n' < 100\<close> by (simp_all add: word_le_nat_alt unat_of_nat) (simp add: n'_def a_def)
  have addr: "p + mmap_entry_size * of_nat n = a" by (simp add: a_def mmap_entry_size_def)
  have call: "asmCall_int15 bios m (a mod 16) ((a - a mod 16) div 16) (r_ebx r) r = (?r, ?m)"
    using b lin assms(5) by (simp add: asmCall_int15_def add.commute)
  have "queryUpper_loop bios m p (of_nat n) r = (if ?next \<noteq> 0 then queryUpper_loop bios ?m p (of_nat n') ?r else Some (Inr (of_nat n', ?m)))"
    unfolding queryUpper_loop.simps [of bios m p "of_nat n" r] addr Let_def call prod.case
    using keep n' assms(6) by (simp add: eaxSignature_def mmap_maxSize_def)
  then show ?thesis using next0 assms(6) by (intro exI [of _ ?r]) simp
qed

lemma queryUpper_loop_collects:
  assumes "bios_answers bios cont A" "unat p + 2800 \<le> 2 ^ 20"
    and "n + (length A - k) < 100" "k < length A" "r_ebx r = cont k" "r_carry r = 0"
  shows "queryUpper_loop bios m p (of_nat n) r = Some (Inr (of_nat (n + length (collect m (p + 28 * of_nat n) (drop k A))),
    put_answers m (p + 28 * of_nat n) (drop k A)))"
  using assms(3-)
proof (induction "length A - Suc k" arbitrary: k n r m)
  case (0 k n r m)
  then have k: "Suc k = length A" and n: "n < 99" by simp_all
  have d: "drop k A = [A ! k]" using k by (simp add: Cons_nth_drop_Suc [symmetric])
  show ?case
    using queryUpper_loop_step [OF assms(1) "0.prems"(2) n assms(2) "0.prems"(3,4), of m] k by (auto simp: d)
next
  case (Suc j k n r m)
  then have k: "Suc k < length A" and n: "n < 99" by simp_all
  let ?a = "p + 28 * of_nat n" and ?x = "A ! k"
  let ?n' = "if keeps m ?a ?x then Suc n else n" and ?m = "put_answer m ?a ?x"
  have d: "drop k A = ?x # drop (Suc k) A" using k by (simp add: Cons_nth_drop_Suc)
  obtain r' where r': "r_carry r' = 0" "r_ebx r' = cont (Suc k)"
      "queryUpper_loop bios m p (of_nat n) r = queryUpper_loop bios ?m p (of_nat ?n') r'"
    using queryUpper_loop_step [OF assms(1) Suc.prems(2) n assms(2) Suc.prems(3,4), of m] k by auto
  have IH: "queryUpper_loop bios ?m p (of_nat ?n') r' = Some (Inr (of_nat (?n' + length (collect ?m (p + 28 * of_nat ?n') (drop (Suc k) A))),
      put_answers ?m (p + 28 * of_nat ?n') (drop (Suc k) A)))"
    using Suc.hyps(1) [of "Suc k" ?n' r' ?m] Suc.hyps(2) Suc.prems(1) k r'(1,2) by auto
  have "28 * length (drop (Suc k) A) + 28 < 2 ^ 32" using Suc.prems(1) by simp
  note put = collect_put [OF this, of m ?a ?x]
  have a': "p + 28 * of_nat (Suc n) = ?a + 28" by (simp add: algebra_simps)
  show ?case
    unfolding r'(3) IH d collect.simps put_answers.simps
    by (cases "keeps m ?a ?x") (simp_all only: if_True if_False a' put list.size add_Suc_right add_Suc add_0_right simp_thms)
qed

lemma put_answers_owner:
  assumes "arena a len m L k" "(unat p, 2800) \<in> L" "length A < 100"
  shows "arena a len (put_answers m p A) L k" and "b \<in> L \<Longrightarrow> b \<noteq> (unat p, 2800) \<Longrightarrow> same_block b m (put_answers m p A)"
    and "heap_only a len m (put_answers m p A)"
proof -
  have b: "unat p + 2800 \<le> 2 ^ 32" "a + len \<le> 2 ^ 32" using arena_inside [OF assms(1,2)] by auto
  have out: "put_answers m p A (of_nat x) = m (of_nat x)" if "x < 2 ^ 32" "\<not> (unat p \<le> x \<and> x < unat p + 2800)" for x
  proof (rule put_answers_outside)
    have "2800 \<le> unat (of_nat x - p)" using that b by (auto simp: unat_sub_if' unat_of_nat)
    then show "28 * length A \<le> unat (of_nat x - p)" using assms(3) by simp
  qed (use assms(3) in simp)
  show "heap_only a len m (put_answers m p A)" by (rule owner_only [OF assms(1,2)]) (rule out)
  have "put_answers m p A (of_nat x) = m (of_nat x)" if "a \<le> x" "x < a + len" "\<not> (unat p \<le> x \<and> x < unat p + 2800)" for x
    using out that b(2) by auto
  then show "arena a len (put_answers m p A) L k" and "b \<in> L \<Longrightarrow> b \<noteq> (unat p, 2800) \<Longrightarrow> same_block b m (put_answers m p A)"
    using owner_write [OF assms(1,2)] by blast+
qed

lemma e820_at_same_block:
  assumes "same_block (unat p, 2800) m m'" "k < 100"
  shows "e820_at m' (p + 28 * of_nat k) = e820_at m (p + 28 * of_nat k)"
proof (rule e820_at_cong)
  fix j :: u32 assume "j < 20"
  then have j: "unat j < 20" by (simp add: word_less_nat_alt)
  let ?x = "unat p + 28 * k + unat j"
  have "28 * k + unat j < 2800" using j assms(2) by simp
  then have "m' (of_nat ?x) = m (of_nat ?x)"
    using assms(1) unfolding same_block_def by (simp del: of_nat_add of_nat_mult)
  then show "m' (p + 28 * of_nat k + j) = m (p + 28 * of_nat k + j)" by simp
qed

lemma queryUpper_answers:
  assumes "bios_answers bios cont A" "A \<noteq> []" "length A < 100"
    and "arena (unat (heap g)) len m L (2824 + k)" "unat (heap g) + len \<le> 2 ^ 20"
  shows "\<exists>p m1 ret m'. kalloc g m 2800 = Some (p, m1) \<and> queryUpperMemory bios g m = Some (Inr (ret, m')) \<and> ret \<noteq> 0 \<and> p \<noteq> 0 \<and>
    load32 m' ret = of_nat (length (collect m1 p A)) \<and> load32 m' (ret + 4) = p \<and>
    (\<forall>k < length (collect m1 p A). e820_at m' (p + 28 * of_nat k) = collect m1 p A ! k) \<and>
    arena (unat (heap g)) len m' ({(unat ret, 8), (unat p, 2800)} \<union> L) k \<and>
    unat p \<notin> fst ` L \<and> unat ret \<notin> fst ` L \<and> (\<forall>b \<in> L. same_block b m m') \<and> heap_only (unat (heap g)) len m m'"
proof -
  let ?h = "unat (heap g)"
  have "arena ?h len m L (2800 + 8 + (8 + 8 + k))" using assms(4) by (simp add: add.assoc)
  from arena_kalloc [OF this] obtain p m1 where k: "kalloc g m 2800 = Some (p, m1)" "p \<noteq> 0"
    and ok1: "arena ?h len m1 (insert (unat p, 2800) L) (8 + 8 + k)"
    and new: "unat p \<notin> fst ` L" and s1: "\<forall>b \<in> L. same_block b m m1" and h1: "heap_only ?h len m m1"
    by auto
  let ?L1 = "insert (unat p, 2800) L" and ?K = "collect m1 p A"
  have K: "length ?K < 100" using collect_length [of m1 p A] assms(3) by simp
  have pb: "unat p + 2800 + 8 \<le> 2 ^ 20" using arena_inside [OF ok1, of "unat p" 2800] assms(5) by auto
  let ?m2 = "put_answers m1 p A"
  have loop: "queryUpper_loop bios m1 p 0 \<lparr>r_ebx = 0, r_eax = 0, r_ecx = 0, r_carry = 0\<rparr> = Some (Inr (of_nat (length ?K), ?m2))"
    using queryUpper_loop_collects [OF assms(1), of p 0 0 "\<lparr>r_ebx = 0, r_eax = 0, r_ecx = 0, r_carry = 0\<rparr>" m1]
      pb assms(1-3) by (simp add: bios_answers_def)
  have ok2: "arena ?h len ?m2 ?L1 (8 + 8 + k)" and s2: "\<forall>b \<in> L. same_block b m1 ?m2"
    using put_answers_owner(1) [OF ok1 _ assms(3)] put_answers_owner(2) [OF ok1 _ assms(3)] new by force+
  from arena_kalloc [OF ok2] obtain ret m3 where r: "kalloc g ?m2 8 = Some (ret, m3)" "ret \<noteq> 0"
    and ok3: "arena ?h len m3 (insert (unat ret, 8) ?L1) k"
    and rn: "unat ret \<notin> fst ` ?L1" and s3: "\<forall>b \<in> ?L1. same_block b ?m2 m3" and h3: "heap_only ?h len ?m2 m3"
    by auto
  let ?m4 = "store32 m3 ret (of_nat (length ?K))" and ?L2 = "insert (unat ret, 8) ?L1"
  let ?m' = "store32 ?m4 (ret + 4) p"
  have q: "queryUpperMemory bios g m = Some (Inr (ret, ?m'))"
    using k loop r(1) by (simp add: queryUpperMemory_def mmap_maxSize_def mmap_entry_size_def)
  have "sep (ret + 4) 4 ret 4" by (simp add: sep_def word_le_nat_alt)
  then have fields: "load32 ?m' ret = of_nat (length ?K)" "load32 ?m' (ret + 4) = p" by (simp_all add: mem_simps)
  have ok4: "arena ?h len ?m4 ?L2 k" and s4: "\<forall>b \<in> ?L1. same_block b m3 ?m4"
    using owner_store32(1) [OF ok3, of ret 8 0] owner_store32(2) [OF ok3, of ret 8 0] rn by force+
  have ok5: "arena ?h len ?m' ?L2 k" and s5: "\<forall>b \<in> ?L1. same_block b ?m4 ?m'"
    using owner_store32(1) [OF ok4, of ret 8 4] owner_store32(2) [OF ok4, of ret 8 4] rn by force+
  have same: "same_block b ?m2 ?m'" if "b \<in> ?L1" for b
    using that s3 s4 s5 same_block_trans by meson
  then have "same_block b m ?m'" if "b \<in> L" for b
    using that s1 s2 same_block_trans by (meson insertI2)
  moreover have "e820_at ?m' (p + 28 * of_nat k) = ?K ! k" if "k < length ?K" for k
    using that same [of "(unat p, 2800)"] e820_at_same_block [of p ?m2 ?m' k] put_answers_entry [OF that] assms(3) K
    by simp
  moreover have "heap_only ?h len m ?m'"
  proof -
    have p: "(unat p, 2800) \<in> ?L1" and r: "(unat ret, 8) \<in> ?L2" by simp_all
    note h1
    also note put_answers_owner(3) [OF ok1 p assms(3)]
    also note h3
    also have "heap_only ?h len m3 ?m4" using owner_store32_only [OF ok3 r, of 0 0] by simp
    also have "heap_only ?h len ?m4 ?m'" by (rule owner_store32_only [OF ok3 r, of 4]) simp_all
    finally show ?thesis .
  qed
  ultimately show ?thesis using k(1) q fields ok5 new rn k(2) r(2)
    by (intro exI [of _ p] exI [of _ m1] exI [of _ ret] exI [of _ ?m']) (simp add: insert_commute)
qed

text \<open>With answers of 20 bytes, the whole map is collected.\<close>

lemma queryUpper_heap:
  assumes "bios_map bios cont T" "T \<noteq> []" "length T < 100"
    and "arena (unat (heap g)) len m L (2824 + k)" "unat (heap g) + len \<le> 2 ^ 20"
  shows "\<exists>p ret m'. queryUpperMemory bios g m = Some (Inr (ret, m')) \<and> ret \<noteq> 0 \<and> p \<noteq> 0 \<and>
    load32 m' ret = of_nat (length T) \<and> load32 m' (ret + 4) = p \<and>
    (\<forall>k < length T. e820_at m' (p + 28 * of_nat k) = T ! k) \<and>
    arena (unat (heap g)) len m' ({(unat ret, 8), (unat p, 2800)} \<union> L) k \<and>
    unat p \<notin> fst ` L \<and> unat ret \<notin> fst ` L \<and> (\<forall>b \<in> L. same_block b m m') \<and> heap_only (unat (heap g)) len m m'"
proof -
  let ?A = "map (\<lambda>e. (e, None)) T"
  have "collect m1 p ?A = T" for m1 p by (subst collect_20) (simp_all add: comp_def)
  then show ?thesis
    using queryUpper_answers [OF bios_map_answers [OF assms(1)] _ _ assms(4,5)] assms(2,3) by simp blast
qed

section \<open>What memory detection guarantees\<close>

text \<open>
  C26. On a BIOS that enumerates at most 99 answers of 20 or 24 bytes, and with room on the heap,
  \<open>queryUpperMemory\<close> returns a struct with a number of entries and a pointer to a buffer in which the entries that it keeps stand, in order, 28 bytes apart, in the layout of the BIOS;
  every other block on the heap keeps its contents. It keeps every answer of 20 bytes, so all of the map when there are no others. An answer of 24 bytes is kept when bit 0 of the word at offset 24 of the slot
  in the new buffer is clear: the BIOS puts the attributes at offset 20, so this depends on what the memory held before (\<open>collect\<close>), and not on the attributes.
\<close>

theorem queryUpperMemory_collects:
  assumes "bios_answers bios cont A" "A \<noteq> []" "length A < 100"
    and "arena (unat (heap g)) len m L 2824" "unat (heap g) + len \<le> 2 ^ 20"
  shows "\<exists>p m1 ret m' K. kalloc g m 2800 = Some (p, m1) \<and> K = collect m1 p A \<and> ((\<forall>x \<in> set A. snd x = None) \<longrightarrow> K = map fst A) \<and>
    queryUpperMemory bios g m = Some (Inr (ret, m')) \<and> load32 m' ret = of_nat (length K) \<and> load32 m' (ret + 4) = p \<and>
    (\<forall>k < length K. e820_at m' (p + 28 * of_nat k) = K ! k) \<and> (\<forall>b \<in> L. same_block b m m')"
  using queryUpper_answers [OF assms(1-3), of g len m L 0] assms(4,5) collect_20 [of A] by auto

text \<open>A BIOS with one region of 639 KiB of usable memory.\<close>

definition one_region :: e820 where
  "one_region = \<lparr>e820_base = 0, e820_length = 0x9fc00, e820_type = 1\<rparr>"

definition one_region_bios :: bios15 where
  "one_region_bios m es di ebx = (False, 0, 0x534D4150, 20, put_e820 m (16 * ucast es + ucast di) one_region)"

text \<open>A BIOS that answers with 24 bytes for the same region, and says in the attributes that it is to be ignored.\<close>

definition ignored_region_bios :: bios15 where
  "ignored_region_bios m es di ebx = (False, 0, 0x534D4150, 24, store32 (put_e820 m (16 * ucast es + ucast di) one_region) (16 * ucast es + ucast di + 20) 0)"

theorem queryUpperMemory_collects_witness:
  "(\<exists>g m ret m'. queryUpperMemory one_region_bios g m = Some (Inr (ret, m')) \<and>
     load32 m' ret = 1 \<and> e820_at m' (load32 m' (ret + 4)) = one_region) \<and>
   (\<exists>g m p m1 ret m'. queryUpperMemory ignored_region_bios g m = Some (Inr (ret, m')) \<and> kalloc g m 2800 = Some (p, m1) \<and>
     load32 m' ret = (if load32 m1 (p + 24) AND 1 = 0 then 1 else 0))"
proof -
  obtain g m where g: "heapInitialize (\<lambda>_. 0) (of_nat 0x1000) (of_nat 0x1000) = (g, m)" by fastforce
  have h: "unat (heap g) = 0x1000" and "arena 0x1000 0x1000 m {} (0x1000 - 16)"
    using heapInitialize_arena [OF _ _ _ _ g] by simp_all
  then have ok: "arena (unat (heap g)) 0x1000 m {} 2824" by (simp add: arena_mono)
  have b: "bios_answers one_region_bios (\<lambda>k. if k = 0 then 0 else 1) [(one_region, None)]"
    by (simp add: bios_answers_def one_region_bios_def answer_size_def put_answer_def)
  have c: "bios_answers ignored_region_bios (\<lambda>k. if k = 0 then 0 else 1) [(one_region, Some 0)]"
    by (simp add: bios_answers_def ignored_region_bios_def answer_size_def put_answer_def)
  have "\<exists>ret m'. queryUpperMemory one_region_bios g m = Some (Inr (ret, m')) \<and>
      load32 m' ret = 1 \<and> e820_at m' (load32 m' (ret + 4)) = one_region"
    using queryUpperMemory_collects [OF b _ _ ok] h by auto
  moreover
  obtain p m1 ret m' where "kalloc g m 2800 = Some (p, m1)" "queryUpperMemory ignored_region_bios g m = Some (Inr (ret, m'))"
      "load32 m' ret = of_nat (length (collect m1 p [(one_region, Some 0)]))"
    using queryUpperMemory_collects [OF c _ _ ok] h by auto
  then have "\<exists>p m1 ret m'. queryUpperMemory ignored_region_bios g m = Some (Inr (ret, m')) \<and> kalloc g m 2800 = Some (p, m1) \<and>
      load32 m' ret = (if load32 m1 (p + 24) AND 1 = 0 then 1 else 0)"
    by (intro exI [of _ p] exI [of _ m1] exI [of _ ret] exI [of _ m']) (simp add: keeps_def)
  ultimately show ?thesis by blast
qed

text \<open>
  \<open>getUpperMemorySize\<close> returns the exact sum of the \<open>length\<close> fields of the entries when it fits in 32 bits
  and 0 otherwise, provided the array does not wrap around memory and no length is 2 to the 63 or more.
\<close>

theorem getUpperMemorySize_sum:
  assumes "load32 m ptr = of_nat n" "load32 m (ptr + 4) = a" "unat a + 28 * n < 2 ^ 32"
    and "\<forall>l \<in> set (entry_lengths m a n). l < 2 ^ 63"
  shows "getUpperMemorySize m ptr = Some (if sum_list (entry_lengths m a n) < 2 ^ 32
    then of_nat (sum_list (entry_lengths m a n)) else 0)"
  using upperSize_loop_sum [OF assms(3,4), of 0] assms(1,2)
  by (simp add: getUpperMemorySize_def mmap_entry_size_def)

theorem getUpperMemorySize_sum_witness:
  "getUpperMemorySize ((\<lambda>_. 0)(0 := 1, 5 := 1, 0x10d := 4)) 0 = Some 0x400"
proof -
  let ?m = "(\<lambda>_. 0)(0 := 1, 5 := 1, 0x10d := 4) :: memory"
  have e: "entry_lengths ?m 0x100 1 = [0x400]"
    by (simp add: entry_lengths_def mmap_entry_at_def load_defs)
  have "load32 ?m 0 = of_nat 1" "load32 ?m (0 + 4) = 0x100" by (simp_all add: load_defs)
  from getUpperMemorySize_sum [OF this] e show ?thesis by simp
qed

lemma length_field_bios:
  "drop_bit 32 (length_field (mmap_entry_at m a)) = ucast (e820_type (e820_at m a))"
  by (rule bit_word_eqI)
    (auto simp: mmap_entry_at_def e820_at_def load64_def bit_simps add.commute [of 16] dest: bit_imp_le_length)

lemma upper_zero:
  assumes "load32 m ptr = of_nat n" "0 < n" "load32 m (ptr + 4) = a" "unat a + 28 * n < 2 ^ 32"
    and "e820_type (e820_at m a) \<noteq> 0"
  shows "getUpperMemorySize m ptr = Some 0"
proof -
  let ?l = "length_field (mmap_entry_at m a)"
  have "(ucast (e820_type (e820_at m a)) :: u64) \<noteq> 0"
    using assms(5) by (simp add: word_unat_eq_iff unat_ucast_up)
  then have "drop_bit 32 ?l \<noteq> 0" by (simp add: length_field_bios)
  then have "unat ?l div 2 ^ 32 \<noteq> 0"
    by (simp add: word_unat_eq_iff unat_div drop_bit_eq_div)
  then have "?l > 0xffffffff" by (auto simp: word_less_nat_alt not_le)
  moreover have "unat (a + 28 * of_nat n) = unat a + 28 * n"
    using assms(4) by (simp add: unat_word_ariths unat_of_nat)
  then have "a < a + 28 * of_nat n" using assms(2) by (simp add: word_less_nat_alt)
  ultimately show ?thesis
    using assms(1,3) by (simp add: getUpperMemorySize_def mmap_entry_size_def upperSize_loop.simps [of m a])
qed

text \<open>
  C27. The struct has a field \<open>entry_length\<close> in front that the BIOS does not write, so its \<open>length\<close> field
  covers the high half of the region's length and the region's type. As every region type is positive,
  \<open>getUpperMemorySize\<close> of a non-empty map in BIOS layout returns 0, whatever memory there is.
\<close>

theorem upper_memory_reported_zero:
  assumes "load32 m ptr = of_nat n" "0 < n" "load32 m (ptr + 4) = a" "unat a + 28 * n < 2 ^ 32"
    and "e820_type (e820_at m a) \<noteq> 0"
  shows "getUpperMemorySize m ptr = Some 0"
  using assms by (rule upper_zero)

theorem upper_memory_reported_zero_witness:
  "getUpperMemorySize (put_e820 ((\<lambda>_. 0)(0 := 1, 5 := 1)) 0x100 one_region) 0 = Some 0"
proof -
  let ?m = "put_e820 ((\<lambda>_. 0)(0 := 1, 5 := 1)) 0x100 one_region"
  have "load32 ?m 0 = of_nat 1" "load32 ?m (0 + 4) = 0x100"
    by (simp_all add: load_defs put_e820_other)
  from upper_memory_reported_zero [OF this(1) _ this(2)] show ?thesis
    using e820_put [of _ "0x100" one_region] by (simp add: one_region_def)
qed

end
