(* ===== verification/Multiboot.thy ===== *)
theory Multiboot
  imports MemDetect
begin

text \<open>
  The multiboot structures of \<open>include/sys/multiboot.h\<close>, the search for the multiboot header in the
  kernel image and the construction of the information structure that the kernel receives
  (\<open>multibootHeaderSearch\<close> and \<open>buildMultibootInfo\<close> of \<open>bootloader/stage1main.cpp\<close>).
\<close>

section \<open>The structures\<close>

record multiboot_header =
  mbh_magic :: u32
  mbh_flags :: u32
  mbh_checksum :: u32
  header_addr :: u32
  load_addr :: u32
  load_end_addr :: u32
  bss_end_addr :: u32
  entry_addr :: u32
  mode_type :: u32
  mbh_width :: u32
  mbh_height :: u32
  mbh_depth :: u32

definition multiboot_header_at :: "memory \<Rightarrow> u32 \<Rightarrow> multiboot_header" where
  "multiboot_header_at m a = \<lparr>mbh_magic = load32 m a, mbh_flags = load32 m (a + 4), mbh_checksum = load32 m (a + 8),
     header_addr = load32 m (a + 12), load_addr = load32 m (a + 16), load_end_addr = load32 m (a + 20),
     bss_end_addr = load32 m (a + 24), entry_addr = load32 m (a + 28), mode_type = load32 m (a + 32),
     mbh_width = load32 m (a + 36), mbh_height = load32 m (a + 40), mbh_depth = load32 m (a + 44)\<rparr>"

text \<open>The structure is 120 bytes long: a 64-bit member is aligned to 4 bytes, and there are two bytes of padding before the first colour
  and after the second.\<close>

record multiboot_info_structure =
  mbi_flags :: u32
  mem_lower :: u32
  mem_upper :: u32
  boot_device :: u32
  mbi_cmdline :: u32
  mods_count :: u32
  mods_addr :: u32
  syms_1 :: u32
  syms_2 :: u32
  syms_3 :: u32
  syms_4 :: u32
  mmap_length :: u32
  mmap_addr :: u32
  drives_length :: u32
  drives_addr :: u32
  config_table :: u32
  boot_loader_name :: u32
  apm_table :: u32
  vbe_control_info :: u32
  vbe_mode_info :: u32
  vbe_mode :: u16
  vbe_interface_seg :: u16
  vbe_interface_off :: u16
  vbe_interface_len :: u16
  framebuffer_addr :: u64
  framebuffer_pitch :: u32
  framebuffer_width :: u32
  framebuffer_height :: u32
  framebuffer_bpp :: u8
  framebuffer_type :: u8
  color_1 :: u32
  color2 :: u16

definition multiboot_info_at :: "memory \<Rightarrow> u32 \<Rightarrow> multiboot_info_structure" where
  "multiboot_info_at m a = \<lparr>mbi_flags = load32 m a, mem_lower = load32 m (a + 4), mem_upper = load32 m (a + 8),
     boot_device = load32 m (a + 12), mbi_cmdline = load32 m (a + 16), mods_count = load32 m (a + 20),
     mods_addr = load32 m (a + 24), syms_1 = load32 m (a + 28), syms_2 = load32 m (a + 32), syms_3 = load32 m (a + 36),
     syms_4 = load32 m (a + 40), mmap_length = load32 m (a + 44), mmap_addr = load32 m (a + 48),
     drives_length = load32 m (a + 52), drives_addr = load32 m (a + 56), config_table = load32 m (a + 60),
     boot_loader_name = load32 m (a + 64), apm_table = load32 m (a + 68), vbe_control_info = load32 m (a + 72),
     vbe_mode_info = load32 m (a + 76), vbe_mode = load16 m (a + 80), vbe_interface_seg = load16 m (a + 82),
     vbe_interface_off = load16 m (a + 84), vbe_interface_len = load16 m (a + 86), framebuffer_addr = load64 m (a + 88),
     framebuffer_pitch = load32 m (a + 96), framebuffer_width = load32 m (a + 100), framebuffer_height = load32 m (a + 104),
     framebuffer_bpp = m (a + 108), framebuffer_type = m (a + 109), color_1 = load32 m (a + 112), color2 = load16 m (a + 116)\<rparr>"

lemma multiboot_info_cong:
  assumes "\<And>k. k < 120 \<Longrightarrow> m' (a + k) = m (a + k)"
  shows "multiboot_info_at m' a = multiboot_info_at m a"
  using assms [of 0] by (simp add: multiboot_info_at_def load_defs add.assoc assms)

definition MULTIBOOT_SEARCH :: u32 where
  "MULTIBOOT_SEARCH = 8192"

definition MULTIBOOT_HEADER_ALIGN :: u32 where
  "MULTIBOOT_HEADER_ALIGN = 4"

definition MULTIBOOT_MAGIC :: u32 where
  "MULTIBOOT_MAGIC = 0x1badb002"

definition MULTIBOOT_INFO_SIZE :: u32 where
  "MULTIBOOT_INFO_SIZE = 120"

section \<open>The operations\<close>

definition valid_header :: "memory \<Rightarrow> u32 \<Rightarrow> bool" where
  "valid_header m a = (let h = multiboot_header_at m a in
     mbh_magic h = MULTIBOOT_MAGIC \<and> mbh_magic h + mbh_flags h + mbh_checksum h = 0)"

text \<open>\<open>file_ptr\<close> and \<open>file_size\<close> are the fields of the \<open>fat32_fileResult\<close>.\<close>

partial_function (option) headerSearch_loop :: "memory \<Rightarrow> u32 \<Rightarrow> u32 \<Rightarrow> u32 \<Rightarrow> u32 option" where
  "headerSearch_loop m file_ptr file_size header =
     (if header \<le> file_ptr + MULTIBOOT_SEARCH - 12 \<or> header \<ge> file_ptr + file_size
      then if valid_header m header then Some header
           else headerSearch_loop m file_ptr file_size (header + MULTIBOOT_HEADER_ALIGN)
      else Some 0)"

definition multibootHeaderSearch :: "memory \<Rightarrow> u32 \<Rightarrow> u32 \<Rightarrow> u32 option" where
  "multibootHeaderSearch m file_ptr file_size = headerSearch_loop m file_ptr file_size file_ptr"

definition memory_info :: "bios12 \<Rightarrow> bios15 \<Rightarrow> heap_vars \<Rightarrow> memory \<Rightarrow> u32 \<Rightarrow> memory run" where
  "memory_info b12 b15 g m ret =
     (case queryLowerMemory b12 of Inl e \<Rightarrow> Some (Inl e) | Inr lower \<Rightarrow>
      let m = store32 m (ret + 4) lower in
      (case queryUpperMemory b15 g m of None \<Rightarrow> None | Some (Inl e) \<Rightarrow> Some (Inl e) | Some (Inr (up, m)) \<Rightarrow>
       (case getUpperMemorySize m up of None \<Rightarrow> None | Some upper \<Rightarrow>
        let m = store32 m (ret + 8) upper;
            m = store32 m (ret + 44) (load32 m up * 24);
            m = store32 m (ret + 48) (load32 m (up + 4));
            m = store32 m ret (load32 m ret OR 1);
            m = store32 m ret (load32 m ret OR push_bit 6 1)
        in Some (Inr m))))"

definition buildMultibootInfo ::
  "bios12 \<Rightarrow> bios15 \<Rightarrow> heap_vars \<Rightarrow> memory \<Rightarrow> u32 \<Rightarrow> u32 \<Rightarrow> (u32 \<times> memory) run" where
  "buildMultibootInfo b12 b15 g m header bootDevice =
     (case kalloc g m MULTIBOOT_INFO_SIZE of None \<Rightarrow> None | Some (ret, m) \<Rightarrow>
      let m = store32 m ret 0 in
      (case (if mbh_flags (multiboot_header_at m header) AND 1 \<noteq> 0 then memory_info b12 b15 g m ret else Some (Inr m)) of
         None \<Rightarrow> None | Some (Inl e) \<Rightarrow> Some (Inl e) | Some (Inr m) \<Rightarrow>
       let m = (if mbh_flags (multiboot_header_at m header) AND 2 \<noteq> 0
                then let m = store32 m (ret + 12) bootDevice in store32 m ret (load32 m ret OR 2) else m)
       in if mbh_flags (multiboot_header_at m header) AND 4 \<noteq> 0 then Some (Inr (0, m))
          else if mbh_flags (multiboot_header_at m header) AND 65528 \<noteq> 0 then Some (Inr (0, m))
          else Some (Inr (ret, m))))"

declare headerSearch_loop.simps [code]

section \<open>The search for the header\<close>

lemma search_found:
  assumes "valid_header m (p + 4 * of_nat k)" "\<forall>j < k. \<not> valid_header m (p + 4 * of_nat j)"
    and "unat p + 8192 \<le> 2 ^ 32" "k \<le> 2045" "i \<le> k"
  shows "headerSearch_loop m p n (p + 4 * of_nat i) = Some (p + 4 * of_nat k)"
  using assms(5)
proof (induction "k - i" arbitrary: i)
  case (Suc d)
  then have i: "i < k" by simp
  have "unat (p + 4 * of_nat i) = unat p + 4 * i" "unat (p + 8192 - 12) = unat p + 8180"
    using assms(3,4) i by (simp_all add: unat_word_ariths unat_of_nat unat_sub_if')
  then have "p + 4 * of_nat i \<le> p + MULTIBOOT_SEARCH - 12" using i assms(4) by (simp add: word_le_nat_alt MULTIBOOT_SEARCH_def)
  with Suc.hyps(1) [of "Suc i"] Suc.hyps(2) assms(2) i show ?case
    by (subst headerSearch_loop.simps) (simp add: MULTIBOOT_HEADER_ALIGN_def algebra_simps)
next
  case 0
  then have i: "i = k" by simp
  have "unat (p + 4 * of_nat k) = unat p + 4 * k" "unat (p + 8192 - 12) = unat p + 8180"
    using assms(3,4) by (simp_all add: unat_word_ariths unat_of_nat unat_sub_if')
  then have "p + 4 * of_nat k \<le> p + MULTIBOOT_SEARCH - 12" using assms(4) by (simp add: word_le_nat_alt MULTIBOOT_SEARCH_def)
  with i assms(1) show ?case by (subst headerSearch_loop.simps) simp
qed

lemma search_not_found:
  assumes "\<forall>j < 2046. \<not> valid_header m (p + 4 * of_nat j)" "unat p + 8192 \<le> 2 ^ 32" "i \<le> 2046"
    and "unat p + unat n < 2 ^ 32" "8184 < unat n"
  shows "headerSearch_loop m p n (p + 4 * of_nat i) = Some 0"
  using assms(3)
proof (induction "2046 - i" arbitrary: i)
  case (Suc d)
  then have i: "i < 2046" by simp
  have "unat (p + 4 * of_nat i) = unat p + 4 * i" "unat (p + 8192 - 12) = unat p + 8180"
    using assms(2) i by (simp_all add: unat_word_ariths unat_of_nat unat_sub_if')
  then have "p + 4 * of_nat i \<le> p + MULTIBOOT_SEARCH - 12" using i by (simp add: word_le_nat_alt MULTIBOOT_SEARCH_def)
  with Suc.hyps(1) [of "Suc i"] Suc.hyps(2) assms(1) i show ?case
    by (subst headerSearch_loop.simps) (simp add: MULTIBOOT_HEADER_ALIGN_def algebra_simps)
next
  case 0
  then have i: "i = 2046" by simp
  have "unat (p + 8184) = unat p + 8184" "unat (p + 8192 - 12) = unat p + 8180" "unat (p + n) = unat p + unat n"
    using assms(2,4) by (simp_all add: unat_word_ariths unat_sub_if')
  then have "\<not> p + 8184 \<le> p + MULTIBOOT_SEARCH - 12" "\<not> p + 8184 \<ge> p + n"
    using assms(5) by (simp_all add: word_le_nat_alt MULTIBOOT_SEARCH_def)
  with i show ?case by (subst headerSearch_loop.simps) simp
qed

lemma search_condition_vacuous:
  assumes "unat p + 8192 \<le> 2 ^ 32" "unat n \<le> 8181"
  shows "x \<le> p + MULTIBOOT_SEARCH - 12 \<or> x \<ge> p + n"
proof -
  have "unat (p + 8192 - 12) = unat p + 8180" "unat (p + n) = unat p + unat n"
    using assms by (simp_all add: unat_word_ariths unat_sub_if')
  then show ?thesis using assms(2) by (auto simp: word_le_nat_alt MULTIBOOT_SEARCH_def)
qed

section \<open>Building the information structure\<close>

text \<open>Stores into the block of the structure, at distinct offsets.\<close>

lemma load32_store32_offset [mem_simps]:
  "4 \<le> b - a \<Longrightarrow> 4 \<le> a - b \<Longrightarrow> load32 (store32 m (r + a) v) (r + b) = load32 m (r + b)"
  "4 \<le> b \<Longrightarrow> 4 \<le> - b \<Longrightarrow> load32 (store32 m r v) (r + b) = load32 m (r + b)"
  "4 \<le> - a \<Longrightarrow> 4 \<le> a \<Longrightarrow> load32 (store32 m (r + a) v) r = load32 m r" for a b :: u32
  by (rule load32_store32_sep, simp add: sep_def)+

text \<open>The entries of the map \<open>T\<close> stand where \<open>mmap_addr\<close> of the structure at \<open>ret\<close> points to.\<close>

definition map_copied :: "memory \<Rightarrow> u32 \<Rightarrow> e820 list \<Rightarrow> bool" where
  "map_copied m ret T \<longleftrightarrow> (\<forall>k < length T. e820_at m (load32 m (ret + 48) + 28 * of_nat k) = T ! k)"

lemma memory_info_result:
  assumes "bios_map b15 cont T" "T \<noteq> []" "length T < 100" "e820_type (T ! 0) \<noteq> 0" "low \<noteq> 0"
    and "arena (unat (heap g)) len m L (2824 + k)" "unat (heap g) + len \<le> 2 ^ 20" and R: "(unat ret, 120) \<in> L"
  shows "\<exists>m' L'. memory_info (False, low) b15 g m ret = Some (Inr m') \<and> arena (unat (heap g)) len m' L' k \<and> L \<subseteq> L' \<and>
    (\<forall>b \<in> L - {(unat ret, 120)}. same_block b m m') \<and> load32 m' ret = load32 m ret OR 0x41 \<and>
    load32 m' (ret + 4) = ucast low \<and> load32 m' (ret + 8) = 0 \<and> load32 m' (ret + 44) = 24 * of_nat (length T) \<and>
    map_copied m' ret T \<and> (unat (load32 m' (ret + 48)), 2800) \<in> L' - {(unat ret, 120)} \<and> heap_only (unat (heap g)) len m m'"
proof -
  let ?h = "unat (heap g)" and ?R = "(unat ret, 120)"
  have "(ucast low :: u32) \<noteq> 0" using assms(5) by (simp add: word_unat_eq_iff unat_ucast_up)
  then have lower: "queryLowerMemory (False, low) = Inr (ucast low)" by (simp add: queryLowerMemory_def asmCall_int12_def)
  let ?m0 = "store32 m (ret + 4) (ucast low)"
  have ok0: "arena ?h len ?m0 L (2824 + k)" and s0: "\<forall>b \<in> L - {?R}. same_block b m ?m0"
    using owner_store32(1) [OF assms(6) R, of 4] owner_store32(2) [OF assms(6) R, of 4] by simp_all
  obtain p up m1 where q: "queryUpperMemory b15 g ?m0 = Some (Inr (up, m1))"
      "load32 m1 up = of_nat (length T)" "load32 m1 (up + 4) = p" "\<forall>k < length T. e820_at m1 (p + 28 * of_nat k) = T ! k"
      "arena ?h len m1 ({(unat up, 8), (unat p, 2800)} \<union> L) k" "unat up \<notin> fst ` L" "\<forall>b \<in> L. same_block b ?m0 m1"
      "unat p \<notin> fst ` L" "heap_only ?h len ?m0 m1"
    using queryUpper_heap [OF assms(1-3) ok0 assms(7)] by blast
  have T0: "e820_at m1 p = T ! 0" using q(4) assms(2) by (auto dest!: spec [of _ 0])
  let ?L = "{(unat up, 8), (unat p, 2800)} \<union> L"
  have R: "?R \<in> ?L" using R by simp
  have up: "(unat up, 8) \<in> ?L - {?R}" using q(6) assms(8) by (auto simp: image_iff)
  have "unat p + 2800 \<le> ?h + len" using arena_inside [OF q(5), of "unat p" 2800] by simp
  then have upper: "getUpperMemorySize m1 up = Some 0"
    using upper_zero [OF q(2) _ q(3)] assms(2-4,7) T0 by simp
  have step: "arena ?h len (store32 n (ret + of_nat j) v) ?L k \<and> (\<forall>b \<in> ?L - {?R}. same_block b m1 (store32 n (ret + of_nat j) v))"
    if "arena ?h len n ?L k" "\<forall>b \<in> ?L - {?R}. same_block b m1 n" "j + 4 \<le> 120" for n j v
    using owner_store32(1,2) [OF that(1) R that(3)] that(2) same_block_trans by blast
  let ?m2 = "store32 m1 (ret + 8) 0"
  have m2: "arena ?h len ?m2 ?L k" "\<forall>b \<in> ?L - {?R}. same_block b m1 ?m2"
    using step [of m1 8 0] q(5) by simp_all
  then have N: "load32 ?m2 up = of_nat (length T)"
    using load32_same_block [of "unat up" 8 m1 ?m2 up] up q(2) by simp
  let ?m3 = "store32 ?m2 (ret + 44) (of_nat (length T) * 24)"
  have m3: "arena ?h len ?m3 ?L k" "\<forall>b \<in> ?L - {?R}. same_block b m1 ?m3"
    using step [OF m2, of 44 "of_nat (length T) * 24"] by simp_all
  define w where "w = load32 ?m3 (up + 4)"
  let ?m4 = "store32 ?m3 (ret + 48) w"
  have m4: "arena ?h len ?m4 ?L k" "\<forall>b \<in> ?L - {?R}. same_block b m1 ?m4"
    using step [OF m3, of 48 w] by simp_all
  let ?m5 = "store32 ?m4 ret (load32 ?m4 ret OR 1)"
  have m5: "arena ?h len ?m5 ?L k" "\<forall>b \<in> ?L - {?R}. same_block b m1 ?m5"
    using step [OF m4, of 0 "load32 ?m4 ret OR 1"] by simp_all
  let ?m6 = "store32 ?m5 ret (load32 ?m5 ret OR 64)"
  have m6: "arena ?h len ?m6 ?L k" "\<forall>b \<in> ?L - {?R}. same_block b m1 ?m6"
    using step [OF m5, of 0 "load32 ?m5 ret OR 64"] by simp_all
  have P: "(unat p, 2800) \<in> ?L - {?R}" using q(8) assms(8) by (auto simp: image_iff)
  have "unat up + 16 \<le> 2 ^ 32" using arena_inside [OF q(5), of "unat up" 8] assms(7) by simp
  then have "unat (up + 4) = unat up + 4" by (simp add: unat_word_ariths)
  then have w: "w = p" using load32_same_block [OF bspec [OF m3(2) up], of "up + 4"] q(3) by (simp add: w_def)
  have addr: "load32 ?m6 (ret + 48) = p" by (simp add: mem_simps word_le_nat_alt w)
  have "e820_at ?m6 (p + 28 * of_nat j) = T ! j" if "j < length T" for j
    using e820_at_same_block [OF bspec [OF m6(2) P], of j] q(4) that assms(3) by simp
  then have mc: "map_copied ?m6 ret T" by (simp add: map_copied_def addr)
  have run: "memory_info (False, low) b15 g m ret = Some (Inr ?m6)"
    using lower q(1) upper N by (simp add: memory_info_def Let_def w_def)
  have same: "\<forall>b \<in> L - {?R}. same_block b m ?m6" using s0 q(7) m6(2) same_block_trans by blast
  have ub: "unat ret + 128 \<le> 2 ^ 32" using arena_inside [OF q(5) R] assms(7) by simp
  have keep: "load32 m1 (ret + of_nat j) = load32 ?m0 (ret + of_nat j)" if "j + 4 \<le> 120" for j
  proof -
    have "unat (ret + of_nat j) = unat ret + j" using ub that by (simp add: unat_word_ariths unat_of_nat)
    then show ?thesis using load32_same_block [of "unat ret" 120 ?m0 m1] q(7) assms(8) that by simp
  qed
  have "load32 m1 ret = load32 m ret" "load32 m1 (ret + 4) = ucast low"
    using keep [of 0] keep [of 4] by (simp_all add: mem_simps word_le_nat_alt)
  then have "load32 ?m6 ret = load32 m ret OR 0x41" "load32 ?m6 (ret + 4) = ucast low"
    "load32 ?m6 (ret + 8) = 0" "load32 ?m6 (ret + 44) = 24 * of_nat (length T)"
    by (simp_all add: mem_simps word_le_nat_alt or.assoc)
  moreover have "heap_only ?h len m ?m6"
  proof -
    note st = owner_store32_only [OF q(5) R]
    note head = st [of 0 0, simplified]
    have "heap_only ?h len m ?m0" by (rule st [of 4]) simp_all
    also note q(9)
    also have "heap_only ?h len m1 ?m2" by (rule st [of 8]) simp_all
    also have "heap_only ?h len ?m2 ?m3" by (rule st [of 44]) simp_all
    also have "heap_only ?h len ?m3 ?m4" by (rule st [of 48]) simp_all
    also have "heap_only ?h len ?m4 ?m5" by (rule head)
    also have "heap_only ?h len ?m5 ?m6" by (rule head)
    finally show ?thesis .
  qed
  ultimately show ?thesis using run m6(1) same mc P addr by (intro exI [of _ ?m6] exI [of _ ?L]) auto
qed

definition info_flags :: "u32 \<Rightarrow> u32" where
  "info_flags f = (if f AND 1 \<noteq> 0 then 0x41 else 0) OR (if f AND 2 \<noteq> 0 then 2 else 0)"

definition inside_heap :: "heap_vars \<Rightarrow> nat \<Rightarrow> nat \<times> nat \<Rightarrow> bool" where
  "inside_heap g len b \<longleftrightarrow> unat (heap g) \<le> fst b \<and> fst b + snd b \<le> unat (heap g) + len"

lemma build_info:
  assumes "bios_map b15 cont T" "T \<noteq> []" "length T < 100" "e820_type (T ! 0) \<noteq> 0" "low \<noteq> 0"
    and "arena (unat (heap g)) len m L 2952" "unat (heap g) + len \<le> 2 ^ 20"
    and H: "(hp, hn) \<in> L" "hp \<le> unat header" "unat header + 8 \<le> hp + hn"
    and f: "f = load32 m (header + 4)"
  shows "\<exists>ret m'. buildMultibootInfo (False, low) b15 g m header dev =
      Some (Inr (if f AND 0xfffc = 0 then ret else 0, m')) \<and> ret \<noteq> 0 \<and> load32 m' ret = info_flags f \<and>
    (f AND 1 \<noteq> 0 \<longrightarrow> load32 m' (ret + 4) = ucast low \<and> load32 m' (ret + 8) = 0 \<and>
      load32 m' (ret + 44) = 24 * of_nat (length T)) \<and>
    (f AND 2 \<noteq> 0 \<longrightarrow> load32 m' (ret + 12) = dev) \<and> (\<forall>b \<in> L. same_block b m m') \<and>
    inside_heap g len (unat ret, 120) \<and>
    (f AND 1 \<noteq> 0 \<longrightarrow> map_copied m' ret T \<and> inside_heap g len (unat (load32 m' (ret + 48)), 2800)) \<and>
    heap_only (unat (heap g)) len m m'"
proof -
  let ?h = "unat (heap g)" and ?H = "(hp, hn)"
  have "arena ?h len m L (120 + 8 + (2824 + 0))" using assms(6) by simp
  from arena_kalloc [OF this] obtain ret m1 where k: "kalloc g m 120 = Some (ret, m1)" "ret \<noteq> 0"
    and ok1: "arena ?h len m1 (insert (unat ret, 120) L) (2824 + 0)"
    and nR: "unat ret \<notin> fst ` L" and s1: "\<forall>b \<in> L. same_block b m m1" and h1: "heap_only ?h len m m1" by auto
  let ?R = "(unat ret, 120)" and ?L = "insert (unat ret, 120) L"
  have LR: "L \<subseteq> ?L - {?R}" using nR by (force simp: image_iff)
  have "unat header + 8 < 2 ^ 32" using arena_inside [OF assms(6) H(1)] assms(7) H(3) by simp
  then have uh: "unat (header + 4) = unat header + 4" by (simp add: unat_word_ariths)
  have flags: "mbh_flags (multiboot_header_at n header) = f" if "\<forall>b \<in> L. same_block b m n" for n
    using load32_same_block [OF that [rule_format, OF H(1)], of "header + 4"] H(2,3) uh f by (simp add: multiboot_header_at_def)
  let ?m2 = "store32 m1 ret 0"
  have R: "?R \<in> ?L" by simp
  have ok2: "arena ?h len ?m2 ?L (2824 + 0)" and "\<forall>b \<in> L. same_block b m1 ?m2"
    using owner_store32(1) [OF ok1 R, of 0] owner_store32(2) [OF ok1 R, of 0] LR by (simp, fastforce)
  then have s2: "\<forall>b \<in> L. same_block b m ?m2" using s1 same_block_trans by blast
  obtain m3 L' where m3: "(if f AND 1 \<noteq> 0 then memory_info (False, low) b15 g ?m2 ret else Some (Inr ?m2)) = Some (Inr m3)"
    "arena ?h len m3 L' 0" "?L \<subseteq> L'" "\<forall>b \<in> L. same_block b m m3" "load32 m3 ret = (if f AND 1 \<noteq> 0 then 0x41 else 0)"
    "f AND 1 \<noteq> 0 \<longrightarrow> load32 m3 (ret + 4) = ucast low \<and> load32 m3 (ret + 8) = 0 \<and> load32 m3 (ret + 44) = 24 * of_nat (length T)"
    "f AND 1 \<noteq> 0 \<longrightarrow> map_copied m3 ret T \<and> (unat (load32 m3 (ret + 48)), 2800) \<in> L' - {?R}" "heap_only ?h len ?m2 m3"
  proof (cases "f AND 1 \<noteq> 0")
    case True
    obtain m3 L' where *: "memory_info (False, low) b15 g ?m2 ret = Some (Inr m3)" "arena ?h len m3 L' 0" "?L \<subseteq> L'"
      "\<forall>b \<in> ?L - {?R}. same_block b ?m2 m3" "load32 m3 ret = load32 ?m2 ret OR 0x41"
      "load32 m3 (ret + 4) = ucast low \<and> load32 m3 (ret + 8) = 0 \<and> load32 m3 (ret + 44) = 24 * of_nat (length T)"
      "map_copied m3 ret T \<and> (unat (load32 m3 (ret + 48)), 2800) \<in> L' - {?R}" "heap_only ?h len ?m2 m3"
      using memory_info_result [OF assms(1-5) ok2 assms(7) R] by blast
    moreover have "\<forall>b \<in> L. same_block b m m3" using *(4) LR s2 same_block_trans by blast
    ultimately show ?thesis using True that [of m3 L'] by (simp add: mem_simps)
  next
    case False
    then show ?thesis using that [of ?m2 ?L] arena_mono [OF ok2, of 0] s2 by (simp add: mem_simps heap_only_def)
  qed
  define m4 where "m4 = (if f AND 2 \<noteq> 0 then store32 (store32 m3 (ret + 12) dev) ret (load32 (store32 m3 (ret + 12) dev) ret OR 2) else m3)"
  have RL: "?R \<in> L'" "L \<subseteq> L' - {?R}" using m3(3) LR by auto
  have s34: "\<forall>b \<in> L' - {?R}. same_block b m3 m4"
  proof -
    have st: "arena ?h len (store32 n (ret + of_nat j) v) L' 0 \<and> (\<forall>b \<in> L' - {?R}. same_block b n (store32 n (ret + of_nat j) v))"
      if "arena ?h len n L' 0" "j + 4 \<le> 120" for n j v
      using owner_store32(1,2) [OF that(1) RL(1) that(2)] by blast
    let ?n = "store32 m3 (ret + 12) dev"
    have "arena ?h len ?n L' 0" "\<forall>b \<in> L' - {?R}. same_block b m3 ?n" using st [OF m3(2), of 12 dev] by simp_all
    moreover from this have "\<forall>b \<in> L' - {?R}. same_block b ?n (store32 ?n ret v)" for v using st [of ?n 0 v] by simp
    ultimately have "\<forall>b \<in> L' - {?R}. same_block b m3 (store32 ?n ret v)" for v
      by (blast intro: same_block_trans)
    then show ?thesis by (simp add: m4_def)
  qed
  have s4: "\<forall>b \<in> L. same_block b m m4" using m3(4) s34 RL(2) by (blast intro: same_block_trans)
  have addr: "load32 m4 (ret + 48) = load32 m3 (ret + 48)" by (simp add: m4_def mem_simps word_le_nat_alt)
  have mc: "map_copied m4 ret T" "inside_heap g len (unat (load32 m4 (ret + 48)), 2800)" if "f AND 1 \<noteq> 0"
  proof -
    let ?p = "load32 m3 (ret + 48)"
    have P: "(unat ?p, 2800) \<in> L' - {?R}" and c: "map_copied m3 ret T" using m3(7) that by auto
    have "e820_at m4 (?p + 28 * of_nat j) = T ! j" if "j < length T" for j
      using e820_at_same_block [OF bspec [OF s34 P], of j] c that assms(3) by (simp add: map_copied_def)
    then show "map_copied m4 ret T" by (simp add: map_copied_def addr)
    show "inside_heap g len (unat (load32 m4 (ret + 48)), 2800)"
      using arena_inside [OF m3(2), of "unat ?p" 2800] P by (simp add: inside_heap_def addr)
  qed
  have rin: "inside_heap g len ?R" using arena_inside [OF ok1 R] by (simp add: inside_heap_def)
  have "f AND 0xfffc = (f AND 4) OR (f AND 65528)" by (simp add: bit.conj_disj_distrib [symmetric])
  then have split: "f AND 0xfffc = 0 \<longleftrightarrow> f AND 4 = 0 \<and> f AND 65528 = 0" by (simp add: or_eq_0_iff)
  have "buildMultibootInfo (False, low) b15 g m header dev = Some (Inr (if f AND 0xfffc = 0 then ret else 0, m4))"
    using k m3(1) flags [OF s2] flags [OF m3(4)] flags [OF s4] split
    by (cases "f AND 2 = 0") (simp_all add: buildMultibootInfo_def MULTIBOOT_INFO_SIZE_def Let_def m4_def)
  moreover have "load32 m4 ret = info_flags f" "f AND 2 \<noteq> 0 \<longrightarrow> load32 m4 (ret + 12) = dev"
    "f AND 1 \<noteq> 0 \<longrightarrow> load32 m4 (ret + 4) = ucast low \<and> load32 m4 (ret + 8) = 0 \<and> load32 m4 (ret + 44) = 24 * of_nat (length T)"
    using m3(5,6) by (simp_all add: m4_def info_flags_def mem_simps word_le_nat_alt)
  moreover have "heap_only ?h len m m4"
  proof -
    note st = owner_store32_only [OF ok1 R]
    let ?n = "store32 m3 (ret + 12) dev"
    note head = st [of 0 0, simplified]
    have "heap_only ?h len m3 ?n" by (rule st [of 12]) simp_all
    also have "heap_only ?h len ?n (store32 ?n ret (load32 ?n ret OR 2))" by (rule head)
    finally have last: "heap_only ?h len m3 m4" by (simp add: m4_def heap_only_def)
    note h1
    also have "heap_only ?h len m1 ?m2" by (rule head)
    also note m3(8)
    also note last
    finally show ?thesis .
  qed
  ultimately show ?thesis using k(2) s4 mc rin by blast
qed

text \<open>
  C28. For a file of more than 8184 bytes that does not wrap around memory the search returns
  the first valid header at a 4-byte aligned offset up to 8180, and null if there is none.
\<close>

theorem multibootHeaderSearch_large_file:
  assumes "unat p + 8192 \<le> 2 ^ 32" "unat p + unat n < 2 ^ 32" "8184 < unat n"
  shows "multibootHeaderSearch m p n =
    Some (case find (\<lambda>j. valid_header m (p + 4 * of_nat j)) [0..<2046] of None \<Rightarrow> 0 | Some k \<Rightarrow> p + 4 * of_nat k)"
proof (cases "find (\<lambda>j. valid_header m (p + 4 * of_nat j)) [0..<2046]")
  case None
  then have "\<forall>j < 2046. \<not> valid_header m (p + 4 * of_nat j)" by (simp add: find_None_iff)
  from search_not_found [OF this assms(1) _ assms(2,3), of 0] None show ?thesis
    by (simp add: multibootHeaderSearch_def)
next
  case (Some k)
  then have k: "valid_header m (p + 4 * of_nat k)" "\<forall>j < k. \<not> valid_header m (p + 4 * of_nat j)" "k \<le> 2045"
    by (auto simp: find_Some_iff)
  from search_found [OF k(1,2) assms(1) k(3), of 0 n] Some show ?thesis by (simp add: multibootHeaderSearch_def)
qed

theorem multibootHeaderSearch_large_file_witness:
  "multibootHeaderSearch ((\<lambda>_. 0)(0x1004 := 0x02, 0x1005 := 0xb0, 0x1006 := 0xad, 0x1007 := 0x1b,
      0x100c := 0xfe, 0x100d := 0x4f, 0x100e := 0x52, 0x100f := 0xe4)) 0x1000 0x4000 = Some 0x1004"
proof -
  let ?m = "(\<lambda>_. 0)(0x1004 := 0x02, 0x1005 := 0xb0, 0x1006 := 0xad, 0x1007 := 0x1b,
      0x100c := 0xfe, 0x100d := 0x4f, 0x100e := 0x52, 0x100f := 0xe4) :: memory"
  have "\<not> valid_header ?m 0x1000" "valid_header ?m 0x1004"
    by (simp_all add: valid_header_def Let_def multiboot_header_at_def load_defs MULTIBOOT_MAGIC_def)
  then have "find (\<lambda>j. valid_header ?m (0x1000 + 4 * of_nat j)) [0..<2046] = Some 1"
    by (auto simp: find_Some_iff intro!: exI [of _ 1])
  with multibootHeaderSearch_large_file [of "0x1000" "0x4000" ?m] show ?thesis by simp
qed

lemma small_file_found:
  assumes "unat p + 8192 \<le> 2 ^ 32" "unat n \<le> 8181"
    and "valid_header m (p + 4 * of_nat k)" "\<forall>j < k. \<not> valid_header m (p + 4 * of_nat j)" "i \<le> k"
  shows "headerSearch_loop m p n (p + 4 * of_nat i) = Some (p + 4 * of_nat k)"
  using assms(5)
proof (induction "k - i" arbitrary: i)
  case (Suc d)
  with assms(4) have "i < k" "\<not> valid_header m (p + 4 * of_nat i)" by auto
  with Suc.hyps(1) [of "Suc i"] Suc.hyps(2) show ?case
    using search_condition_vacuous [OF assms(1,2)]
    by (subst headerSearch_loop.simps) (simp add: MULTIBOOT_HEADER_ALIGN_def algebra_simps)
next
  case 0
  then show ?case
    using assms(3) search_condition_vacuous [OF assms(1,2)] by (subst headerSearch_loop.simps) simp
qed

lemma small_file_diverges:
  assumes "unat p + 8192 \<le> 2 ^ 32" "unat n \<le> 8181" "\<And>k. \<not> valid_header m (p + 4 * of_nat k)"
  shows "headerSearch_loop m p n p = None"
proof -
  have "h \<noteq> p + 4 * of_nat k" if "headerSearch_loop m p n h = Some r" for h r k
  proof -
    have "(m, p, n) = (m, p, n) \<longrightarrow> (\<forall>k. h \<noteq> p + 4 * of_nat k)"
    proof (rule headerSearch_loop.raw_induct [where P = "\<lambda>m' p' n' h r. (m', p', n') = (m, p, n) \<longrightarrow> (\<forall>k. h \<noteq> p + 4 * of_nat k)", OF _ that],
        intro impI allI notI)
      fix loop m' p' n' h r k
      assume IH: "\<And>m' p' n' h r. loop m' p' n' h = Some r \<Longrightarrow> (m', p', n') = (m, p, n) \<longrightarrow> (\<forall>k. h \<noteq> p + 4 * of_nat k)"
        and run: "(if h \<le> p' + MULTIBOOT_SEARCH - 12 \<or> h \<ge> p' + n'
          then if valid_header m' h then Some h else loop m' p' n' (h + MULTIBOOT_HEADER_ALIGN) else Some 0) = Some r"
        and eq: "(m', p', n') = (m, p, n)" and h: "h = p + 4 * of_nat k"
      have "loop m p n (h + MULTIBOOT_HEADER_ALIGN) = Some r"
        using run eq h search_condition_vacuous [OF assms(1,2), of h] assms(3) [of k] by (auto split: if_splits)
      from IH [OF this] have "h + MULTIBOOT_HEADER_ALIGN \<noteq> p + 4 * of_nat (Suc k)" by blast
      then show False using h by (simp add: MULTIBOOT_HEADER_ALIGN_def algebra_simps)
    qed
    then show ?thesis by blast
  qed
  from this [of p _ 0] show ?thesis by (cases "headerSearch_loop m p n p") auto
qed

text \<open>
  C29. The two bounds of the search are joined by "or" instead of "and". For a file of at most 8181 bytes the
  loop condition is therefore always true and neither the end of the file nor the limit of 8192 bytes stops the search: it goes on through the whole memory in steps of 4 bytes,
  returns the first valid header that it meets, wherever that is, and when it meets none it never returns instead of returning null.
\<close>

theorem multibootHeaderSearch_small_file:
  assumes "unat p + 8192 \<le> 2 ^ 32" "unat n \<le> 8181"
  shows "multibootHeaderSearch m p n =
    (if \<exists>k. valid_header m (p + 4 * of_nat k) then Some (p + 4 * of_nat (LEAST k. valid_header m (p + 4 * of_nat k))) else None)"
proof (cases "\<exists>k. valid_header m (p + 4 * of_nat k)")
  case True
  let ?k = "LEAST k. valid_header m (p + 4 * of_nat k)"
  have "valid_header m (p + 4 * of_nat ?k)" using True by (rule LeastI_ex)
  moreover have "\<forall>j < ?k. \<not> valid_header m (p + 4 * of_nat j)" using not_less_Least by blast
  ultimately show ?thesis
    using small_file_found [OF assms, of m ?k 0] True by (simp add: multibootHeaderSearch_def)
next
  case False
  then show ?thesis using small_file_diverges [OF assms] by (auto simp: multibootHeaderSearch_def)
qed

theorem multibootHeaderSearch_small_file_witness:
  "multibootHeaderSearch (\<lambda>_. 0) 0x1000 512 = None \<and>
   multibootHeaderSearch ((\<lambda>_. 0)(0x2000 := 0x02, 0x2001 := 0xb0, 0x2002 := 0xad, 0x2003 := 0x1b,
      0x2008 := 0xfe, 0x2009 := 0x4f, 0x200a := 0x52, 0x200b := 0xe4)) 0x2000 8 = Some 0x2000"
proof -
  let ?m = "(\<lambda>_. 0)(0x2000 := 0x02, 0x2001 := 0xb0, 0x2002 := 0xad, 0x2003 := 0x1b,
      0x2008 := 0xfe, 0x2009 := 0x4f, 0x200a := 0x52, 0x200b := 0xe4) :: memory"
  note header_defs = valid_header_def Let_def multiboot_header_at_def load_defs MULTIBOOT_MAGIC_def
  have "\<not> valid_header (\<lambda>_. 0) x" for x by (simp add: header_defs)
  then have n: "multibootHeaderSearch (\<lambda>_. 0) 0x1000 512 = None"
    using multibootHeaderSearch_small_file [of "0x1000" 512 "\<lambda>_. 0"] by simp
  have v: "valid_header ?m (0x2000 + 4 * of_nat 0)" by (simp add: header_defs)
  then have "\<exists>k. valid_header ?m (0x2000 + 4 * of_nat k)" by blast
  moreover have "(LEAST k. valid_header ?m (0x2000 + 4 * of_nat k)) = 0" using v by (intro Least_eq_0)
  ultimately have "multibootHeaderSearch ?m 0x2000 8 = Some 0x2000"
    using multibootHeaderSearch_small_file [of "0x2000" 8 ?m] by simp
  with n show ?thesis by blast
qed

text \<open>
  C30. With room on the heap, a BIOS that reports its memory in entries of 20 bytes, and the header in a block of the heap,
  \<open>buildMultibootInfo\<close> returns; it returns null exactly when the header sets one of the bits 2 to 15 of the
  flags. Otherwise it answers the bits as the code reads them, which is not what \<open>multiboot.h\<close> says of them (there bit 0 asks for page alignment and bit 1 for memory information):
  for bit 0, memory sizes and map (flags 0 and 6 of the answer), for bit 1 the boot device (flag 1), and no memory information for bit 1 alone. The lower memory size and the boot
  device are right and the map's entries stand 28 bytes apart where the structure points, but the upper memory size is always 0 and the length of the map is given as 24 bytes per entry.
\<close>

theorem buildMultibootInfo_result:
  assumes "bios_map b15 cont T" "T \<noteq> []" "length T < 100" "e820_type (T ! 0) \<noteq> 0" "low \<noteq> 0"
    and "arena (unat (heap g)) len m L 2952" "unat (heap g) + len \<le> 2 ^ 20"
    and "(hp, hn) \<in> L" "hp \<le> unat header" "unat header + 8 \<le> hp + hn"
    and "f = mbh_flags (multiboot_header_at m header)"
  shows "\<exists>ret m'. buildMultibootInfo (False, low) b15 g m header dev =
      Some (Inr (if f AND 0xfffc = 0 then ret else 0, m')) \<and> ret \<noteq> 0 \<and>
    mbi_flags (multiboot_info_at m' ret) = info_flags f \<and>
    (f AND 1 \<noteq> 0 \<longrightarrow> mem_lower (multiboot_info_at m' ret) = ucast low \<and>
       mem_upper (multiboot_info_at m' ret) = 0 \<and> mmap_length (multiboot_info_at m' ret) = 24 * of_nat (length T) \<and>
       (\<forall>k < length T. e820_at m' (mmap_addr (multiboot_info_at m' ret) + 28 * of_nat k) = T ! k)) \<and>
    (f AND 2 \<noteq> 0 \<longrightarrow> boot_device (multiboot_info_at m' ret) = dev) \<and> (\<forall>b \<in> L. same_block b m m')"
  using build_info [OF assms(1-10), of f dev] assms(11)
  by (fastforce simp: multiboot_header_at_def multiboot_info_at_def map_copied_def)

lemma kernel_header_heap:
  "\<exists>(g :: heap_vars) m. arena (unat (heap g)) 0x2000 m {(0x1008, 48)} 2952 \<and> unat (heap g) = 0x1000 \<and> load32 m 0x100c = 3"
proof -
  obtain g m where g: "heapInitialize (\<lambda>_. 0) (of_nat 0x1000) (of_nat 0x2000) = (g, m)" by fastforce
  have h: "unat (heap g) = 0x1000" and "arena 0x1000 0x2000 m {} (0x2000 - 16)"
    using heapInitialize_arena [OF _ _ _ _ g] by simp_all
  then have ok: "arena (unat (heap g)) 0x2000 m {} (48 + 8 + 2952)" by (simp add: arena_mono)
  have rep: "heap_rep m 0x1000 [(False, 0x2000 - 16)]" "heap g = of_nat 0x1000"
    using heapInitialize_rep [OF _ _ _ _ g] h by (simp_all add: word_unat_eq_iff)
  obtain m1 where k: "kalloc g m (of_nat 48) = Some (of_nat 0x1008, m1)"
    using alloc_rep [where n = 48, OF _ _ _ _ rep(1)] rep(2) by (auto simp: kalloc_def)
  have ok1: "arena 0x1000 0x2000 m1 {(0x1008, 48)} 2952" using arena_kalloc [OF ok] k h by auto
  have B: "(unat (0x1008 :: u32), 48) \<in> {(0x1008 :: nat, 48 :: nat)}" by simp
  have "arena 0x1000 0x2000 (store32 m1 0x100c 3) {(0x1008, 48)} 2952"
    using owner_store32(1) [OF ok1 B, of 4 3] by simp
  moreover have "load32 (store32 m1 0x100c 3) 0x100c = 3" by (rule load32_store32)
  ultimately show ?thesis using h by (intro exI [of _ g] exI [of _ "store32 m1 0x100c 3"]) simp
qed

theorem buildMultibootInfo_result_witness:
  "\<exists>g m ret m'. buildMultibootInfo (False, 639) one_region_bios g m 0x1008 0x80 = Some (Inr (ret, m')) \<and> ret \<noteq> 0 \<and>
     mbi_flags (multiboot_info_at m' ret) = 0x43 \<and> mem_lower (multiboot_info_at m' ret) = 639 \<and>
     boot_device (multiboot_info_at m' ret) = 0x80"
proof -
  obtain g :: heap_vars and m where g: "arena (unat (heap g)) 0x2000 m {(0x1008, 48)} 2952" "unat (heap g) = 0x1000" "load32 m 0x100c = 3"
    using kernel_header_heap by metis
  have b: "bios_map one_region_bios (\<lambda>k. if k = 0 then 0 else 1) [one_region]"
    by (simp add: bios_map_def one_region_bios_def)
  have f: "3 = mbh_flags (multiboot_header_at m 0x1008)" using g(3) by (simp add: multiboot_header_at_def)
  have B: "(0x1008, 48) \<in> {(0x1008 :: nat, 48 :: nat)}" by simp
  obtain ret m' where "buildMultibootInfo (False, 639) one_region_bios g m 0x1008 0x80 = Some (Inr (ret, m'))" "ret \<noteq> 0"
    "mbi_flags (multiboot_info_at m' ret) = 0x43" "mem_lower (multiboot_info_at m' ret) = 639"
    "boot_device (multiboot_info_at m' ret) = 0x80"
    using buildMultibootInfo_result [OF b _ _ _ _ g(1) _ B _ _ f, where low = 639 and dev = "0x80"] g(2)
    by (auto simp: one_region_def info_flags_def)
  then show ?thesis by blast
qed

end
