(* ===== verification/DiskRead.thy ===== *)
theory DiskRead
  imports CString
begin

text \<open>
  Disk reads through the BIOS: \<open>lib/earlyLib/diskRead16.cpp\<close>, its header and the real-mode stub
  \<open>asmCall_int13.S\<close>. The BIOS service (int 13h, extended read) is a parameter: a function from
  the memory, which holds the disk address packet, and the drive number to the carry flag, the
  status in \<open>AH\<close> and the new memory. The hypothesis \<open>bios_reads\<close> states its documented
  behaviour for a disk image, a map from byte offsets to bytes.
\<close>

section \<open>The operations\<close>

definition dap_memory_location :: u32 where
  "dap_memory_location = 0x1000"

definition disk_read_location :: u32 where
  "disk_read_location = 0x70000"

definition MAX_SECTORS :: u32 where
  "MAX_SECTORS = 127"

definition SECTOR_SIZE :: u32 where
  "SECTOR_SIZE = 512"

text \<open>The fields of \<open>struct DAP\<close>, and the struct at an address in memory.\<close>

record DAP =
  dap_size :: u8
  dap_unused :: u8
  dap_numSectors :: u16
  dap_buffer :: u32
  dap_LBA :: u64

definition dap_at :: "memory \<Rightarrow> u32 \<Rightarrow> DAP" where
  "dap_at m a = \<lparr>dap_size = m a, dap_unused = m (a + 1), dap_numSectors = load16 m (a + 2),
     dap_buffer = load32 m (a + 4), dap_LBA = load64 m (a + 8)\<rparr>"

definition dap_offset :: u32 where
  "dap_offset = disk_read_location mod 16"

definition dap_segment :: u32 where
  "dap_segment = (disk_read_location - dap_offset) div 16"

definition fillDAP :: "memory \<Rightarrow> u32 \<Rightarrow> u32 \<Rightarrow> memory" where
  "fillDAP m LBA sectors =
     (let dap = dap_memory_location;
          m = m(dap := 0x10);
          m = m(dap + 1 := 0);
          m = store16 m (dap + 2) (ucast sectors);
          m = store32 m (dap + 4) (push_bit 16 dap_segment OR dap_offset)
      in store64 m (dap + 8) (ucast LBA))"

type_synonym bios13 = "memory \<Rightarrow> u8 \<Rightarrow> bool \<times> u8 \<times> memory"

text \<open>The stub returns 0 when the carry flag is clear and \<open>AH\<close> otherwise; \<open>DL\<close> is the drive.\<close>

definition asmCall_int13 :: "bios13 \<Rightarrow> memory \<Rightarrow> u32 \<Rightarrow> u8 \<times> memory" where
  "asmCall_int13 bios m disk = (case bios m (ucast disk) of (carry, ah, m') \<Rightarrow> (if carry then ah else 0, m'))"

definition diskRead_failure :: panic where
  "diskRead_failure = ''diskRead16(): Failure reading''"

function diskRead_loop :: "bios13 \<Rightarrow> memory \<Rightarrow> u16 \<Rightarrow> u32 \<Rightarrow> u32 \<Rightarrow> u32 \<Rightarrow> u32 \<Rightarrow> memory outcome" where
  "diskRead_loop bios m disk sectors i currentBuffer currentLBA =
     (let iterations = sectors div MAX_SECTORS in
      if i \<le> iterations then
        let currentSectors = (if i = iterations then sectors - MAX_SECTORS * iterations else MAX_SECTORS);
            m = fillDAP m currentLBA currentSectors;
            (result, m) = asmCall_int13 bios m (ucast disk)
        in if result \<noteq> 0 then Inl diskRead_failure
           else let m = memmove m currentBuffer disk_read_location (currentSectors * SECTOR_SIZE)
                in diskRead_loop bios m disk sectors (i + 1) (currentBuffer + MAX_SECTORS * SECTOR_SIZE)
                     (currentLBA + MAX_SECTORS)
      else Inr m)"
  by pat_completeness auto
termination
proof (relation "measure (\<lambda>(bios, m, disk, sectors, i, cb, cl). Suc (unat (sectors div MAX_SECTORS)) - unat i)", goal_cases)
  case (2 bios m disk sectors i cb cl)
  then have "i \<le> sectors div MAX_SECTORS" by simp
  moreover have "unat (sectors div MAX_SECTORS) < 2 ^ 32 - 1"
    using unat_less_2pow [of sectors] by (simp add: unat_div MAX_SECTORS_def)
  ultimately have "unat (i + 1) = Suc (unat i)"
    by (simp add: word_le_nat_alt unat_word_ariths)
  with \<open>i \<le> sectors div MAX_SECTORS\<close> show ?case by (simp add: word_le_nat_alt)
qed simp

declare diskRead_loop.simps [simp del]

definition diskRead16 :: "bios13 \<Rightarrow> memory \<Rightarrow> u32 \<Rightarrow> u32 \<Rightarrow> u32 \<Rightarrow> u16 \<Rightarrow> (bool \<times> memory) outcome" where
  "diskRead16 bios m LBA buffer sectors disk =
     (case diskRead_loop bios m disk sectors 0 buffer LBA of Inl e \<Rightarrow> Inl e | Inr m' \<Rightarrow> Inr (True, m'))"

text \<open>\<open>diskReadFunc\<close> of the boot loader truncates its 64-bit block number and converts the result to \<open>int\<close>.\<close>

definition diskReadFunc :: "bios13 \<Rightarrow> u8 \<Rightarrow> memory \<Rightarrow> u64 \<Rightarrow> u32 \<Rightarrow> u32 \<Rightarrow> (int \<times> memory) outcome" where
  "diskReadFunc bios disk m LBA buffer sectors =
     (case diskRead16 bios m (ucast LBA) buffer sectors (ucast disk) of
        Inl e \<Rightarrow> Inl e | Inr (b, m') \<Rightarrow> Inr (if b then 1 else 0, m'))"

section \<open>Specification\<close>

text \<open>A disk image, by byte offset.\<close>

type_synonym image = "nat \<Rightarrow> u8"

text \<open>
  The extended read: for a packet of size 16 that asks for 1 to 127 sectors, the service clears
  the carry flag and copies the sectors to the buffer, given as segment and offset.
\<close>

definition linear :: "u32 \<Rightarrow> u32" where
  "linear segoff = 16 * drop_bit 16 segoff + (segoff AND 0xffff)"

definition bios_copy :: "image \<Rightarrow> DAP \<Rightarrow> memory \<Rightarrow> memory" where
  "bios_copy D p m = (\<lambda>x. if unat (x - linear (dap_buffer p)) < 512 * unat (dap_numSectors p)
     then D (512 * unat (dap_LBA p) + unat (x - linear (dap_buffer p))) else m x)"

definition bios_reads :: "bios13 \<Rightarrow> u8 \<Rightarrow> image \<Rightarrow> bool" where
  "bios_reads bios disk D \<longleftrightarrow> (\<forall>m. let p = dap_at m dap_memory_location in
     dap_size p = 16 \<and> dap_numSectors p \<noteq> 0 \<and> dap_numSectors p \<le> 127 \<longrightarrow>
       fst (bios m disk) = False \<and> snd (snd (bios m disk)) = bios_copy D p m)"

text \<open>The memory that a read uses besides the caller's buffer: the packet and the bounce buffer.\<close>

definition scratch :: "u32 \<Rightarrow> bool" where
  "scratch x \<longleftrightarrow> x - dap_memory_location < 16 \<or> x - disk_read_location < MAX_SECTORS * SECTOR_SIZE"

definition disk_loaded :: "image \<Rightarrow> nat \<Rightarrow> u32 \<Rightarrow> nat \<Rightarrow> memory \<Rightarrow> memory \<Rightarrow> bool" where
  "disk_loaded D off buf n m m' \<longleftrightarrow>
     (\<forall>x. m' x = (if unat (x - buf) < n then D (off + unat (x - buf)) else if scratch x then m' x else m x))"

section \<open>One transfer\<close>

lemma fillDAP_dap:
  "dap_at (fillDAP m LBA n) dap_memory_location =
     \<lparr>dap_size = 16, dap_unused = 0, dap_numSectors = ucast n, dap_buffer = 0x70000000, dap_LBA = ucast LBA\<rparr>"
proof -
  have "load64 (fillDAP m LBA n) 0x1008 = ucast LBA"
    by (simp add: fillDAP_def Let_def dap_memory_location_def mem_simps)
  moreover have "load32 (fillDAP m LBA n) 0x1004 = 0x70000000"
    by (simp add: fillDAP_def Let_def dap_memory_location_def load_defs store64_other)
      (simp add: store_defs dap_segment_def dap_offset_def disk_read_location_def)
  moreover have "load16 (fillDAP m LBA n) 0x1002 = ucast n"
  proof -
    have "load16 (fillDAP m LBA n) 0x1002 = load16 (store16 m 0x1002 (ucast n)) 0x1002"
      by (simp add: fillDAP_def Let_def dap_memory_location_def load16_def store64_other store32_other) (simp add: store16_def)
    then show ?thesis by (simp add: mem_simps)
  qed
  moreover have "fillDAP m LBA n 0x1000 = 16" "fillDAP m LBA n 0x1001 = 0"
    by (simp_all add: fillDAP_def Let_def dap_memory_location_def store64_other store32_other store16_other)
  ultimately show ?thesis by (simp add: dap_at_def dap_memory_location_def)
qed

lemma fillDAP_other: "\<not> x - dap_memory_location < 16 \<Longrightarrow> fillDAP m LBA n x = m x"
proof -
  assume "\<not> x - dap_memory_location < 16"
  then have "\<not> x - 0x1008 < 8" "\<not> x - 0x1004 < 4" "\<not> x - 0x1002 < 2" "x \<noteq> 0x1001" "x \<noteq> 0x1000"
    unfolding dap_memory_location_def by uint_arith+
  then show ?thesis
    by (simp add: fillDAP_def Let_def dap_memory_location_def store64_other store32_other store16_other)
qed

lemma unat_diff_offset:
  "a < 2 ^ 32 \<Longrightarrow> unat (x - (buf + of_nat a)) =
     (if a \<le> unat (x - buf) then unat (x - buf) - a else unat (x - buf) + 2 ^ 32 - a)" for x buf :: u32
proof -
  assume a: "a < 2 ^ 32"
  have "unat (y - of_nat a) = (if a \<le> unat y then unat y - a else unat y + 2 ^ 32 - a)" for y :: u32
    using a by (simp add: unat_sub_if' unat_of_nat)
  from this [of "x - buf"] show ?thesis by (simp only: diff_diff_eq)
qed

lemma disk_loaded_append:
  assumes "disk_loaded D off buf a m m1" "disk_loaded D (off + a) (buf + of_nat a) b m1 m2"
    and "a + b < 2 ^ 32" and "\<forall>x. unat (x - buf) < a + b \<longrightarrow> \<not> scratch x"
  shows "disk_loaded D off buf (a + b) m m2"
  unfolding disk_loaded_def
proof
  fix x
  have a: "a < 2 ^ 32" using assms(3) by simp
  have m1: "m1 x = (if unat (x - buf) < a then D (off + unat (x - buf)) else if scratch x then m1 x else m x)"
    and m2: "m2 x = (if unat (x - (buf + of_nat a)) < b then D (off + a + unat (x - (buf + of_nat a)))
      else if scratch x then m2 x else m1 x)"
    using assms(1,2) unfolding disk_loaded_def by blast+
  show "m2 x = (if unat (x - buf) < a + b then D (off + unat (x - buf)) else if scratch x then m2 x else m x)"
  proof (cases "a \<le> unat (x - buf)")
    case True
    then have "unat (x - (buf + of_nat a)) = unat (x - buf) - a" using unat_diff_offset [OF a] by simp
    with True m1 m2 show ?thesis by (auto simp: less_diff_conv2 add.commute split: if_splits)
  next
    case False
    then have "\<not> unat (x - (buf + of_nat a)) < b" using unat_diff_offset [OF a, of x buf] assms(3) by simp
    moreover have "\<not> scratch x" using False assms(4) by simp
    ultimately show ?thesis using False m1 m2 by simp
  qed
qed

lemma ucast_u8_u32 [simp]: "ucast (ucast d :: u32) = d" "ucast (ucast (ucast d :: u16) :: u32) = d"
    "(ucast (ucast d :: u16) :: u32) = ucast d" for d :: u8
  by (rule bit_word_eqI, auto simp: bit_simps dest: bit_imp_le_length)+

lemma bios_result:
  assumes "bios_reads bios disk D" "n \<noteq> 0" "n \<le> 127"
  shows "asmCall_int13 bios (fillDAP m LBA n) (ucast disk) =
    (0, \<lambda>x. if unat (x - disk_read_location) < 512 * unat n then D (512 * unat LBA + unat (x - disk_read_location))
        else fillDAP m LBA n x)"
proof -
  have n: "unat (ucast n :: u16) = unat n"
    using assms(3) by (simp add: unsigned_ucast_eq word_le_nat_alt take_bit_nat_eq_self_iff)
  have "(ucast n :: u16) \<noteq> 0 \<and> (ucast n :: u16) \<le> 127"
    using assms(2,3) n by (simp add: word_unat_eq_iff word_le_nat_alt)
  moreover have "unat (ucast LBA :: u64) = unat LBA" by (simp add: unat_ucast_up)
  moreover have "linear 0x70000000 = disk_read_location" by (simp add: linear_def disk_read_location_def)
  ultimately have "fst (bios (fillDAP m LBA n) disk) = False"
    "snd (snd (bios (fillDAP m LBA n) disk)) = (\<lambda>x. if unat (x - disk_read_location) < 512 * unat n
       then D (512 * unat LBA + unat (x - disk_read_location)) else fillDAP m LBA n x)"
    using assms(1) n by (auto simp: bios_reads_def Let_def fillDAP_dap bios_copy_def)
  then show ?thesis
    by (cases "bios (fillDAP m LBA n) disk") (auto simp: asmCall_int13_def)
qed

lemma transfer_loaded:
  assumes "bios_reads bios disk D" "n \<noteq> 0" "n \<le> 127" "unat buf + 512 * unat n \<le> 2 ^ 32"
  shows "\<exists>m1. asmCall_int13 bios (fillDAP m LBA n) (ucast disk) = (0, m1) \<and>
    disk_loaded D (512 * unat LBA) buf (512 * unat n) m (memmove m1 buf disk_read_location (n * SECTOR_SIZE))"
proof -
  define m1 where "m1 = (\<lambda>x. if unat (x - disk_read_location) < 512 * unat n
     then D (512 * unat LBA + unat (x - disk_read_location)) else fillDAP m LBA n x)"
  have n: "unat n \<le> 127" using assms(3) by (simp add: word_le_nat_alt)
  then have sz: "unat (n * SECTOR_SIZE) = 512 * unat n"
    by (simp add: SECTOR_SIZE_def unat_word_ariths)
  have mv: "memmove m1 buf disk_read_location (n * SECTOR_SIZE) = copied m1 buf disk_read_location (n * SECTOR_SIZE)"
    using assms(4) n sz by (intro memmove_eq_copied) (simp_all add: in_bounds_def disk_read_location_def)
  have "m1 (disk_read_location + (x - buf)) = D (512 * unat LBA + unat (x - buf))"
    if "unat (x - buf) < 512 * unat n" for x
    using that by (simp add: m1_def)
  moreover have "m1 x = m x" if "\<not> scratch x" for x
  proof -
    have "\<not> x - dap_memory_location < 16" "\<not> unat (x - disk_read_location) < 512 * 127"
      using that by (simp_all add: scratch_def word_less_nat_alt MAX_SECTORS_def SECTOR_SIZE_def)
    then show ?thesis using n by (simp add: m1_def fillDAP_other)
  qed
  ultimately have "disk_loaded D (512 * unat LBA) buf (512 * unat n) m (copied m1 buf disk_read_location (n * SECTOR_SIZE))"
    using sz by (auto simp: disk_loaded_def copied_def word_less_nat_alt)
  with bios_result [OF assms(1-3)] mv show ?thesis by (simp add: m1_def)
qed

lemma diskRead_loop_loaded:
  assumes "bios_reads bios disk D" "unat sectors mod 127 \<noteq> 0"
    and "unat i \<le> unat sectors div 127" and "rest = unat sectors - 127 * unat i"
    and "unat cb + 512 * rest \<le> 2 ^ 32" "unat cl + rest \<le> 2 ^ 32" "512 * rest < 2 ^ 32"
    and "\<forall>x. unat (x - cb) < 512 * rest \<longrightarrow> \<not> scratch x"
  shows "\<exists>m'. diskRead_loop bios m (ucast disk) sectors i cb cl = Inr m' \<and> disk_loaded D (512 * unat cl) cb (512 * rest) m m'"
  using assms(3-)
proof (induction "unat sectors div 127 - unat i" arbitrary: i rest cb cl m)
  case (0 i rest cb cl m)
  have q: "unat (sectors div MAX_SECTORS) = unat sectors div 127" by (simp add: unat_div MAX_SECTORS_def)
  have i: "unat i = unat sectors div 127" using 0 by simp
  then have ie: "i = sectors div MAX_SECTORS" using q by (simp add: word_unat_eq_iff)
  have r: "rest = unat sectors mod 127" using 0 i by (simp add: minus_mult_div_eq_mod)
  let ?n = "sectors - MAX_SECTORS * i"
  have "?n = sectors mod MAX_SECTORS" by (simp add: ie minus_mult_div_eq_mod mult.commute)
  then have n: "unat ?n = rest" using r by (simp add: unat_mod MAX_SECTORS_def)
  have "?n \<noteq> 0" "?n \<le> 127" using n r assms(2) by (auto simp: word_le_nat_alt word_unat_eq_iff)
  from transfer_loaded [OF assms(1) this, of cb m cl] 0 n obtain m1 where
    m1: "asmCall_int13 bios (fillDAP m cl ?n) (ucast disk) = (0, m1)"
      "disk_loaded D (512 * unat cl) cb (512 * rest) m (memmove m1 cb disk_read_location (?n * SECTOR_SIZE))"
    by auto
  have "\<not> i + 1 \<le> sectors div MAX_SECTORS"
  proof -
    have "unat i < 2 ^ 32 - 1" using i unat_less_2pow [of sectors] by simp
    then show ?thesis by (simp add: ie [symmetric] word_le_nat_alt unat_word_ariths)
  qed
  then show ?case
    using m1 ie by (subst diskRead_loop.simps, simp add: Let_def) (subst diskRead_loop.simps, simp add: Let_def)
next
  case (Suc k i rest cb cl m)
  have q: "unat (sectors div MAX_SECTORS) = unat sectors div 127" by (simp add: unat_div MAX_SECTORS_def)
  have i: "unat i < unat sectors div 127" using Suc.hyps(2) by simp
  then have il: "i < sectors div MAX_SECTORS" using q by (simp add: word_less_nat_alt)
  then have i1: "unat (i + 1) = Suc (unat i)" by (rule word_Suc_unat)
  have "127 * (unat sectors div 127) \<le> unat sectors" by simp
  with i have r: "rest = 127 + (unat sectors - 127 * unat (i + 1))" using Suc.prems i1 by simp
  let ?cb = "cb + MAX_SECTORS * SECTOR_SIZE" and ?cl = "cl + MAX_SECTORS" and ?rest = "unat sectors - 127 * unat (i + 1)"
  from transfer_loaded [OF assms(1), of 127 cb m cl] Suc.prems r obtain m1 where
    m1: "asmCall_int13 bios (fillDAP m cl 127) (ucast disk) = (0, m1)"
      "disk_loaded D (512 * unat cl) cb 65024 m (memmove m1 cb disk_read_location (127 * SECTOR_SIZE))"
    by auto
  let ?m = "memmove m1 cb disk_read_location (127 * SECTOR_SIZE)"
  have pos: "0 < ?rest"
  proof -
    have "127 * (unat sectors div 127) < unat sectors"
      using assms(2) by (metis div_mult_mod_eq less_add_same_cancel1 mult.commute neq0_conv)
    then show ?thesis using i i1 by simp
  qed
  have ucb: "?cb = cb + of_nat 65024" "unat ?cb = unat cb + 65024" "unat ?cl = unat cl + 127"
    using Suc.prems r pos by (simp_all add: MAX_SECTORS_def SECTOR_SIZE_def unat_word_ariths)
  have sc: "\<forall>x. unat (x - ?cb) < 512 * ?rest \<longrightarrow> \<not> scratch x"
    using Suc.prems(4,6) r unat_diff_offset [of 65024 _ cb] unfolding ucb(1) by (auto split: if_splits)
  obtain m' where m': "diskRead_loop bios ?m (ucast disk) sectors (i + 1) ?cb ?cl = Inr m'"
    "disk_loaded D (512 * unat ?cl) ?cb (512 * ?rest) ?m m'"
  proof -
    have "k = unat sectors div 127 - unat (i + 1)" "unat (i + 1) \<le> unat sectors div 127"
      using Suc.hyps(2) i i1 by linarith+
    moreover have "unat ?cb + 512 * ?rest \<le> 2 ^ 32" "unat ?cl + ?rest \<le> 2 ^ 32" "512 * ?rest < 2 ^ 32"
      using Suc.prems(3-5) by (simp_all add: r ucb(2,3) del: One_nat_def)
    ultimately show ?thesis using Suc.hyps(1) [of "i + 1" ?rest ?cb ?cl ?m] sc that by blast
  qed
  have "disk_loaded D (512 * unat cl) cb (65024 + 512 * ?rest) m m'"
    using disk_loaded_append [OF m1(2), of "512 * ?rest" m'] m'(2) ucb Suc.prems r by auto
  moreover have "diskRead_loop bios m (ucast disk) sectors i cb cl = Inr m'"
    using il order_less_imp_le [OF il] m1(1) m'(1)
    by (subst diskRead_loop.simps) (auto simp: Let_def MAX_SECTORS_def)
  ultimately show ?case using r by simp
qed

section \<open>The interface of a sector reader\<close>

text \<open>
  What the file system relies on: a read that succeeds fills the buffer with the bytes of the
  disk and changes nothing else but its own scratch memory. \<open>medium\<close> says that the device
  behind the reader serves the image.
\<close>

locale sector_reader =
  fixes readf :: "'dev \<Rightarrow> memory \<Rightarrow> u64 \<Rightarrow> u32 \<Rightarrow> u32 \<Rightarrow> (int \<times> memory) outcome"
    and medium :: "'dev \<Rightarrow> image \<Rightarrow> bool"
  assumes read_law: "medium dev D \<Longrightarrow> unat n mod 127 \<noteq> 0 \<Longrightarrow> unat LBA + unat n \<le> 2 ^ 32 \<Longrightarrow>
    unat buf + 512 * unat n \<le> 2 ^ 32 \<Longrightarrow> 512 * unat n < 2 ^ 32 \<Longrightarrow>
    (\<forall>x. unat (x - buf) < 512 * unat n \<longrightarrow> \<not> scratch x) \<Longrightarrow>
    \<exists>m'. readf dev m LBA buf n = Inr (1, m') \<and> disk_loaded D (512 * unat LBA) buf (512 * unat n) m m'"
begin

lemma read_bytes_of_image:
  assumes "medium dev D" "unat n mod 127 \<noteq> 0" "unat LBA + unat n \<le> 2 ^ 32"
    "unat buf + 512 * unat n \<le> 2 ^ 32" "512 * unat n < 2 ^ 32"
    "\<forall>x. unat (x - buf) < 512 * unat n \<longrightarrow> \<not> scratch x"
  shows "\<exists>m'. readf dev m LBA buf n = Inr (1, m') \<and>
    (\<forall>k < 512 * unat n. m' (buf + of_nat k) = D (512 * unat LBA + k)) \<and>
    (\<forall>x. \<not> unat (x - buf) < 512 * unat n \<and> \<not> scratch x \<longrightarrow> m' x = m x)"
proof -
  obtain m' where m': "readf dev m LBA buf n = Inr (1, m')" "disk_loaded D (512 * unat LBA) buf (512 * unat n) m m'"
    using read_law [OF assms] by blast
  have "m' (buf + of_nat k) = D (512 * unat LBA + k)" if "k < 512 * unat n" for k
  proof -
    have "unat (of_nat k :: u32) = k" using that assms(5) by (simp add: unat_of_nat)
    then show ?thesis
      using that m'(2) unfolding disk_loaded_def by (metis add_diff_cancel_left')
  qed
  moreover have "m' x = m x" if "\<not> unat (x - buf) < 512 * unat n" "\<not> scratch x" for x
    using that m'(2) unfolding disk_loaded_def by meson
  ultimately show ?thesis using m'(1) by blast
qed

end

interpretation bios_disk: sector_reader "\<lambda>(bios, disk). diskReadFunc bios disk" "\<lambda>(bios, disk). bios_reads bios disk"
proof unfold_locales
  fix dev :: "bios13 \<times> u8" and D and n :: u32 and LBA :: u64 and buf m
  assume a: "(case dev of (bios, disk) \<Rightarrow> bios_reads bios disk) D" "unat n mod 127 \<noteq> 0" "unat LBA + unat n \<le> 2 ^ 32"
    "unat buf + 512 * unat n \<le> 2 ^ 32" "512 * unat n < 2 ^ 32" "\<forall>x. unat (x - buf) < 512 * unat n \<longrightarrow> \<not> scratch x"
  obtain bios disk where dev: "dev = (bios, disk)" by fastforce
  have "n \<noteq> 0" using a(2) by (metis mod_0 unsigned_0)
  then have "0 < unat n" by (simp add: unat_gt_0)
  with a(3) have L: "unat (ucast LBA :: u32) = unat LBA"
    by (simp add: unsigned_ucast_eq take_bit_nat_eq_self_iff)
  with diskRead_loop_loaded [of bios disk D n 0 "unat n" buf "ucast LBA" m] a dev show
    "\<exists>m'. (case dev of (bios, disk) \<Rightarrow> diskReadFunc bios disk) m LBA buf n = Inr (1, m') \<and>
       disk_loaded D (512 * unat LBA) buf (512 * unat n) m m'"
    by (auto simp: diskReadFunc_def diskRead16_def)
qed

section \<open>What disk reads guarantee\<close>

text \<open>
  C11. Given a BIOS that serves the image for requests of 1 to 127 sectors, a read of any number
  of sectors that is not a multiple of 127 (for those see \<open>diskRead_zero_sector_request\<close>), into a buffer apart from the packet at \<open>0x1000\<close> and the bounce
  buffer at \<open>0x70000\<close>, returns 1 and fills the buffer with the bytes of the image. Besides the buffer only the packet and the bounce buffer (\<open>scratch\<close>) change.
\<close>

theorem diskRead_loads_sectors:
  assumes "bios_reads bios disk D" "unat n mod 127 \<noteq> 0" "unat LBA + unat n \<le> 2 ^ 32"
    "unat buf + 512 * unat n \<le> 2 ^ 32" "512 * unat n < 2 ^ 32"
    "\<forall>x. unat (x - buf) < 512 * unat n \<longrightarrow> \<not> scratch x"
  shows "\<exists>m'. diskReadFunc bios disk m LBA buf n = Inr (1, m') \<and>
    (\<forall>k < 512 * unat n. m' (buf + of_nat k) = D (512 * unat LBA + k)) \<and>
    (\<forall>x. \<not> unat (x - buf) < 512 * unat n \<and> \<not> scratch x \<longrightarrow> m' x = m x)"
  using bios_disk.read_bytes_of_image [of "(bios, disk)" D n LBA buf m] assms by simp

text \<open>A BIOS that serves an image and, as some do, fails a request for no sectors.\<close>

definition model_bios :: "image \<Rightarrow> bios13" where
  "model_bios D m disk = (let p = dap_at m dap_memory_location in
     if dap_size p = 16 \<and> dap_numSectors p \<noteq> 0 \<and> dap_numSectors p \<le> 127
     then (False, 0, bios_copy D p m) else (True, 1, m))"

lemma model_bios_reads: "bios_reads (model_bios D) disk D"
  by (auto simp: bios_reads_def model_bios_def Let_def)

theorem diskRead_loads_sectors_witness:
  "\<exists>m'. diskReadFunc (model_bios (\<lambda>k. of_nat k)) 0x80 (\<lambda>_. 0) 1 0x20000 1 = Inr (1, m') \<and> m' 0x20003 = of_nat 515"
proof -
  have sc: "\<forall>x. unat (x - 0x20000) < 512 * unat (1 :: u32) \<longrightarrow> \<not> scratch x"
    by (auto simp: scratch_def dap_memory_location_def disk_read_location_def MAX_SECTORS_def SECTOR_SIZE_def
        word_less_nat_alt unat_sub_if' split: if_splits)
  obtain m' where m': "diskReadFunc (model_bios (\<lambda>k. of_nat k)) 0x80 (\<lambda>_. 0) 1 0x20000 1 = Inr (1, m')"
    "\<forall>k < 512 * unat (1 :: u32). m' (0x20000 + of_nat k) = of_nat (512 * unat (1 :: u64) + k)"
    using diskRead_loads_sectors [OF model_bios_reads [of "\<lambda>k. of_nat k"] _ _ _ _ sc, where LBA = 1 and disk = "0x80" and m = "\<lambda>_. 0"] by auto
  from m'(2) [rule_format, of 3] have "m' 0x20003 = of_nat 515" by simp
  with m'(1) show ?thesis by blast
qed

text \<open>
  C24. A read of a positive multiple of 127 sectors issues, after the last full transfer, a request for
  no sectors; a BIOS that fails such a request makes the whole read panic although all data was read.
\<close>

theorem diskRead_zero_sector_request:
  assumes "\<forall>m. dap_numSectors (dap_at m dap_memory_location) = 0 \<longrightarrow> fst (bios m disk) \<and> fst (snd (bios m disk)) \<noteq> 0"
    and "sectors mod MAX_SECTORS = 0"
  shows "diskReadFunc bios disk m LBA buf sectors = Inl ''diskRead16(): Failure reading''"
proof -
  have z: "sectors - MAX_SECTORS * (sectors div MAX_SECTORS) = 0"
    using assms(2) by (simp add: minus_mult_div_eq_mod)
  have last: "\<exists>ah m'. asmCall_int13 bios (fillDAP m LBA 0) (ucast disk) = (ah, m') \<and> ah \<noteq> 0" for m LBA
    using assms(1) [rule_format, of "fillDAP m LBA 0"]
    by (cases "bios (fillDAP m LBA 0) disk") (simp add: asmCall_int13_def fillDAP_dap)
  have "diskRead_loop bios m (ucast disk) sectors i cb cl = Inl diskRead_failure"
    if "i \<le> sectors div MAX_SECTORS" for i m cb cl
    using that
  proof (induction i arbitrary: m cb cl rule: word_upto_induct)
    case stop
    then show ?case using last [of m cl] z by (subst diskRead_loop.simps) (auto simp: Let_def)
  next
    case (step i)
    then show ?case by (subst diskRead_loop.simps) (auto simp: Let_def split: prod.splits)
  qed
  then show ?thesis by (simp add: diskReadFunc_def diskRead16_def diskRead_failure_def)
qed

theorem diskRead_zero_sector_request_witness:
  "diskReadFunc (model_bios (\<lambda>_. 0)) 0x80 (\<lambda>_. 0) 0 0x20000 127 = Inl ''diskRead16(): Failure reading''"
  by (rule diskRead_zero_sector_request) (simp_all add: model_bios_def Let_def MAX_SECTORS_def)

end
