(* ===== verification/Fat32.thy ===== *)
theory Fat32
  imports Heap DiskRead
begin

text \<open>
  The FAT32 driver of \<open>include/fs/fat32.hpp\<close> and \<open>lib/fs/fat32.cpp\<close>: the on-disk structures, opening a volume,
  reading a directory, and reading a file of the root directory by following its cluster chain. The disk
  read function is a parameter, constrained where needed by the contract \<open>sector_reader\<close>.
\<close>

section \<open>The structures\<close>

record fat32_BPD =
  bytesPerSector :: u16
  sectorsPerCluster :: u8
  reservedSectors :: u16
  numberOfFATs :: u8
  rootDirectoryEntries :: u16
  totalSectors :: u16
  mediaDescriptor :: u8
  sectorsPerFAT_fat1216 :: u16
  sectorsPerTrack :: u16
  numberOfHeads :: u16
  hiddenSectors :: u32
  largeSectorCount :: u32
  sectorsPerFAT :: u32
  bpd_flags :: u16
  FATVersion :: u16
  clusterNumberRoot :: u32
  sectorNumberFSInfo :: u16
  sectorNumberBackupBoot :: u16
  bpd_reserved :: "u8 list"
  driveNumber :: u8
  NTFlags :: u8
  bpd_signature :: u8
  volumeIDSerial :: u32
  volumeLabelString :: "u8 list"
  systemIdentifierStr :: "u8 list"

definition bpd_at :: "memory \<Rightarrow> u32 \<Rightarrow> fat32_BPD" where
  "bpd_at m a = \<lparr>bytesPerSector = load16 m a, sectorsPerCluster = m (a + 2), reservedSectors = load16 m (a + 3),
     numberOfFATs = m (a + 5), rootDirectoryEntries = load16 m (a + 6), totalSectors = load16 m (a + 8),
     mediaDescriptor = m (a + 10), sectorsPerFAT_fat1216 = load16 m (a + 11), sectorsPerTrack = load16 m (a + 13),
     numberOfHeads = load16 m (a + 15), hiddenSectors = load32 m (a + 17), largeSectorCount = load32 m (a + 21),
     sectorsPerFAT = load32 m (a + 25), bpd_flags = load16 m (a + 29), FATVersion = load16 m (a + 31),
     clusterNumberRoot = load32 m (a + 33), sectorNumberFSInfo = load16 m (a + 37), sectorNumberBackupBoot = load16 m (a + 39),
     bpd_reserved = read_bytes m (a + 41) 12, driveNumber = m (a + 53), NTFlags = m (a + 54), bpd_signature = m (a + 55),
     volumeIDSerial = load32 m (a + 56), volumeLabelString = read_bytes m (a + 60) 11, systemIdentifierStr = read_bytes m (a + 71) 8\<rparr>"

record VBR =
  vbr_jump :: "u8 list"
  vbr_OEM :: "u8 list"
  vbr_bpd :: fat32_BPD
  vbrCode :: "u8 list"
  bootableSignature :: u16

definition vbr_at :: "memory \<Rightarrow> u32 \<Rightarrow> VBR" where
  "vbr_at m a = \<lparr>vbr_jump = read_bytes m a 3, vbr_OEM = read_bytes m (a + 3) 8, vbr_bpd = bpd_at m (a + 11),
     vbrCode = read_bytes m (a + 90) 420, bootableSignature = load16 m (a + 510)\<rparr>"

datatype fat32_dirEntry_attributes = NORMAL | READ_ONLY | HIDDEN | SYSTEM | SUBDIRECTORY | ARCHIVE | LFN

primrec attribute_code :: "fat32_dirEntry_attributes \<Rightarrow> u8" where
  "attribute_code NORMAL = 0x0"
| "attribute_code READ_ONLY = 0x01"
| "attribute_code HIDDEN = 0x02"
| "attribute_code SYSTEM = 0x04"
| "attribute_code SUBDIRECTORY = 0x10"
| "attribute_code ARCHIVE = 0x20"
| "attribute_code LFN = 0x0f"

text \<open>Bit-fields are allocated from the least significant bit of the packed 16 bits.\<close>

record fat32_Time =
  hour :: u8
  minutes :: u8
  doubleSeconds :: u8

definition time_of :: "u16 \<Rightarrow> fat32_Time" where
  "time_of w = \<lparr>hour = ucast (w AND 0x1f), minutes = ucast (drop_bit 5 w AND 0x3f), doubleSeconds = ucast (drop_bit 11 w)\<rparr>"

record fat32_Date =
  year :: u8
  month :: u8
  day :: u8

definition date_of :: "u16 \<Rightarrow> fat32_Date" where
  "date_of w = \<lparr>year = ucast (w AND 0x7f), month = ucast (drop_bit 7 w AND 0xf), day = ucast (drop_bit 11 w)\<rparr>"

record fat32_dirEntry =
  fileName :: "u8 list"
  fileExtension :: "u8 list"
  entry_attributes :: u8
  winNTReserved :: u8
  fineCreationTime :: u8
  creationTime :: fat32_Time
  creationDate :: fat32_Date
  lastAccessed :: fat32_Date
  highClusterNumber :: u16
  modificationTime :: fat32_Time
  modificationDate :: fat32_Date
  lowClusterNumber :: u16
  file_size :: u32

definition dirEntry_at :: "memory \<Rightarrow> u32 \<Rightarrow> fat32_dirEntry" where
  "dirEntry_at m a = \<lparr>fileName = read_bytes m a 8, fileExtension = read_bytes m (a + 8) 3, entry_attributes = m (a + 11),
     winNTReserved = m (a + 12), fineCreationTime = m (a + 13), creationTime = time_of (load16 m (a + 14)),
     creationDate = date_of (load16 m (a + 16)), lastAccessed = date_of (load16 m (a + 18)),
     highClusterNumber = load16 m (a + 20), modificationTime = time_of (load16 m (a + 22)),
     modificationDate = date_of (load16 m (a + 24)), lowClusterNumber = load16 m (a + 26), file_size = load32 m (a + 28)\<rparr>"

definition FSINFO_LEAD_SIGNATURE :: u32 where
  "FSINFO_LEAD_SIGNATURE = 0x41615252"

definition FSINFO_OTHER_SIGNATURE :: u32 where
  "FSINFO_OTHER_SIGNATURE = 0x61417272"

definition FSINFO_TRAIL_SIGNATURE :: u32 where
  "FSINFO_TRAIL_SIGNATURE = 0xAA550000"

record FAT32FSInfo =
  leadSignature :: u32
  fsi_reserved :: "u8 list"
  anotherSignature :: u32
  lastFreeClusterCount :: u32
  hintAvailableCluster :: u32
  fsi_reserved2 :: "u8 list"
  trailSignature :: u16

definition fsinfo_at :: "memory \<Rightarrow> u32 \<Rightarrow> FAT32FSInfo" where
  "fsinfo_at m a = \<lparr>leadSignature = load32 m a, fsi_reserved = read_bytes m (a + 4) 480, anotherSignature = load32 m (a + 484),
     lastFreeClusterCount = load32 m (a + 488), hintAvailableCluster = load32 m (a + 492),
     fsi_reserved2 = read_bytes m (a + 496) 12, trailSignature = load16 m (a + 508)\<rparr>"

text \<open>The structs in which the operations return their results; they are on the heap.\<close>

record fat32_internalDirList =
  dl_returnCode :: u32
  dl_size :: u32
  dl_list :: u32
  dl_attr :: u32

definition internalDirList_at :: "memory \<Rightarrow> u32 \<Rightarrow> fat32_internalDirList" where
  "internalDirList_at m a = \<lparr>dl_returnCode = load32 m a, dl_size = load32 m (a + 4), dl_list = load32 m (a + 8), dl_attr = load32 m (a + 12)\<rparr>"

record fat32_fileResult =
  fr_returnCode :: u32
  fr_size :: u32
  fr_ptr :: u32

definition fileResult_at :: "memory \<Rightarrow> u32 \<Rightarrow> fat32_fileResult" where
  "fileResult_at m a = \<lparr>fr_returnCode = load32 m a, fr_size = load32 m (a + 4), fr_ptr = load32 m (a + 8)\<rparr>"

record readDirResult =
  rd_returnCode :: u32
  rd_numEntries :: u32
  rd_entries :: u32

definition readDirResult_at :: "memory \<Rightarrow> u32 \<Rightarrow> readDirResult" where
  "readDirResult_at m a = \<lparr>rd_returnCode = load32 m a, rd_numEntries = load32 m (a + 4), rd_entries = load32 m (a + 8)\<rparr>"

text \<open>The data members of class \<open>fat32\<close>; the read function is passed beside them.\<close>

record fat32 =
  FATptr :: u32
  vbr :: u32
  partitionLBA :: u32

type_synonym reader = "memory \<Rightarrow> u64 \<Rightarrow> u32 \<Rightarrow> u32 \<Rightarrow> (int \<times> memory) outcome"

section \<open>The operations\<close>

definition clusterMask :: u32 where
  "clusterMask = 0xFFFFFFF"

definition FAT_NAME_SIZE :: u32 where
  "FAT_NAME_SIZE = 13"

definition sectorSize :: u32 where
  "sectorSize = 512"

definition fat32_init :: "reader \<Rightarrow> heap_vars \<Rightarrow> memory \<Rightarrow> fat32 \<Rightarrow> u32 \<Rightarrow> (int \<times> fat32 \<times> memory) run" where
  "fat32_init readf g m f partLBA =
     (case kalloc g m 512 of None \<Rightarrow> None | Some (v, m) \<Rightarrow>
      let f = f\<lparr>vbr := v\<rparr> in
      if v = 0 then Some (Inr (99, f, m)) else
      (case readf m (ucast partLBA) v 1 of Inl e \<Rightarrow> Some (Inl e) | Inr (ok, m) \<Rightarrow>
       if ok = 0 then Some (Inr (1, f, m)) else
       let FATsectors = sectorsPerFAT (vbr_bpd (vbr_at m v)) in
       (case kalloc g m (4 * (FATsectors * sectorSize div 4)) of None \<Rightarrow> None | Some (fat, m) \<Rightarrow>
        let f = f\<lparr>FATptr := fat\<rparr> in
        if fat = 0 then Some (Inr (99, f, m)) else
        (case readf m (ucast (partLBA + ucast (reservedSectors (vbr_bpd (vbr_at m v))))) fat FATsectors of
           Inl e \<Rightarrow> Some (Inl e)
         | Inr (ok, m) \<Rightarrow> if ok = 0 then Some (Inr (2, f, m)) else Some (Inr (0, f\<lparr>partitionLBA := partLBA\<rparr>, m))))))"

definition FAT_entry :: "fat32 \<Rightarrow> memory \<Rightarrow> u32 \<Rightarrow> u32" where
  "FAT_entry f m c = load32 m (FATptr f + 4 * c) AND clusterMask"

definition firstDataSector :: "fat32_BPD \<Rightarrow> u32" where
  "firstDataSector b = ucast (reservedSectors b) + ucast (numberOfFATs b) * sectorsPerFAT b"

definition cluster_LBA :: "fat32 \<Rightarrow> fat32_BPD \<Rightarrow> u32 \<Rightarrow> u32" where
  "cluster_LBA f b c = (c - 2) * ucast (sectorsPerCluster b) + firstDataSector b + partitionLBA f"

definition readDir_multi_msg :: panic where
  "readDir_multi_msg = ''readDir(): No support for multiclusters right now''"

definition readDir_disk_msg :: panic where
  "readDir_disk_msg = ''readDir(): Disk read failure!''"

partial_function (option) count_entries :: "memory \<Rightarrow> u32 \<Rightarrow> u32 \<Rightarrow> u32 option" where
  "count_entries m dirPtr n = (if m (dirPtr + 32 * n) \<noteq> 0 then count_entries m dirPtr (n + 1) else Some n)"

text \<open>The struct \<open>readDirResult\<close>: return code, number of entries and entries, at offsets 0, 4 and 8.\<close>

definition readDir :: "reader \<Rightarrow> heap_vars \<Rightarrow> memory \<Rightarrow> fat32 \<Rightarrow> u32 \<Rightarrow> (u32 \<times> memory) run" where
  "readDir readf g m f clusterNumber =
     (let cluster = FAT_entry f m clusterNumber; b = vbr_bpd (vbr_at m (vbr f)) in
      if cluster AND 0xFFFFFF0 \<noteq> 0xFFFFFF0 \<and> cluster AND 0xF < 8 then Some (Inl readDir_multi_msg) else
      (case kalloc g m (ucast (sectorsPerCluster b) * ucast (bytesPerSector b)) of None \<Rightarrow> None | Some (dirPtr, m) \<Rightarrow>
       let b = vbr_bpd (vbr_at m (vbr f)); currentLBA = cluster_LBA f b clusterNumber in
       (case readf m (ucast currentLBA) dirPtr (ucast (sectorsPerCluster b)) of Inl e \<Rightarrow> Some (Inl e) | Inr (ok, m) \<Rightarrow>
        if ok = 0 then Some (Inl readDir_disk_msg) else
        (case count_entries m dirPtr 0 of None \<Rightarrow> None | Some n \<Rightarrow>
         (case kalloc g m 12 of None \<Rightarrow> None | Some (ret, m) \<Rightarrow>
            Some (Inr (ret, store32 (store32 (store32 m ret 0) (ret + 4) n) (ret + 8) dirPtr)))))))"

function name_loop :: "memory \<Rightarrow> u32 \<Rightarrow> u32 \<Rightarrow> u32 \<Rightarrow> u32 \<times> memory" where
  "name_loop m ptr dst i =
     (if i < 8 then let c = m (ptr + i) in if c = 32 then (i, m) else name_loop (m(dst + i := c)) ptr dst (i + 1)
      else (i, m))"
  by pat_completeness auto
termination
  by (relation "measure (\<lambda>(m, ptr, dst, i). 8 - unat i)") (use word_count_up [of _ "8 :: u32"] in auto)

function ext_loop :: "memory \<Rightarrow> u32 \<Rightarrow> u32 \<Rightarrow> u32 \<Rightarrow> u32 \<Rightarrow> u32 \<times> memory" where
  "ext_loop m ptr dst j i =
     (if j < 3 then ext_loop (m(dst + i := m (ptr + 8 + j))) ptr dst (j + 1) (i + 1) else (i, m))"
  by pat_completeness auto
termination
  by (relation "measure (\<lambda>(m, ptr, dst, j, i). 3 - unat j)") (use word_count_up [of _ "3 :: u32"] in auto)

declare name_loop.simps [simp del] ext_loop.simps [simp del]

text \<open>\<open>lfn\<close> is the address of the static string \<open>LFN\<close>.\<close>

definition nameFromEntry :: "u32 \<Rightarrow> heap_vars \<Rightarrow> memory \<Rightarrow> u32 \<Rightarrow> (u32 \<times> memory) option" where
  "nameFromEntry lfn g m ptr =
     (if m (ptr + 11) = attribute_code LFN then Some (lfn, m) else
      (case kalloc g m FAT_NAME_SIZE of None \<Rightarrow> None | Some (dst, m) \<Rightarrow>
       let (i, m) = name_loop m ptr dst 0;
           (i, m) = (if m (ptr + 11) \<noteq> attribute_code SUBDIRECTORY
                     then ext_loop (m(dst + i := 46)) ptr dst 0 (i + 1) else (i, m))
       in Some (dst, m(dst + i := 0))))"

definition isClusterEnd :: "u32 \<Rightarrow> bool" where
  "isClusterEnd clusterNum =
     (let clusterNum = clusterNum AND 0xFFFFFFF in
      if clusterNum \<ge> 0xFFFFFF8 \<and> clusterNum \<le> 0xFFFFFFF then True else False)"

definition rootFile_read_msg :: panic where
  "rootFile_read_msg = ''getRootFile(): Failure on read!''"

definition rootFile_dir_msg :: panic where
  "rootFile_dir_msg = ''getRootFile(): Failure reading directory!''"

partial_function (option) chain_loop :: "reader \<Rightarrow> memory \<Rightarrow> fat32 \<Rightarrow> u32 \<Rightarrow> u32 \<Rightarrow> u32 \<Rightarrow> u32 \<Rightarrow> memory run" where
  "chain_loop readf m f dataSector buffer clusterNum j =
     (if \<not> isClusterEnd clusterNum then
        let b = vbr_bpd (vbr_at m (vbr f));
            currLBA = (clusterNum - 2) * ucast (sectorsPerCluster b) + dataSector + partitionLBA f;
            offset = j * sectorSize
        in (case readf m (ucast currLBA) (buffer + offset) 1 of Inl e \<Rightarrow> Some (Inl e) | Inr (ok, m) \<Rightarrow>
            if ok = 0 then Some (Inl rootFile_read_msg)
            else chain_loop readf m f dataSector buffer (FAT_entry f m clusterNum) (j + 1))
      else Some (Inr m))"

text \<open>The struct \<open>fat32_fileResult\<close>: return code, size and pointer, at offsets 0, 4 and 8.\<close>

partial_function (option) search_loop ::
  "reader \<Rightarrow> u32 \<Rightarrow> heap_vars \<Rightarrow> memory \<Rightarrow> fat32 \<Rightarrow> u32 \<Rightarrow> u32 \<Rightarrow> u32 \<Rightarrow> u32 \<Rightarrow> (u32 \<times> memory) run" where
  "search_loop readf lfn g m f file directory ret i =
     (if i < load32 m (directory + 4) then
        let ptr = load32 m (directory + 8) + 32 * i in
        (case nameFromEntry lfn g m ptr of None \<Rightarrow> None | Some (testFilename, m) \<Rightarrow>
         (case strcmp m testFilename file of None \<Rightarrow> None | Some cmp \<Rightarrow>
          if cmp = 0 then
            let e = dirEntry_at m ptr;
                clusterNum = push_bit 16 (ucast (highClusterNumber e)) OR ucast (lowClusterNumber e);
                dataSector = firstDataSector (vbr_bpd (vbr_at m (vbr f)));
                numSectors = file_size e div sectorSize + 1
            in (case kalloc g m (numSectors * sectorSize) of None \<Rightarrow> None | Some (buffer, m) \<Rightarrow>
                (case chain_loop readf m f dataSector buffer clusterNum 0 of
                   None \<Rightarrow> None | Some (Inl e) \<Rightarrow> Some (Inl e)
                 | Some (Inr m) \<Rightarrow>
                     let m = store32 m (ret + 8) buffer; m = store32 m ret 0;
                         m = store32 m (ret + 4) (file_size (dirEntry_at m ptr))
                     in Some (Inr (ret, m))))
          else search_loop readf lfn g m f file directory ret (i + 1)))
      else Some (Inr (ret, store32 (store32 (store32 m ret 1) (ret + 8) 0) (ret + 4) 0)))"

definition getRootFile :: "reader \<Rightarrow> u32 \<Rightarrow> heap_vars \<Rightarrow> memory \<Rightarrow> fat32 \<Rightarrow> u32 \<Rightarrow> (u32 \<times> memory) run" where
  "getRootFile readf lfn g m f file =
     (case readDir readf g m f (clusterNumberRoot (vbr_bpd (vbr_at m (vbr f)))) of
        None \<Rightarrow> None | Some (Inl e) \<Rightarrow> Some (Inl e)
      | Some (Inr (directory, m)) \<Rightarrow>
          (case kalloc g m 12 of None \<Rightarrow> None | Some (ret, m) \<Rightarrow>
           if load32 m directory \<noteq> 0 then Some (Inl rootFile_dir_msg)
           else search_loop readf lfn g m f file directory ret 0))"

text \<open>The struct \<open>fat32_internalDirList\<close> at \<open>ret\<close>: return code, number of entries, list of names and list of attributes, at
  offsets 0, 4, 8 and 12; an attribute takes the four bytes of its enumeration. The two local arrays called \<open>str\<close> of the source
  are on the stack, at \<open>lfn_str\<close> and \<open>str\<close>.\<close>

partial_function (option) dirList_loop :: "heap_vars \<Rightarrow> u32 \<Rightarrow> u32 \<Rightarrow> memory \<Rightarrow> u32 \<Rightarrow> u32 \<Rightarrow> u32 \<Rightarrow> u32 \<Rightarrow> memory option" where
  "dirList_loop g lfn_str str m dirStruct filenameList ret i =
     (if i < load32 m (dirStruct + 4) then
        let ptr = load32 m (dirStruct + 8) + 32 * i in
        if m (ptr + 11) = attribute_code LFN then
          let m = write_bytes m lfn_str [76, 70, 78, 0];
              m = store32 m (filenameList + 4 * i) lfn_str;
              m = store32 m (load32 m (ret + 12) + 4 * i) (ucast (attribute_code LFN))
          in dirList_loop g lfn_str str m dirStruct filenameList ret (i + 1)
        else
          let (j, m) = name_loop m ptr str 0;
              (j, m) = (if m (ptr + 11) \<noteq> attribute_code SUBDIRECTORY then ext_loop (m(str + j := 46)) ptr str 0 (j + 1) else (j, m));
              m = m(str + j := 0)
          in (case strlen m str of None \<Rightarrow> None | Some n \<Rightarrow>
              (case kalloc g m (n + 1) of None \<Rightarrow> None | Some (p, m) \<Rightarrow>
               (case strcpy (store32 m (filenameList + 4 * i) p) p str of None \<Rightarrow> None | Some m \<Rightarrow>
                let m = store32 m (load32 m (ret + 12) + 4 * i) (ucast (m (ptr + 11)))
                in dirList_loop g lfn_str str m dirStruct filenameList ret (i + 1))))
      else Some m)"

definition getInternalDirectoryList :: "reader \<Rightarrow> u32 \<Rightarrow> u32 \<Rightarrow> heap_vars \<Rightarrow> memory \<Rightarrow> fat32 \<Rightarrow> (u32 \<times> memory) run" where
  "getInternalDirectoryList readf lfn_str str g m f =
     (case readDir readf g m f (clusterNumberRoot (vbr_bpd (vbr_at m (vbr f)))) of
        None \<Rightarrow> None | Some (Inl e) \<Rightarrow> Some (Inl e)
      | Some (Inr (dirStruct, m)) \<Rightarrow>
          (case kalloc g m 16 of None \<Rightarrow> None | Some (ret, m) \<Rightarrow>
           (case kalloc g m (4 * load32 m (dirStruct + 4)) of None \<Rightarrow> None | Some (filenameList, m) \<Rightarrow>
            (case kalloc g m (4 * load32 m (dirStruct + 4)) of None \<Rightarrow> None | Some (attr, m) \<Rightarrow>
             (case dirList_loop g lfn_str str (store32 m (ret + 12) attr) dirStruct filenameList ret 0 of None \<Rightarrow> None | Some m \<Rightarrow>
              let m = store32 m (ret + 8) filenameList;
                  m = store32 m (ret + 4) (load32 m (dirStruct + 4));
                  m = store32 m ret 0
              in Some (Inr (ret, m)))))))"

declare dirList_loop.simps [code]
declare count_entries.simps [code] chain_loop.simps [code] search_loop.simps [code]

section \<open>File names\<close>

text \<open>The name of an entry: the base name up to the first space, then, except for a subdirectory, a dot and
  the three characters of the extension.\<close>

definition fat_name :: "memory \<Rightarrow> u32 \<Rightarrow> u8 list" where
  "fat_name m ptr = takeWhile (\<lambda>c. c \<noteq> 32) (read_bytes m ptr 8) @
     (if m (ptr + 11) \<noteq> attribute_code SUBDIRECTORY then 46 # read_bytes m (ptr + 8) 3 else [])"

lemma write_bytes_other:
  "\<not> unat (x - a) < length xs \<Longrightarrow> write_bytes m a xs x = m x"
  by (simp add: write_bytes_def)

text \<open>The entry of 32 bytes at \<open>ptr\<close> and the buffer of 13 bytes at \<open>dst\<close> do not overlap.\<close>

lemma entry_kept:
  assumes "sep dst 13 ptr 32" "length xs \<le> 13" "k < 32"
  shows "write_bytes m dst xs (ptr + k) = m (ptr + k)"
proof (rule write_bytes_other)
  have "\<not> ptr + k - dst < 13" using sep_shift [OF assms(1,3)] .
  then show "\<not> unat (ptr + k - dst) < length xs" using assms(2) by (simp add: word_less_nat_alt)
qed

lemma name_loop_write:
  assumes "sep dst 13 ptr 32" "i = of_nat (length xs)" "length xs + n = 8"
  shows "name_loop (write_bytes m dst xs) ptr dst i =
    (let ys = xs @ takeWhile (\<lambda>c. c \<noteq> 32) (read_bytes m (ptr + i) n) in (of_nat (length ys), write_bytes m dst ys))"
  using assms(2,3)
proof (induction n arbitrary: xs i)
  case 0
  then have "\<not> i < 8" by (simp add: word_less_nat_alt)
  with 0 show ?case by (simp add: name_loop.simps read_bytes_def)
next
  case (Suc n)
  then have i: "i < 8" "i < 32" by (auto simp: word_less_nat_alt unat_of_nat)
  have c: "write_bytes m dst xs (ptr + i) = m (ptr + i)"
    using entry_kept [OF assms(1) _ i(2)] Suc.prems by simp
  show ?case
  proof (cases "m (ptr + i) = 32")
    case True
    then show ?thesis using i c Suc.prems by (subst name_loop.simps) (simp add: Let_def read_bytes_Suc)
  next
    case False
    have "(write_bytes m dst xs)(dst + i := m (ptr + i)) = write_bytes m dst (xs @ [m (ptr + i)])"
      using write_bytes_snoc [of xs m dst] Suc.prems by simp
    then show ?thesis
      using Suc.IH [of "i + 1" "xs @ [m (ptr + i)]"] Suc.prems i c False
      by (subst name_loop.simps) (simp add: Let_def read_bytes_Suc add.assoc)
  qed
qed

lemma ext_loop_write:
  assumes "sep dst 13 ptr 32" "i = of_nat (length xs)" "length xs \<le> 9 + unat j" "unat j + n = 3"
  shows "ext_loop (write_bytes m dst xs) ptr dst j i =
    (i + of_nat n, write_bytes m dst (xs @ read_bytes m (ptr + 8 + j) n))"
  using assms(2-)
proof (induction n arbitrary: xs i j)
  case 0
  then have "\<not> j < 3" by (simp add: word_less_nat_alt)
  then show ?case by (simp add: ext_loop.simps read_bytes_def)
next
  case (Suc n)
  then have j: "j < 3" by (auto simp: word_less_nat_alt)
  then have "8 + j < 32" by (simp add: word_less_nat_alt unat_word_ariths)
  then have c: "write_bytes m dst xs (ptr + 8 + j) = m (ptr + 8 + j)"
    using entry_kept [OF assms(1), of xs "8 + j"] Suc.prems by (simp add: add.assoc)
  have "(write_bytes m dst xs)(dst + i := m (ptr + 8 + j)) = write_bytes m dst (xs @ [m (ptr + 8 + j)])"
    using write_bytes_snoc [of xs m dst] Suc.prems by simp
  then show ?case
    using Suc.IH [of "i + 1" "xs @ [m (ptr + 8 + j)]" "j + 1"] Suc.prems j c word_Suc_unat [OF j]
    by (subst ext_loop.simps) (simp add: read_bytes_Suc add.assoc)
qed

text \<open>The code that writes the name of the entry at \<open>ptr\<close> to a buffer at \<open>dst\<close>.\<close>

lemma name_text:
  assumes "sep dst 13 ptr 32"
  shows "(case name_loop m ptr dst 0 of (i, m) \<Rightarrow>
     (case (if m (ptr + 11) \<noteq> attribute_code SUBDIRECTORY then ext_loop (m(dst + i := 46)) ptr dst 0 (i + 1) else (i, m)) of
        (i, m) \<Rightarrow> m(dst + i := 0))) = write_bytes m dst (fat_name m ptr @ [0])"
    and "length (fat_name m ptr) \<le> 12"
proof -
  let ?ys = "takeWhile (\<lambda>c. c \<noteq> 32) (read_bytes m ptr 8)"
  have len: "length ?ys \<le> 8" using length_takeWhile_le [of _ "read_bytes m ptr 8"] by simp
  then show "length (fat_name m ptr) \<le> 12" by (simp add: fat_name_def)
  have base: "name_loop m ptr dst 0 = (of_nat (length ?ys), write_bytes m dst ?ys)"
    using name_loop_write [OF assms, of 0 "[]" 8 m] by (simp add: Let_def)
  have attr: "write_bytes m dst ?ys (ptr + 11) = m (ptr + 11)"
    using entry_kept [OF assms, of ?ys 11 m] len by simp
  show "(case name_loop m ptr dst 0 of (i, m) \<Rightarrow>
     (case (if m (ptr + 11) \<noteq> attribute_code SUBDIRECTORY then ext_loop (m(dst + i := 46)) ptr dst 0 (i + 1) else (i, m)) of
        (i, m) \<Rightarrow> m(dst + i := 0))) = write_bytes m dst (fat_name m ptr @ [0])"
  proof (cases "m (ptr + 11) = attribute_code SUBDIRECTORY")
    case True
    have "(write_bytes m dst ?ys)(dst + of_nat (length ?ys) := 0) = write_bytes m dst (?ys @ [0])"
      using write_bytes_snoc [of ?ys m dst 0] len by simp
    with True show ?thesis using base attr by (simp add: fat_name_def del: attribute_code.simps)
  next
    case False
    let ?zs = "?ys @ [46]" and ?e = "read_bytes m (ptr + 8) 3"
    have dot: "(write_bytes m dst ?ys)(dst + of_nat (length ?ys) := 46) = write_bytes m dst ?zs"
      using write_bytes_snoc [of ?ys m dst 46] len by simp
    have "ext_loop (write_bytes m dst ?zs) ptr dst 0 (of_nat (length ?zs)) =
        (of_nat (length (?zs @ ?e)), write_bytes m dst (?zs @ ?e))"
      using ext_loop_write [OF assms, of "of_nat (length ?zs)" ?zs 0 3 m] len by simp
    moreover have "(write_bytes m dst (?zs @ ?e))(dst + of_nat (length (?zs @ ?e)) := 0) = write_bytes m dst ((?zs @ ?e) @ [0])"
      using write_bytes_snoc [of "?zs @ ?e" m dst 0] len by simp
    ultimately show ?thesis
      using False base attr dot by (simp add: fat_name_def add.commute del: attribute_code.simps)
  qed
qed

lemma nameFromEntry_text:
  assumes "m (ptr + 11) \<noteq> attribute_code LFN" "kalloc g m FAT_NAME_SIZE = Some (dst, m1)" "sep dst 13 ptr 32"
    and "\<And>k. k < 32 \<Longrightarrow> m1 (ptr + k) = m (ptr + k)"
  shows "nameFromEntry lfn g m ptr = Some (dst, write_bytes m1 dst (fat_name m ptr @ [0]))" and "length (fat_name m ptr) \<le> 12"
proof -
  have entry: "read_bytes m1 (ptr + of_nat a) n = read_bytes m (ptr + of_nat a) n" if "a + n \<le> 32" for a n
  proof (rule read_bytes_cong)
    fix k assume "k < n"
    with that have "(of_nat (a + k) :: u32) < 32" by (simp add: word_less_nat_alt unat_of_nat del: of_nat_add)
    from assms(4) [OF this] show "m1 (ptr + of_nat a + of_nat k) = m (ptr + of_nat a + of_nat k)" by (simp add: add.assoc)
  qed
  have "fat_name m1 ptr = fat_name m ptr"
    using entry [of 0 8] entry [of 8 3] assms(4) [of 11] by (simp add: fat_name_def)
  moreover obtain i n where l: "name_loop m1 ptr dst 0 = (i, n)" by fastforce
  moreover obtain i' n' where "(if n (ptr + 11) \<noteq> attribute_code SUBDIRECTORY then ext_loop (n(dst + i := 46)) ptr dst 0 (i + 1) else (i, n)) = (i', n')"
    by fastforce
  ultimately show "nameFromEntry lfn g m ptr = Some (dst, write_bytes m1 dst (fat_name m ptr @ [0]))"
    using assms(1,2) name_text(1) [OF assms(3), of m1]
    unfolding nameFromEntry_def Let_def by (simp only: option.case prod.case if_False)
  show "length (fat_name m ptr) \<le> 12" by (rule name_text(2) [OF assms(3)])
qed

section \<open>Reading into the heap\<close>

text \<open>The heap is apart from the scratch memory of disk reads.\<close>

definition clear_of_scratch :: "nat \<Rightarrow> nat \<Rightarrow> bool" where
  "clear_of_scratch a len \<longleftrightarrow> (\<forall>x. a \<le> x \<and> x < a + len \<longrightarrow> \<not> scratch (of_nat x))"

definition fixed :: "nat \<Rightarrow> nat \<Rightarrow> u32 \<Rightarrow> bool" where
  "fixed a len x \<longleftrightarrow> \<not> (a \<le> unat x \<and> unat x < a + len) \<and> \<not> scratch x"

lemma unat_in_block:
  assumes "x < 2 ^ 32" "unat p + n \<le> 2 ^ 32"
  shows "unat (of_nat x - (p :: u32)) < n \<longleftrightarrow> unat p \<le> x \<and> x < unat p + n \<or> 2 ^ 32 \<le> n"
  using assms by (auto simp: unat_sub_if' unat_of_nat)

context sector_reader
begin

lemma read_into_block:
  assumes "medium dev D" "arena a len m L k" "clear_of_scratch a len" "(p, n) \<in> L" "p \<le> unat buf" "unat buf + 512 * unat s \<le> p + n"
    and "unat s mod 127 \<noteq> 0" "unat LBA + unat s \<le> 2 ^ 32"
  shows "\<exists>m'. readf dev m LBA buf s = Inr (1, m') \<and> arena a len m' L k \<and> (\<forall>b \<in> L - {(p, n)}. same_block b m m') \<and>
    (\<forall>j < 512 * unat s. m' (buf + of_nat j) = D (512 * unat LBA + j)) \<and>
    (\<forall>x. p \<le> x \<and> x < p + n \<and> \<not> (unat buf \<le> x \<and> x < unat buf + 512 * unat s) \<longrightarrow> m' (of_nat x) = m (of_nat x)) \<and>
    (\<forall>x. fixed a len x \<longrightarrow> m' x = m x)"
proof -
  have in_: "a + 8 \<le> p" "p + n + 8 \<le> a + len" "a + len \<le> 2 ^ 32" using arena_inside [OF assms(2,4)] by auto
  have sz: "unat buf + 512 * unat s < 2 ^ 32" using assms(6) in_ by simp
  have sc: "\<not> scratch x" if "unat (x - buf) < 512 * unat s" for x
  proof -
    have "unat buf \<le> unat x \<and> unat x < unat buf + 512 * unat s"
      using unat_in_block [of "unat x" buf "512 * unat s"] that sz unat_less_2pow [of x] by simp
    then have "\<not> scratch (of_nat (unat x))"
      using assms(3,5,6) in_ unfolding clear_of_scratch_def by (metis add_leD1 le_trans less_le_trans trans_le_add1)
    then show ?thesis by simp
  qed
  obtain m' where m': "readf dev m LBA buf s = Inr (1, m')" "\<forall>j < 512 * unat s. m' (buf + of_nat j) = D (512 * unat LBA + j)"
    "\<forall>x. \<not> unat (x - buf) < 512 * unat s \<and> \<not> scratch x \<longrightarrow> m' x = m x"
    using read_bytes_of_image [OF assms(1,7,8), of buf m] sz sc by auto
  have keep: "m' (of_nat x) = m (of_nat x)" if "a \<le> x" "x < a + len" "\<not> (unat buf \<le> x \<and> x < unat buf + 512 * unat s)" for x
  proof -
    have "\<not> unat (of_nat x - buf) < 512 * unat s"
      using unat_in_block [of x buf "512 * unat s"] that in_ sz by auto
    moreover have "\<not> scratch (of_nat x)" using that assms(3) by (simp add: clear_of_scratch_def)
    ultimately show ?thesis using m'(3) by blast
  qed
  have out: "m' (of_nat x) = m (of_nat x)" if "a \<le> x" "x < a + len" "\<not> (p \<le> x \<and> x < p + n)" for x
    using keep that assms(5,6) by auto
  have "arena a len m' L k" "\<forall>b \<in> L - {(p, n)}. same_block b m m'"
    using owner_write [OF assms(2,4) out] by auto
  moreover have "m' x = m x" if "fixed a len x" for x
  proof -
    have "\<not> unat (x - buf) < 512 * unat s"
      using unat_in_block [of "unat x" buf "512 * unat s"] that in_ sz assms(5,6) unat_less_2pow [of x] by (auto simp: fixed_def)
    then show ?thesis using m'(3) that by (simp add: fixed_def)
  qed
  ultimately show ?thesis using m'(1,2) keep in_ by auto
qed

end

section \<open>Following a cluster chain\<close>

lemma same_block_byte: "same_block (unat p, n) m m' \<Longrightarrow> unat k < n \<Longrightarrow> m' (p + k) = m (p + k)"
proof -
  assume "same_block (unat p, n) m m'" "unat k < n"
  then have "m' (of_nat (unat p + unat k)) = m (of_nat (unat p + unat k))"
    unfolding same_block_def by (simp del: of_nat_add)
  then show ?thesis by simp
qed

lemma bpd_cong:
  assumes "\<And>k. k < 79 \<Longrightarrow> m' (a' + k) = m (a + k)"
  shows "bpd_at m' a' = bpd_at m a"
proof -
  have "read_bytes m' (a' + c) n = read_bytes m (a + c) n" if "unat c + n \<le> 79" for c n
    unfolding read_bytes_def
  proof (rule map_cong [OF refl])
    fix k assume "k \<in> set [0..<n]"
    then have "c + of_nat k < 79" using that by (simp add: word_less_nat_alt unat_word_ariths unat_of_nat)
    from assms [OF this] show "m' (a' + c + of_nat k) = m (a + c + of_nat k)" by (simp add: add.assoc)
  qed
  from this [of 41 12] this [of 60 11] this [of 71 8] assms show ?thesis
    using assms [of 0] by (simp add: bpd_at_def load_defs add.assoc)
qed

lemma vbr_bpd_cong:
  assumes "\<And>k. unat k < 512 \<Longrightarrow> m' (v' + k) = m (v + k)"
  shows "vbr_bpd (vbr_at m' v') = vbr_bpd (vbr_at m v)"
proof -
  have "m' (v' + 11 + k) = m (v + 11 + k)" if "k < 79" for k
  proof -
    have "unat (11 + k) < 512" using that by (simp add: word_less_nat_alt unat_word_ariths)
    from assms [OF this] show ?thesis by (simp add: add.assoc)
  qed
  from bpd_cong [of m' "v' + 11" m "v + 11", OF this] show ?thesis by (simp add: vbr_at_def)
qed

lemma vbr_same_block: "same_block (unat v, 512) m m' \<Longrightarrow> vbr_bpd (vbr_at m' v) = vbr_bpd (vbr_at m v)"
  by (intro vbr_bpd_cong same_block_byte)

lemma FAT_same_block:
  assumes "same_block (unat (FATptr f), n) m m'" "4 * unat c + 4 \<le> n" "unat (FATptr f) + n \<le> 2 ^ 32"
  shows "FAT_entry f m' c = FAT_entry f m c"
proof -
  have "unat (FATptr f + 4 * c) = unat (FATptr f) + 4 * unat c"
    using assms(2,3) by (simp add: unat_word_ariths)
  then show ?thesis
    using load32_same_block [OF assms(1), of "FATptr f + 4 * c"] assms(2) by (simp add: FAT_entry_def)
qed

text \<open>The clusters from \<open>c\<close> to the end of its chain, all with entries in the first \<open>n\<close> bytes of the table.\<close>

fun chain :: "fat32 \<Rightarrow> memory \<Rightarrow> nat \<Rightarrow> u32 \<Rightarrow> u32 list \<Rightarrow> bool" where
  "chain f m n c [] \<longleftrightarrow> isClusterEnd c"
| "chain f m n c (d # ds) \<longleftrightarrow> d = c \<and> \<not> isClusterEnd c \<and> 4 * unat c + 4 \<le> n \<and> chain f m n (FAT_entry f m c) ds"

lemma chain_same_block:
  assumes "same_block (unat (FATptr f), n) m m'" "unat (FATptr f) + n \<le> 2 ^ 32"
  shows "chain f m n c cs \<Longrightarrow> chain f m' n c cs"
  by (induction cs arbitrary: c) (auto simp: FAT_same_block [OF assms(1) _ assms(2)])

definition volume_in :: "fat32 \<Rightarrow> nat \<Rightarrow> (nat \<times> nat) set \<Rightarrow> bool" where
  "volume_in f n L \<longleftrightarrow> (unat (vbr f), 512) \<in> L \<and> (unat (FATptr f), n) \<in> L"

context sector_reader
begin

lemma chain_loop_reads:
  assumes "medium dev D" "arena a len m L k" "clear_of_scratch a len" "volume_in f n L"
    and "(unat buf, bn) \<in> L" "(unat buf, bn) \<noteq> (unat (vbr f), 512)" "(unat buf, bn) \<noteq> (unat (FATptr f), n)"
    and "chain f m n c cs" "512 * (j + length cs) \<le> bn" "b = vbr_bpd (vbr_at m (vbr f))"
  shows "\<exists>m'. chain_loop (readf dev) m f (firstDataSector b) buf c (of_nat j) = Some (Inr m') \<and> arena a len m' L k \<and>
    (\<forall>d \<in> L - {(unat buf, bn)}. same_block d m m') \<and>
    (\<forall>i < length cs. \<forall>t < 512. m' (buf + of_nat (512 * (j + i) + t)) = D (512 * unat (cluster_LBA f b (cs ! i)) + t)) \<and>
    (\<forall>t < 512 * j. m' (buf + of_nat t) = m (buf + of_nat t)) \<and> (\<forall>x. fixed a len x \<longrightarrow> m' x = m x)"
  using assms(2,8-)
proof (induction cs arbitrary: m c j)
  case Nil
  then show ?case by (subst chain_loop.simps) simp
next
  case (Cons d cs)
  have c: "d = c" "\<not> isClusterEnd c" "4 * unat c + 4 \<le> n" "chain f m n (FAT_entry f m c) cs" using Cons.prems(2) by simp_all
  have bl: "unat buf + bn + 8 \<le> 2 ^ 32" "unat (FATptr f) + n \<le> 2 ^ 32"
    using arena_inside [OF Cons.prems(1) assms(5)] arena_inside [OF Cons.prems(1), of "unat (FATptr f)" n] assms(4)
    by (auto simp: volume_in_def)
  let ?buf = "buf + of_nat j * sectorSize" and ?LBA = "ucast (cluster_LBA f b c) :: u64"
  have ub: "unat ?buf = unat buf + 512 * j"
    using bl Cons.prems(3) by (simp add: sectorSize_def unat_word_ariths unat_of_nat)
  have uL: "unat ?LBA = unat (cluster_LBA f b c)" by (simp add: unat_ucast_up)
  have "unat ?LBA + unat (1 :: u32) \<le> 2 ^ 32" using unat_less_2pow [of "cluster_LBA f b c"] uL by simp
  from read_into_block [OF assms(1) Cons.prems(1) assms(3) assms(5), of ?buf 1 ?LBA] this ub Cons.prems(3)
  obtain m1 where m1: "readf dev m ?LBA ?buf 1 = Inr (1, m1)" "arena a len m1 L k" "\<forall>d \<in> L - {(unat buf, bn)}. same_block d m m1"
    "\<forall>t < 512. m1 (?buf + of_nat t) = D (512 * unat (cluster_LBA f b c) + t)"
    "\<forall>x. unat buf \<le> x \<and> x < unat buf + bn \<and> \<not> (unat buf + 512 * j \<le> x \<and> x < unat buf + 512 * j + 512) \<longrightarrow> m1 (of_nat x) = m (of_nat x)"
    "\<forall>x. fixed a len x \<longrightarrow> m1 x = m x"
    by (auto simp: uL)
  have vs: "same_block (unat (vbr f), 512) m m1" "same_block (unat (FATptr f), n) m m1"
    using m1(3) assms(4,6,7) by (auto simp: volume_in_def)
  have fe: "FAT_entry f m1 c = FAT_entry f m c" using FAT_same_block [OF vs(2) c(3) bl(2)] .
  have ch: "chain f m1 n (FAT_entry f m1 c) cs" using chain_same_block [OF vs(2) bl(2) c(4)] fe by simp
  have b1: "b = vbr_bpd (vbr_at m1 (vbr f))" using Cons.prems(4) vbr_same_block [OF vs(1)] by simp
  have len: "512 * (Suc j + length cs) \<le> bn" using Cons.prems(3) by simp
  obtain m' where m': "chain_loop (readf dev) m1 f (firstDataSector b) buf (FAT_entry f m1 c) (of_nat (Suc j)) = Some (Inr m')"
    "arena a len m' L k" "\<forall>d \<in> L - {(unat buf, bn)}. same_block d m1 m'"
    "\<forall>i < length cs. \<forall>t < 512. m' (buf + of_nat (512 * (Suc j + i) + t)) = D (512 * unat (cluster_LBA f b (cs ! i)) + t)"
    "\<forall>t < 512 * Suc j. m' (buf + of_nat t) = m1 (buf + of_nat t)" "\<forall>x. fixed a len x \<longrightarrow> m' x = m1 x"
    using Cons.IH [OF m1(2) ch len b1] by blast
  have "chain_loop (readf dev) m f (firstDataSector b) buf c (of_nat j) = Some (Inr m')"
    using m1(1) m'(1) c(2) Cons.prems(4)
    by (subst chain_loop.simps) (simp add: Let_def cluster_LBA_def add.commute)
  moreover have "\<forall>d \<in> L - {(unat buf, bn)}. same_block d m m'" using m1(3) m'(3) same_block_trans by blast
  moreover have "m' (buf + of_nat t) = m (buf + of_nat t)" if "t < 512 * j" for t
  proof -
    have "m1 (of_nat (unat buf + t)) = m (of_nat (unat buf + t))" using m1(5) that Cons.prems(3) by (simp del: of_nat_add)
    then show ?thesis using m'(5) that by simp
  qed
  moreover have "m' (buf + of_nat (512 * (j + i) + t)) = D (512 * unat (cluster_LBA f b ((d # cs) ! i)) + t)"
    if "i < length (d # cs)" "t < 512" for i t
  proof (cases i)
    case 0
    have "m' (buf + of_nat (512 * j + t)) = m1 (buf + of_nat (512 * j + t))"
      using m'(5) that(2) by (simp del: of_nat_add of_nat_mult)
    also have "\<dots> = m1 (?buf + of_nat t)" by (simp add: sectorSize_def algebra_simps)
    finally show ?thesis using m1(4) that(2) 0 c(1) by simp
  next
    case (Suc i')
    then show ?thesis using m'(4) that by simp
  qed
  moreover have "\<forall>x. fixed a len x \<longrightarrow> m' x = m x" using m1(6) m'(6) by simp
  ultimately show ?case using m'(2) by blast
qed

end

end
