(* ===== verification/Fat32File.thy ===== *)
theory Fat32File
  imports Fat32
begin

text \<open>
  Reading a file of the root directory of a FAT32 volume, end to end: what the operations of \<open>Fat32\<close> return
  is stated in terms of the bytes of the disk.
\<close>

section \<open>What the heap operations keep\<close>

definition kept :: "nat \<Rightarrow> nat \<Rightarrow> (nat \<times> nat) set \<Rightarrow> memory \<Rightarrow> memory \<Rightarrow> bool" where
  "kept a len L m m' \<longleftrightarrow> (\<forall>b \<in> L. same_block b m m') \<and> (\<forall>x. fixed a len x \<longrightarrow> m' x = m x)"

lemma kept_refl [simp]: "kept a len L m m"
  by (simp add: kept_def same_block_def)

lemma kept_trans [trans]: "kept a len L m m1 \<Longrightarrow> kept a len L' m1 m2 \<Longrightarrow> L \<subseteq> L' \<Longrightarrow> kept a len L m m2"
  unfolding kept_def using same_block_trans by (metis subsetD)

lemma kept_block: "kept a len L m m' \<Longrightarrow> b \<in> L \<Longrightarrow> same_block b m m'"
  by (simp add: kept_def)

lemma heap_only_fixed: "heap_only a len m m' \<Longrightarrow> fixed a len x \<Longrightarrow> m' x = m x"
proof -
  assume "heap_only a len m m'" "fixed a len x"
  then have "m' (of_nat (unat x)) = m (of_nat (unat x))"
    using unat_less_2pow [of x] unfolding heap_only_def fixed_def by auto
  then show ?thesis by simp
qed

lemma kalloc_kept:
  assumes "arena (unat (heap g)) len m L (n + 8 + k)" "n < 2 ^ 32"
  shows "\<exists>p m'. kalloc g m (of_nat n) = Some (p, m') \<and> p \<noteq> 0 \<and> arena (unat (heap g)) len m' (insert (unat p, n) L) k \<and>
    unat p \<notin> fst ` L \<and> kept (unat (heap g)) len L m m'"
  using arena_kalloc [OF assms] heap_only_fixed by (auto simp: kept_def)

text \<open>A string constant: outside the heap and outside the memory that disk reads use.\<close>

definition literal :: "nat \<Rightarrow> nat \<Rightarrow> memory \<Rightarrow> u32 \<Rightarrow> u8 list \<Rightarrow> bool" where
  "literal a len m s xs \<longleftrightarrow> cstr m s xs \<and> (\<forall>k \<le> length xs. fixed a len (s + of_nat k))"

lemma literal_kept: "literal a len m s xs \<Longrightarrow> kept a len L m m' \<Longrightarrow> literal a len m' s xs"
  by (auto simp: literal_def kept_def cstr_nth)

lemma kept_load32:
  assumes "kept a len L m m'" "arena a len m L k" "(unat r, n) \<in> L" "i + 4 \<le> n"
  shows "load32 m' (r + of_nat i) = load32 m (r + of_nat i)"
proof -
  have "unat r + n + 8 \<le> 2 ^ 32" using arena_inside [OF assms(2,3)] by simp
  then have "unat (r + of_nat i) = unat r + i" using assms(4) by (simp add: unat_word_ariths unat_of_nat)
  then show ?thesis using load32_same_block [OF kept_block [OF assms(1,3)], of "r + of_nat i"] assms(4) by simp
qed

section \<open>A directory in memory\<close>

text \<open>The bytes of the disk from a given offset, as a memory; the name and the contents of an entry there.\<close>

definition disk_mem :: "image \<Rightarrow> nat \<Rightarrow> memory" where
  "disk_mem D off = (\<lambda>x. D (off + unat x))"

definition entry_name :: "image \<Rightarrow> nat \<Rightarrow> u8 list" where
  "entry_name D off = (if D (off + 11) = attribute_code LFN then [76, 70, 78] else fat_name (disk_mem D off) 0)"

definition disk_entry :: "image \<Rightarrow> nat \<Rightarrow> fat32_dirEntry" where
  "disk_entry D off = dirEntry_at (disk_mem D off) 0"

text \<open>The result of \<open>readDir\<close>: \<open>N\<close> entries, at \<open>dirp\<close>, equal to the disk from \<open>off\<close>.\<close>

definition dir_ready :: "(nat \<times> nat) set \<Rightarrow> memory \<Rightarrow> u32 \<Rightarrow> u32 \<Rightarrow> nat \<Rightarrow> image \<Rightarrow> nat \<Rightarrow> nat \<Rightarrow> bool" where
  "dir_ready L m dir dirp sz D off N \<longleftrightarrow> (unat dir, 12) \<in> L \<and> (unat dirp, sz) \<in> L \<and>
     load32 m (dir + 4) = of_nat N \<and> load32 m (dir + 8) = dirp \<and> 32 * N \<le> sz \<and>
     (\<forall>j < sz. m (dirp + of_nat j) = D (off + j))"

lemma dir_ready_kept:
  assumes "dir_ready L m dir dirp sz D off N" "kept a len L m m'" "arena a len m L k" "L \<subseteq> L'"
  shows "dir_ready L' m' dir dirp sz D off N"
proof -
  have d: "(unat dir, 12) \<in> L" "(unat dirp, sz) \<in> L" using assms(1) by (auto simp: dir_ready_def)
  have sz: "unat dirp + sz \<le> 2 ^ 32" using arena_inside [OF assms(3) d(2)] by simp
  have "m' (dirp + of_nat j) = m (dirp + of_nat j)" if "j < sz" for j
  proof -
    have "unat (of_nat j :: u32) < sz"
      using that by (metis le_less_trans mod_less_eq_dividend unat_of_nat)
    then show ?thesis by (rule same_block_byte [OF kept_block [OF assms(2) d(2)]])
  qed
  then show ?thesis
    using assms(1,4) kept_load32 [OF assms(2,3) d(1), of 4] kept_load32 [OF assms(2,3) d(1), of 8]
    by (auto simp: dir_ready_def)
qed

lemma entry_bytes:
  assumes "dir_ready L m dir dirp sz D off N" "arena a len m L k" "i < N"
  shows "unat (dirp + 32 * of_nat i) = unat dirp + 32 * i" and "unat dirp + 32 * i + 32 \<le> unat dirp + sz"
    and "j < 32 \<Longrightarrow> m (dirp + 32 * of_nat i + j) = disk_mem D (off + 32 * i) j"
proof -
  have d: "(unat dirp, sz) \<in> L" "32 * N \<le> sz" using assms(1) by (auto simp: dir_ready_def)
  have sz: "unat dirp + sz + 8 \<le> 2 ^ 32" using arena_inside [OF assms(2) d(1)] by simp
  show 2: "unat dirp + 32 * i + 32 \<le> unat dirp + sz" using d(2) assms(3) by simp
  then show "unat (dirp + 32 * of_nat i) = unat dirp + 32 * i"
    using sz by (simp add: unat_word_ariths unat_of_nat)
  assume "j < 32"
  then have "unat j < 32" by (simp add: word_less_nat_alt)
  then have "32 * i + unat j < sz" using 2 by simp
  then have "m (dirp + of_nat (32 * i + unat j)) = D (off + (32 * i + unat j))"
    using assms(1) unfolding dir_ready_def by blast
  then show "m (dirp + 32 * of_nat i + j) = disk_mem D (off + 32 * i) j"
    by (simp add: disk_mem_def add.assoc)
qed

lemma read_bytes_entry:
  assumes "\<And>j. j < 32 \<Longrightarrow> m (p + j) = m' (q + j)" "unat c + n \<le> 32"
  shows "read_bytes m (p + c) n = read_bytes m' (q + c) n"
  unfolding read_bytes_def
proof (rule map_cong [OF refl])
  fix k assume "k \<in> set [0..<n]"
  then have "c + of_nat k < 32" using assms(2) by (simp add: word_less_nat_alt unat_word_ariths unat_of_nat)
  from assms(1) [OF this] show "m (p + c + of_nat k) = m' (q + c + of_nat k)" by (simp add: add.assoc)
qed

lemma entry_cong:
  assumes "\<And>j. j < 32 \<Longrightarrow> m (p + j) = m' (q + j)"
  shows "fat_name m p = fat_name m' q" and "dirEntry_at m p = dirEntry_at m' q"
  using read_bytes_entry [of m p m' q, OF assms, of 0 8] read_bytes_entry [of m p m' q, OF assms, of 8 3] assms assms [of 0]
  by (simp_all add: fat_name_def dirEntry_at_def load_defs add.assoc)

lemmas entry_on_disk = entry_cong [where q = 0, unfolded add_0]

lemma name_step:
  assumes "arena (unat (heap g)) len m L (21 + k)" "dir_ready L m dir dirp sz D off N" "i < N"
    and "literal (unat (heap g)) len m lfn [76, 70, 78]" "0 \<notin> set (entry_name D (off + 32 * i))"
  shows "\<exists>t m1 L1. nameFromEntry lfn g m (dirp + 32 * of_nat i) = Some (t, m1) \<and> arena (unat (heap g)) len m1 L1 k \<and>
    L \<subseteq> L1 \<and> kept (unat (heap g)) len L m m1 \<and> cstr m1 t (entry_name D (off + 32 * i))"
proof -
  let ?ptr = "dirp + 32 * of_nat i"
  note e = entry_bytes [OF assms(2,1,3)]
  have attr: "m (?ptr + 11) = D (off + 32 * i + 11)" using e(3) [of 11] by (simp add: disk_mem_def)
  show ?thesis
  proof (cases "m (?ptr + 11) = attribute_code LFN")
    case True
    then have "nameFromEntry lfn g m ?ptr = Some (lfn, m)" by (simp add: nameFromEntry_def)
    then show ?thesis using assms(1,4) attr True arena_mono [OF assms(1), of k] by (auto simp: entry_name_def literal_def)
  next
    case False
    have "arena (unat (heap g)) len m L (13 + 8 + k)" using assms(1) by simp
    from kalloc_kept [OF this] obtain dst m1 where a: "kalloc g m (of_nat 13) = Some (dst, m1)"
      "arena (unat (heap g)) len m1 (insert (unat dst, 13) L) k" "unat dst \<notin> fst ` L" "kept (unat (heap g)) len L m m1"
      by auto
    have d: "(unat dirp, sz) \<in> L" using assms(2) by (auto simp: dir_ready_def)
    have ap: "unat dst + 13 < unat dirp \<or> unat dirp + sz < unat dst"
      using arena_apart [OF a(2), of "unat dst" 13 "unat dirp" sz] d a(3) by force
    have in_: "unat dst + 13 + 8 \<le> 2 ^ 32" "unat dirp + sz + 8 \<le> 2 ^ 32"
      using arena_inside [OF a(2), of "unat dst" 13] arena_inside [OF a(2), of "unat dirp" sz] d by auto
    have sp: "sep dst 13 ?ptr 32"
      using ap in_ e(1,2) by (auto simp: sep_def word_le_nat_alt unat_sub_if')
    have same: "m1 (?ptr + j) = m (?ptr + j)" if "j < 32" for j
    proof -
      have "unat j < 32" using that by (simp add: word_less_nat_alt)
      then have "unat (32 * of_nat i + j) = 32 * i + unat j" "32 * i + unat j < sz"
        using e(2) in_ by (auto simp: unat_word_ariths unat_of_nat)
      then show ?thesis
        using same_block_byte [OF kept_block [OF a(4) d], of "32 * of_nat i + j"] by (simp add: add.assoc)
    qed
    have name: "fat_name m ?ptr = entry_name D (off + 32 * i)"
      using entry_on_disk(1) [of m ?ptr "disk_mem D (off + 32 * i)"] e(3) attr False by (simp add: entry_name_def)
    let ?m2 = "write_bytes m1 dst (fat_name m ?ptr @ [0])"
    note nt = nameFromEntry_text [of m ?ptr g dst m1, OF False _ sp same]
    have r: "nameFromEntry lfn g m ?ptr = Some (dst, ?m2)" and len: "length (fat_name m ?ptr) \<le> 12"
      using nt a(1) by (auto simp: FAT_NAME_SIZE_def)
    have out: "?m2 (of_nat x) = m1 (of_nat x)" if "x < 2 ^ 32" "\<not> (unat dst \<le> x \<and> x < unat dst + 13)" for x
      using unat_in_block [OF that(1), of dst 13] that(2) in_(1) len by (intro write_bytes_outside) auto
    have i: "(unat dst, 13) \<in> insert (unat dst, 13) L" by simp
    have lt: "x < 2 ^ 32" if "x < unat (heap g) + len" for x using that arena_inside [OF a(2) i] by simp
    have ar: "arena (unat (heap g)) len ?m2 (insert (unat dst, 13) L) k"
      using owner_write(1) [OF a(2) i, of ?m2] out lt by blast
    have kp: "kept (unat (heap g)) len L m1 ?m2"
      unfolding kept_def
    proof (intro conjI allI impI ballI)
      fix b assume "b \<in> L"
      then show "same_block b m1 ?m2"
        using owner_write(2) [OF a(2) i, of ?m2 b] out lt a(3) by force
    next
      fix x assume "fixed (unat (heap g)) len x"
      then show "?m2 x = m1 x"
        using out [of "unat x"] unat_less_2pow [of x] arena_inside [OF a(2) i] by (auto simp: fixed_def)
    qed
    have "cstr ?m2 dst (fat_name m ?ptr)" using assms(5) name len by (intro cstr_write_bytes) auto
    then show ?thesis
      using r ar kept_trans [OF a(4) kp] name by (intro exI [of _ dst] exI [of _ ?m2] exI [of _ "insert (unat dst, 13) L"]) auto
  qed
qed

section \<open>Searching the directory\<close>

lemma strcmp_names:
  "cstr m t xs \<Longrightarrow> cstr m s ys \<Longrightarrow> \<exists>c. strcmp m t s = Some c \<and> (c = 0 \<longleftrightarrow> xs = ys)"
  using strcmp_cstr strcmp_spec_eq_0_iff cstr_no_nul by metis

lemma search_step:
  assumes "dir_ready L m dir dirp sz D off N" "i < N" "N < 2 ^ 32" "nameFromEntry lfn g m (dirp + 32 * of_nat i) = Some (t, m1)"
    and "strcmp m1 t file = Some c" "c \<noteq> 0"
  shows "search_loop readf lfn g m f file dir ret (of_nat i) = search_loop readf lfn g m1 f file dir ret (of_nat i + 1)"
proof -
  have "of_nat i < load32 m (dir + 4)" "load32 m (dir + 8) = dirp"
    using assms(1-3) by (simp_all add: dir_ready_def word_less_nat_alt unat_of_nat)
  with assms(4-6) show ?thesis by (subst search_loop.simps) (simp add: Let_def)
qed

lemma search_skips:
  assumes "arena (unat (heap g)) len m L (21 * d + k)" "dir_ready L m dir dirp sz D off N" "i + d \<le> N" "N < 2 ^ 32"
    and "literal (unat (heap g)) len m lfn [76, 70, 78]" "literal (unat (heap g)) len m file name"
    and "\<forall>j < i + d. i \<le> j \<longrightarrow> 0 \<notin> set (entry_name D (off + 32 * j)) \<and> entry_name D (off + 32 * j) \<noteq> name"
  shows "\<exists>m1 L1. search_loop readf lfn g m f file dir ret (of_nat i) = search_loop readf lfn g m1 f file dir ret (of_nat (i + d)) \<and>
    arena (unat (heap g)) len m1 L1 k \<and> L \<subseteq> L1 \<and> kept (unat (heap g)) len L m m1"
  using assms(1,2,3,5,6,7)
proof (induction d arbitrary: i m L)
  case 0
  then show ?case by (auto intro: kept_refl)
next
  case (Suc d)
  have ar: "arena (unat (heap g)) len m L (21 + (21 * d + k))" using Suc.prems(1) by (simp add: add.assoc)
  have i: "i < N" "0 \<notin> set (entry_name D (off + 32 * i))" "entry_name D (off + 32 * i) \<noteq> name" using Suc.prems(3,6) by auto
  obtain t m1 L1 where s: "nameFromEntry lfn g m (dirp + 32 * of_nat i) = Some (t, m1)" "arena (unat (heap g)) len m1 L1 (21 * d + k)"
    "L \<subseteq> L1" "kept (unat (heap g)) len L m m1" "cstr m1 t (entry_name D (off + 32 * i))"
    using name_step [OF ar Suc.prems(2) i(1) Suc.prems(4) i(2)] by blast
  note lits = literal_kept [OF Suc.prems(4) s(4)] literal_kept [OF Suc.prems(5) s(4)]
  obtain c where c: "strcmp m1 t file = Some c" "c \<noteq> 0"
    using strcmp_names [OF s(5), of "file" "name"] lits(2) i(3) by (auto simp: literal_def)
  have step: "search_loop readf lfn g m f file dir ret (of_nat i) = search_loop readf lfn g m1 f file dir ret (of_nat (Suc i))"
    using search_step [OF Suc.prems(2) i(1) assms(4) s(1)] c by (simp add: add.commute)
  obtain m2 L2 where m2: "search_loop readf lfn g m1 f file dir ret (of_nat (Suc i)) = search_loop readf lfn g m2 f file dir ret (of_nat (Suc i + d))"
    "arena (unat (heap g)) len m2 L2 k" "L1 \<subseteq> L2" "kept (unat (heap g)) len L1 m1 m2"
    using Suc.IH [OF s(2) dir_ready_kept [OF Suc.prems(2) s(4) Suc.prems(1) s(3)] _ lits, of "Suc i"] Suc.prems(3,6) by auto
  show ?case
    using step m2 kept_trans [OF s(4) m2(4) s(3)] s(3)
    by (intro exI [of _ m2] exI [of _ L2]) (auto simp del: of_nat_add of_nat_Suc)
qed

text \<open>Filling the three words of a result structure changes its block only.\<close>

lemma owner_store32_fixed:
  assumes "arena a len m0 L k" "(unat r, n) \<in> L" "i + 4 \<le> n" "fixed a len w"
  shows "store32 m (r + of_nat i) v w = m w"
proof (rule store32_other)
  have "a + 8 \<le> unat r" "unat r + n + 8 \<le> a + len" "a + len \<le> 2 ^ 32" using arena_inside [OF assms(1,2)] by auto
  then show "\<not> w - (r + of_nat i) < 4"
    using of_nat_outside [of "unat w" "unat r + i" 4] assms(3,4) unat_less_2pow [of w] by (auto simp: fixed_def)
qed

lemma result_stores:
  assumes "arena a len m L k" "(unat r, 12) \<in> L" "i \<in> {0, 4, 8}" "j \<in> {0, 4, 8}" "l \<in> {0, 4, 8}"
    and "m' = store32 (store32 (store32 m (r + of_nat i) x) (r + of_nat j) y) (r + of_nat l) z"
  shows "arena a len m' L k" and "b \<in> L \<Longrightarrow> b \<noteq> (unat r, 12) \<Longrightarrow> same_block b m m'"
    and "fixed a len w \<Longrightarrow> m' w = m w"
proof -
  have le: "i + 4 \<le> 12" "j + 4 \<le> 12" "l + 4 \<le> 12" using assms(3-5) by auto
  note a1 = owner_store32(1) [OF assms(1,2) le(1)]
  note a2 = owner_store32(1) [OF a1 assms(2) le(2)]
  show "arena a len m' L k" using owner_store32(1) [OF a2 assms(2) le(3)] assms(6) by simp
  show "m' w = m w" if "fixed a len w"
    using owner_store32_fixed [OF assms(1,2) _ that] le assms(6) by simp
  assume b: "b \<in> L" "b \<noteq> (unat r, 12)"
  show "same_block b m m'"
    unfolding assms(6) by (intro same_block_trans [OF same_block_trans [OF owner_store32(2) [OF assms(1,2) le(1) b]
          owner_store32(2) [OF a1 assms(2) le(2) b]] owner_store32(2) [OF a2 assms(2) le(3) b]])
qed

lemma result_block:
  assumes "arena a len m (insert (unat r, 12) L) k" "unat r \<notin> fst ` L"
  shows "arena a len (store32 (store32 (store32 m r x) (r + 4) y) (r + 8) z) (insert (unat r, 12) L) k"
    and "kept a len L m (store32 (store32 (store32 m r x) (r + 4) y) (r + 8) z)"
proof -
  let ?m' = "store32 (store32 (store32 m r x) (r + 4) y) (r + 8) z"
  have m': "?m' = store32 (store32 (store32 m (r + of_nat 0) x) (r + of_nat 4) y) (r + of_nat 8) z" by simp
  note rs = result_stores [OF assms(1) _ _ _ _ m', simplified]
  show "arena a len ?m' (insert (unat r, 12) L) k" by (rule rs(1))
  have "same_block b m ?m'" if "b \<in> L" for b
    using rs(2) [of b] that assms(2) by force
  then show "kept a len L m ?m'" using rs(3) by (simp add: kept_def)
qed

lemma file_result:
  assumes "arena a len m L k" "(unat ret, 12) \<in> L" "m' = store32 (store32 (store32 m (ret + 8) buf) ret 0) (ret + 4) sz"
  shows "load32 m' ret = 0 \<and> load32 m' (ret + 4) = sz \<and> load32 m' (ret + 8) = buf"
    and "b \<in> L \<Longrightarrow> b \<noteq> (unat ret, 12) \<Longrightarrow> same_block b m m'"
  using result_stores(2) [OF assms(1,2), where i = 8 and j = 0 and l = 4 and x = buf and y = 0 and z = sz] assms(3)
  by (simp_all add: mem_simps sep_def word_le_nat_alt)

lemma same_block_dirEntry:
  assumes "dir_ready L m dir dirp sz D off N" "arena a len m L k" "i < N" "same_block (unat dirp, sz) m m'"
  shows "dirEntry_at m' (dirp + 32 * of_nat i) = disk_entry D (off + 32 * i)"
proof -
  note e = entry_bytes [OF assms(1-3)]
  have d: "(unat dirp, sz) \<in> L" using assms(1) by (auto simp: dir_ready_def)
  have sz: "unat dirp + sz + 8 \<le> 2 ^ 32" using arena_inside [OF assms(2) d] by simp
  have "m' (dirp + 32 * of_nat i + j) = disk_mem D (off + 32 * i) j" if "j < 32" for j
  proof -
    have "unat j < 32" using that by (simp add: word_less_nat_alt)
    then have "unat (32 * of_nat i + j) < sz"
      using e(2) sz by (simp add: unat_word_ariths unat_of_nat)
    from same_block_byte [OF assms(4) this] e(3) [OF that] show ?thesis by (simp add: add.assoc)
  qed
  then show ?thesis unfolding disk_entry_def by (rule entry_on_disk(2))
qed

definition entry_cluster :: "fat32_dirEntry \<Rightarrow> u32" where
  "entry_cluster e = push_bit 16 (ucast (highClusterNumber e)) OR ucast (lowClusterNumber e)"

definition buffer_size :: "fat32_dirEntry \<Rightarrow> nat" where
  "buffer_size e = 512 * (unat (file_size e) div 512 + 1)"

lemma buffer_size_word:
  assumes "buffer_size e < 2 ^ 32"
  shows "(file_size e div sectorSize + 1) * sectorSize = of_nat (buffer_size e)"
proof -
  have "unat (file_size e div sectorSize) = unat (file_size e) div 512" by (simp add: sectorSize_def unat_div)
  then have "unat ((file_size e div sectorSize + 1) * sectorSize) = buffer_size e"
    using assms by (simp add: buffer_size_def sectorSize_def unat_word_ariths)
  then show ?thesis by (metis word_unat_eq_iff of_nat_unat ucast_id unat_ucast_up order_refl)
qed

text \<open>The result structure at \<open>ret\<close> and the buffer it points to are blocks of the heap, which has room for \<open>k\<close> more bytes.\<close>

definition file_owned :: "nat \<Rightarrow> nat \<Rightarrow> memory \<Rightarrow> u32 \<Rightarrow> nat \<Rightarrow> nat \<Rightarrow> bool" where
  "file_owned a len m ret sz k \<longleftrightarrow> (\<exists>L. arena a len m L k \<and> (unat ret, 12) \<in> L \<and> (unat (load32 m (ret + 8)), sz) \<in> L)"

context sector_reader
begin

lemma search_hit:
  assumes "medium dev D" "clear_of_scratch (unat (heap g)) len" "volume_in f n L" "b = vbr_bpd (vbr_at m (vbr f))"
    and "arena (unat (heap g)) len m L (21 + (buffer_size e + 8 + k))" "dir_ready L m dir dirp sz D off N" "i < N" "N < 2 ^ 32"
    and "literal (unat (heap g)) len m lfn [76, 70, 78]" "literal (unat (heap g)) len m file name"
    and "0 \<notin> set name" "entry_name D (off + 32 * i) = name" "e = disk_entry D (off + 32 * i)"
    and "buffer_size e < 2 ^ 32" "chain f m n (entry_cluster e) cs" "512 * length cs \<le> buffer_size e"
    and "(unat ret, 12) \<in> L" "ret \<noteq> vbr f" "ret \<noteq> FATptr f" "ret \<noteq> dirp"
  shows "\<exists>m'. search_loop (readf dev) lfn g m f file dir ret (of_nat i) = Some (Inr (ret, m')) \<and>
    load32 m' ret = 0 \<and> load32 m' (ret + 4) = file_size e \<and>
    (\<forall>j < length cs. \<forall>t < 512. m' (load32 m' (ret + 8) + of_nat (512 * j + t)) = D (512 * unat (cluster_LBA f b (cs ! j)) + t)) \<and>
    file_owned (unat (heap g)) len m' ret (buffer_size e) k \<and> (\<forall>x. fixed (unat (heap g)) len x \<longrightarrow> m' x = m x)"
proof -
  let ?ptr = "dirp + 32 * of_nat i"
  let ?a = "unat (heap g)"
  obtain t m1 L1 where s: "nameFromEntry lfn g m ?ptr = Some (t, m1)" "arena ?a len m1 L1 (buffer_size e + 8 + k)"
    "L \<subseteq> L1" "kept ?a len L m m1" "cstr m1 t name"
    using name_step [OF assms(5-7,9)] assms(11,12) by metis
  have c: "strcmp m1 t file = Some 0"
    using strcmp_names [OF s(5), of "file" "name"] literal_kept [OF assms(10) s(4)] by (auto simp: literal_def)
  have d: "(unat dirp, sz) \<in> L" using assms(6) by (auto simp: dir_ready_def)
  have dr1: "dir_ready L1 m1 dir dirp sz D off N" using dir_ready_kept [OF assms(6) s(4) assms(5) s(3)] .
  have e1: "dirEntry_at m1 ?ptr = e"
    using same_block_dirEntry [OF assms(6,5,7) kept_block [OF s(4) d]] assms(13) by simp
  obtain buf m2 where a: "kalloc g m1 (of_nat (buffer_size e)) = Some (buf, m2)"
    "arena ?a len m2 (insert (unat buf, buffer_size e) L1) k" "unat buf \<notin> fst ` L1" "kept ?a len L1 m1 m2"
    using kalloc_kept [OF s(2) assms(14)] by blast
  let ?L = "insert (unat buf, buffer_size e) L1"
  have k2: "kept ?a len L m m2" using kept_trans [OF s(4) a(4) s(3)] .
  have vf: "(unat (vbr f), 512) \<in> L" "(unat (FATptr f), n) \<in> L" using assms(3) by (auto simp: volume_in_def)
  have new: "(unat buf, buffer_size e) \<noteq> x" if "x \<in> L" for x using that s(3) a(3) by (metis fst_conv image_eqI subsetD)
  have vin: "volume_in f n ?L" using vf s(3) by (auto simp: volume_in_def)
  have fn: "unat (FATptr f) + n \<le> 2 ^ 32" using arena_inside [OF assms(5) vf(2)] by simp
  have ch: "chain f m2 n (entry_cluster e) cs" using chain_same_block [OF kept_block [OF k2 vf(2)] fn assms(15)] .
  have bb: "b = vbr_bpd (vbr_at m2 (vbr f))" "b = vbr_bpd (vbr_at m1 (vbr f))"
    using assms(4) vbr_same_block [OF kept_block [OF k2 vf(1)]] vbr_same_block [OF kept_block [OF s(4) vf(1)]] by simp_all
  have sz0: "512 * (0 + length cs) \<le> buffer_size e" using assms(16) by simp
  obtain m3 where m3: "chain_loop (readf dev) m2 f (firstDataSector b) buf (entry_cluster e) 0 = Some (Inr m3)" "arena ?a len m3 ?L k"
    "\<forall>d \<in> ?L - {(unat buf, buffer_size e)}. same_block d m2 m3"
    "\<forall>j < length cs. \<forall>t < 512. m3 (buf + of_nat (512 * j + t)) = D (512 * unat (cluster_LBA f b (cs ! j)) + t)"
    "\<forall>x. fixed ?a len x \<longrightarrow> m3 x = m2 x"
    using chain_loop_reads [OF assms(1) a(2) assms(2) vin _ new [OF vf(1)] new [OF vf(2)] ch sz0 bb(1)] by auto
  have rL: "(unat ret, 12) \<in> ?L" using assms(17) s(3) by auto
  let ?m4 = "store32 (store32 m3 (ret + 8) buf) ret 0"
  let ?m5 = "store32 ?m4 (ret + 4) (file_size e)"
  have a3: "arena ?a len (store32 m3 (ret + 8) buf) ?L k" using owner_store32(1) [OF m3(2) rL, of 8] by simp
  have dm: "(unat dirp, sz) \<in> ?L" "(unat dirp, sz) \<noteq> (unat ret, 12)" using d s(3) assms(20) by (auto simp: word_unat_eq_iff)
  have "same_block (unat dirp, sz) m3 ?m4"
    using owner_store32(2) [OF m3(2) rL _ dm, of 8] owner_store32(2) [OF a3 rL _ dm, of 0] same_block_trans by fastforce
  moreover have "same_block (unat dirp, sz) m1 m2" using kept_block [OF a(4)] d s(3) by blast
  moreover have "same_block (unat dirp, sz) m2 m3" using m3(3) dm(1) new [OF d] by auto
  ultimately have "same_block (unat dirp, sz) m1 ?m4" using same_block_trans by blast
  from same_block_dirEntry [OF dr1 s(2) assms(7) this] have e4: "dirEntry_at ?m4 ?ptr = e" using assms(13) by simp
  have lt: "of_nat i < load32 m (dir + 4)" "load32 m (dir + 8) = dirp"
    using assms(6-8) by (simp_all add: dir_ready_def word_less_nat_alt unat_of_nat)
  have run: "search_loop (readf dev) lfn g m f file dir ret (of_nat i) = Some (Inr (ret, ?m5))"
    by (subst search_loop.simps) (simp only: lt s(1) c e1 a(1) m3(1) [unfolded entry_cluster_def] e4 bb(2) [symmetric]
        buffer_size_word [OF assms(14)] Let_def option.case prod.case sum.case if_True simp_thms)
  note fr = file_result [OF m3(2) rL refl, where buf = buf and sz = "file_size e"]
  have sb: "same_block (unat buf, buffer_size e) m3 ?m5" using fr(2) new [OF assms(17)] by blast
  have "?m5 (buf + of_nat (512 * j + t)) = m3 (buf + of_nat (512 * j + t))" if "j < length cs" "t < 512" for j t
  proof -
    have "512 * j + t < buffer_size e" using that assms(16) by simp
    then show ?thesis using same_block_byte [OF sb, of "of_nat (512 * j + t)"] assms(14) by (simp add: unat_of_nat del: of_nat_add of_nat_mult)
  qed
  moreover have "arena ?a len ?m5 ?L k"
    using result_stores(1) [OF m3(2) rL, of 8 0 4 ?m5 buf 0 "file_size e"] by simp
  then have "file_owned ?a len ?m5 ret (buffer_size e) k" using rL fr(1) by (auto simp: file_owned_def)
  moreover have "?m5 x = m x" if "fixed ?a len x" for x
    using result_stores(3) [OF m3(2) rL, of 8 0 4 ?m5 buf 0 "file_size e", OF _ _ _ _ that] m3(5) k2 that by (simp add: kept_def)
  ultimately show ?thesis using run fr(1) m3(4) by (simp del: of_nat_add of_nat_mult)
qed

end

section \<open>Reading the directory\<close>

lemma count_entries_stops:
  "\<forall>j < N. m (p + 32 * of_nat j) \<noteq> 0 \<Longrightarrow> m (p + 32 * of_nat N) = 0 \<Longrightarrow> i \<le> N \<Longrightarrow> count_entries m p (of_nat i) = Some (of_nat N)"
proof (induction "N - i" arbitrary: i)
  case 0
  then show ?case by (subst count_entries.simps) simp
next
  case (Suc d)
  then have "d = N - Suc i" "Suc i \<le> N" "i < N" by simp_all
  with Suc.hyps(1) [of "Suc i"] Suc.prems have "count_entries m p (of_nat i + 1) = Some (of_nat N)" by (simp add: add.commute)
  with \<open>i < N\<close> Suc.prems(1) show ?case by (subst count_entries.simps) simp
qed

text \<open>A directory of one cluster on the disk: \<open>N\<close> entries with a non-zero first byte, then one that begins with zero.\<close>

definition disk_dir :: "image \<Rightarrow> nat \<Rightarrow> nat \<Rightarrow> nat \<Rightarrow> bool" where
  "disk_dir D off sz N \<longleftrightarrow> 32 * N < sz \<and> (\<forall>j < N. D (off + 32 * j) \<noteq> 0) \<and> D (off + 32 * N) = 0"

definition cluster_bytes :: "fat32_BPD \<Rightarrow> nat" where
  "cluster_bytes b = 512 * unat (sectorsPerCluster b)"

lemma dir_count:
  assumes "disk_dir D off sz N" "\<forall>j < sz. m (p + of_nat j) = D (off + j)"
  shows "count_entries m p 0 = Some (of_nat N)"
proof -
  have "m (p + 32 * of_nat j) = D (off + 32 * j)" if "j \<le> N" for j
  proof -
    have "32 * j < sz" using that assms(1) by (simp add: disk_dir_def)
    then have "m (p + of_nat (32 * j)) = D (off + 32 * j)" using assms(2) by blast
    then show ?thesis by simp
  qed
  then show ?thesis using count_entries_stops [of N m p 0] assms(1) by (simp add: disk_dir_def)
qed

lemma isClusterEnd_low:
  assumes "isClusterEnd c"
  shows "8 \<le> (c AND 0xFFFFFFF) AND 0xF"
proof -
  let ?d = "c AND 0xFFFFFFF"
  have "0xFFFFFF8 \<le> ?d" "?d \<le> 0xFFFFFFF" using assms by (auto simp: isClusterEnd_def Let_def split: if_splits)
  then have "0xFFFFFF8 \<le> unat ?d" "unat ?d \<le> 0xFFFFFFF" by (simp_all add: word_le_nat_alt)
  then have "unat ?d \<in> {0xFFFFFF8, 0xFFFFFF9, 0xFFFFFFA, 0xFFFFFFB, 0xFFFFFFC, 0xFFFFFFD, 0xFFFFFFE, 0xFFFFFFF}" by auto
  then have "?d \<in> {0xFFFFFF8, 0xFFFFFF9, 0xFFFFFFA, 0xFFFFFFB, 0xFFFFFFC, 0xFFFFFFD, 0xFFFFFFE, 0xFFFFFFF}"
    by (simp add: word_unat_eq_iff)
  moreover have "8 \<le> d AND 0xF"
    if "d \<in> {0xFFFFFF8, 0xFFFFFF9, 0xFFFFFFA, 0xFFFFFFB, 0xFFFFFFC, 0xFFFFFFD, 0xFFFFFFE, 0xFFFFFFF}" for d :: u32
    using that by (auto simp: word_le_nat_alt)
  ultimately show ?thesis by blast
qed

lemma FAT_end_low: "isClusterEnd (FAT_entry f m c) \<Longrightarrow> 8 \<le> FAT_entry f m c AND 0xF"
  using isClusterEnd_low [of "FAT_entry f m c"] by (simp add: FAT_entry_def clusterMask_def and.assoc)

context sector_reader
begin

lemma readDir_reads:
  assumes "medium dev D" "clear_of_scratch (unat (heap g)) len" "volume_in f n L" "b = vbr_bpd (vbr_at m (vbr f))"
    and "8 \<le> FAT_entry f m c AND 0xF" "arena (unat (heap g)) len m L (cluster_bytes b + 8 + (12 + 8 + k))"
    and "bytesPerSector b = 512" "unat (sectorsPerCluster b) mod 127 \<noteq> 0"
    and "unat (cluster_LBA f b c) + unat (sectorsPerCluster b) \<le> 2 ^ 32"
    and "disk_dir D (512 * unat (cluster_LBA f b c)) (cluster_bytes b) N"
  shows "\<exists>dir dirp m' L'. readDir (readf dev) g m f c = Some (Inr (dir, m')) \<and> load32 m' dir = 0 \<and>
    dir_ready L' m' dir dirp (cluster_bytes b) D (512 * unat (cluster_LBA f b c)) N \<and>
    arena (unat (heap g)) len m' L' k \<and> L \<subseteq> L' \<and> kept (unat (heap g)) len L m m'"
proof -
  let ?a = "unat (heap g)" and ?spc = "sectorsPerCluster b" and ?sz = "cluster_bytes b"
  let ?off = "512 * unat (cluster_LBA f b c)"
  have spc: "unat ?spc < 256" using unat_less_2pow [of ?spc] by simp
  have u: "unat (ucast ?spc :: u32) = unat ?spc" "unat (ucast (cluster_LBA f b c) :: u64) = unat (cluster_LBA f b c)"
    by (simp_all add: unat_ucast_up)
  have size: "(ucast ?spc :: u32) * ucast (bytesPerSector b) = of_nat ?sz"
    using assms(7) by (simp add: cluster_bytes_def word_unat_eq_iff unat_word_ariths unat_of_nat u unat_ucast_up mult.commute)
  have "?sz < 2 ^ 32" using spc by (simp add: cluster_bytes_def)
  from kalloc_kept [OF assms(6) this] obtain p m1 where p: "kalloc g m (of_nat ?sz) = Some (p, m1)"
    "arena ?a len m1 (insert (unat p, ?sz) L) (12 + 8 + k)" "unat p \<notin> fst ` L" "kept ?a len L m m1" by blast
  let ?L = "insert (unat p, ?sz) L"
  have vf: "(unat (vbr f), 512) \<in> L" using assms(3) by (auto simp: volume_in_def)
  have b1: "vbr_bpd (vbr_at m1 (vbr f)) = b" using assms(4) vbr_same_block [OF kept_block [OF p(4) vf]] by simp
  have pin: "(unat p, ?sz) \<in> ?L" by simp
  obtain m2 where m2: "readf dev m1 (ucast (cluster_LBA f b c)) p (ucast ?spc) = Inr (1, m2)" "arena ?a len m2 ?L (12 + 8 + k)"
    "\<forall>d \<in> ?L - {(unat p, ?sz)}. same_block d m1 m2" "\<forall>j < ?sz. m2 (p + of_nat j) = D (?off + j)"
    "\<forall>x. fixed ?a len x \<longrightarrow> m2 x = m1 x"
    using read_into_block [OF assms(1) p(2) assms(2) pin, of p "ucast ?spc" "ucast (cluster_LBA f b c)"] assms(8,9) u
    by (auto simp: cluster_bytes_def)
  have k2: "kept ?a len L m1 m2" using m2(3,5) p(3) unfolding kept_def by force
  obtain r m3 where r: "kalloc g m2 (of_nat 12) = Some (r, m3)" "arena ?a len m3 (insert (unat r, 12) ?L) k" "unat r \<notin> fst ` ?L"
    "kept ?a len ?L m2 m3" using kalloc_kept [OF m2(2)] by auto
  let ?L' = "insert (unat r, 12) ?L" and ?m4 = "store32 (store32 (store32 m3 r 0) (r + 4) (of_nat N)) (r + 8) p"
  have run: "readDir (readf dev) g m f c = Some (Inr (r, ?m4))"
    using assms(4) b1 size p(1) m2(1) dir_count [OF assms(10) m2(4)] r(1) assms(5)
    by (simp add: readDir_def Let_def not_less)
  have a4: "arena ?a len ?m4 ?L' k" and k4: "kept ?a len ?L m3 ?m4"
    using result_block [OF r(2,3)] by simp_all
  have k24: "kept ?a len ?L m2 ?m4" using kept_trans [OF r(4) k4] by simp
  have ps: "unat p + ?sz + 8 \<le> 2 ^ 32" using arena_inside [OF p(2) pin] by simp
  have "?m4 (p + of_nat j) = m2 (p + of_nat j)" if "j < ?sz" for j
    using same_block_byte [OF kept_block [OF k24 pin], of "of_nat j"] that ps by (simp add: unat_of_nat)
  then have "dir_ready ?L' ?m4 r p ?sz D ?off N"
    using m2(4) assms(10) by (simp add: dir_ready_def disk_dir_def mem_simps sep_def word_le_nat_alt)
  moreover have "load32 ?m4 r = 0" by (simp add: mem_simps sep_def word_le_nat_alt)
  moreover have "kept ?a len L m ?m4" using kept_trans [OF kept_trans [OF p(4) k2] k24] by auto
  ultimately show ?thesis using run a4 by (intro exI [of _ r] exI [of _ p] exI [of _ ?m4] exI [of _ ?L']) auto
qed

end

section \<open>The whole look-up\<close>

text \<open>The state in which a file is looked up: the volume is open, its root directory is one cluster of
  512-byte sectors with \<open>N\<close> entries, and the names compared with are constants.\<close>

definition root_ready :: "heap_vars \<Rightarrow> nat \<Rightarrow> memory \<Rightarrow> (nat \<times> nat) set \<Rightarrow> fat32 \<Rightarrow> nat \<Rightarrow> image \<Rightarrow> nat \<Rightarrow> nat \<Rightarrow> bool" where
  "root_ready g len m L f n D off N \<longleftrightarrow>
     (let b = vbr_bpd (vbr_at m (vbr f)); r = clusterNumberRoot b in
      clear_of_scratch (unat (heap g)) len \<and> volume_in f n L \<and> isClusterEnd (FAT_entry f m r) \<and>
      bytesPerSector b = 512 \<and> unat (sectorsPerCluster b) mod 127 \<noteq> 0 \<and>
      unat (cluster_LBA f b r) + unat (sectorsPerCluster b) \<le> 2 ^ 32 \<and>
      off = 512 * unat (cluster_LBA f b r) \<and> disk_dir D off (cluster_bytes b) N)"

lemma disk_dir_small: "disk_dir D off (cluster_bytes b) N \<Longrightarrow> N < 2 ^ 32"
  using unat_less_2pow [of "sectorsPerCluster b"] by (simp add: disk_dir_def cluster_bytes_def)

context sector_reader
begin

lemma getRootFile_searches:
  assumes "medium dev D" "root_ready g len m L f n D off N" "b = vbr_bpd (vbr_at m (vbr f))"
    and "arena (unat (heap g)) len m L (cluster_bytes b + 48 + 21 * i + k)" "i \<le> N"
    and "literal (unat (heap g)) len m lfn [76, 70, 78]" "literal (unat (heap g)) len m file name"
    and "\<forall>j < i. 0 \<notin> set (entry_name D (off + 32 * j)) \<and> entry_name D (off + 32 * j) \<noteq> name"
  shows "\<exists>dir dirp ret m1 L1. getRootFile (readf dev) lfn g m f file = search_loop (readf dev) lfn g m1 f file dir ret (of_nat i) \<and>
    arena (unat (heap g)) len m1 L1 k \<and> L \<subseteq> L1 \<and> kept (unat (heap g)) len L m m1 \<and>
    dir_ready L1 m1 dir dirp (cluster_bytes b) D off N \<and> (unat ret, 12) \<in> L1 \<and> unat ret \<notin> fst ` L \<and> ret \<noteq> dirp"
proof -
  let ?a = "unat (heap g)" and ?r = "clusterNumberRoot b"
  have h: "clear_of_scratch ?a len" "volume_in f n L" "8 \<le> FAT_entry f m ?r AND 0xF" "bytesPerSector b = 512"
    "unat (sectorsPerCluster b) mod 127 \<noteq> 0" "unat (cluster_LBA f b ?r) + unat (sectorsPerCluster b) \<le> 2 ^ 32"
    "disk_dir D (512 * unat (cluster_LBA f b ?r)) (cluster_bytes b) N" "off = 512 * unat (cluster_LBA f b ?r)"
    using assms(2,3) FAT_end_low [of f m ?r] by (auto simp: root_ready_def Let_def)
  have "arena ?a len m L (cluster_bytes b + 8 + (12 + 8 + (12 + 8 + (21 * i + k))))" using assms(4) by (simp add: add_ac)
  from readDir_reads [OF assms(1) h(1,2) assms(3) h(3) this h(4-7)] obtain dir dirp m1 L1
    where d: "readDir (readf dev) g m f ?r = Some (Inr (dir, m1))" "load32 m1 dir = 0" "dir_ready L1 m1 dir dirp (cluster_bytes b) D off N"
      "arena ?a len m1 L1 (12 + 8 + (21 * i + k))" "L \<subseteq> L1" "kept ?a len L m m1"
    using h(8) by auto
  obtain ret m2 where r: "kalloc g m1 (of_nat 12) = Some (ret, m2)" "arena ?a len m2 (insert (unat ret, 12) L1) (21 * i + k)"
    "unat ret \<notin> fst ` L1" "kept ?a len L1 m1 m2"
    using kalloc_kept [OF d(4)] by auto
  have k2: "kept ?a len L m m2" using kept_trans [OF d(6) r(4) d(5)] .
  have dd: "(unat dir, 12) \<in> L1" "(unat dirp, cluster_bytes b) \<in> L1" using d(3) by (auto simp: dir_ready_def)
  have "load32 m2 dir = 0" using kept_load32 [OF r(4) d(4) dd(1), of 0] d(2) by simp
  then have run: "getRootFile (readf dev) lfn g m f file = search_loop (readf dev) lfn g m2 f file dir ret (of_nat 0)"
    using d(1) r(1) assms(3) by (simp add: getRootFile_def)
  let ?L2 = "insert (unat ret, 12) L1"
  have dr2: "dir_ready ?L2 m2 dir dirp (cluster_bytes b) D off N" using dir_ready_kept [OF d(3) r(4) d(4)] by auto
  obtain m3 L3 where m3: "search_loop (readf dev) lfn g m2 f file dir ret (of_nat 0) = search_loop (readf dev) lfn g m3 f file dir ret (of_nat (0 + i))"
    "arena ?a len m3 L3 k" "?L2 \<subseteq> L3" "kept ?a len ?L2 m2 m3"
    using search_skips [OF r(2) dr2 _ disk_dir_small [OF h(7)] literal_kept [OF assms(6) k2] literal_kept [OF assms(7) k2],
        where i = 0 and readf = "readf dev" and f = f and ret = ret] assms(5,8) by auto
  have "ret \<noteq> dirp" using dd(2) r(3) by force
  moreover have "unat ret \<notin> fst ` L" using r(3) d(5) by blast
  moreover have "kept ?a len L m m3" using kept_trans [OF k2 m3(4)] d(5) by auto
  moreover have "dir_ready L3 m3 dir dirp (cluster_bytes b) D off N" using dir_ready_kept [OF dr2 m3(4) r(2) m3(3)] .
  moreover have "L \<subseteq> L3" "(unat ret, 12) \<in> L3" using m3(3) d(5) by auto
  ultimately show ?thesis
    using run m3(1,2) by (intro exI [of _ dir] exI [of _ dirp] exI [of _ ret] exI [of _ m3] exI [of _ L3]) simp
qed

lemma getRootFile_finds:
  assumes "medium dev D" "root_ready g len m L f n D off N" "b = vbr_bpd (vbr_at m (vbr f))"
    and "arena (unat (heap g)) len m L (cluster_bytes b + 77 + 21 * i + buffer_size e + k)" "i < N"
    and "literal (unat (heap g)) len m lfn [76, 70, 78]" "literal (unat (heap g)) len m file name"
    and "\<forall>j < i. 0 \<notin> set (entry_name D (off + 32 * j)) \<and> entry_name D (off + 32 * j) \<noteq> name"
    and "entry_name D (off + 32 * i) = name" "e = disk_entry D (off + 32 * i)"
    and "buffer_size e < 2 ^ 32" "chain f m n (entry_cluster e) cs" "512 * length cs \<le> buffer_size e"
  shows "\<exists>ret m'. getRootFile (readf dev) lfn g m f file = Some (Inr (ret, m')) \<and>
    load32 m' ret = 0 \<and> load32 m' (ret + 4) = file_size e \<and>
    (\<forall>j < length cs. \<forall>t < 512. m' (load32 m' (ret + 8) + of_nat (512 * j + t)) = D (512 * unat (cluster_LBA f b (cs ! j)) + t)) \<and>
    file_owned (unat (heap g)) len m' ret (buffer_size e) k \<and> (\<forall>x. fixed (unat (heap g)) len x \<longrightarrow> m' x = m x)"
proof -
  let ?a = "unat (heap g)"
  have "arena ?a len m L (cluster_bytes b + 48 + 21 * i + (21 + (buffer_size e + 8 + k)))" using assms(4) by (simp add: add_ac)
  from getRootFile_searches [OF assms(1-3) this _ assms(6,7,8)] assms(5)
  obtain dir dirp ret m1 L1 where s: "getRootFile (readf dev) lfn g m f file = search_loop (readf dev) lfn g m1 f file dir ret (of_nat i)"
    "arena ?a len m1 L1 (21 + (buffer_size e + 8 + k))" "L \<subseteq> L1" "kept ?a len L m m1"
    "dir_ready L1 m1 dir dirp (cluster_bytes b) D off N" "(unat ret, 12) \<in> L1" "unat ret \<notin> fst ` L" "ret \<noteq> dirp"
    by auto
  have cl: "clear_of_scratch ?a len" "volume_in f n L" "N < 2 ^ 32"
    using assms(2,3) disk_dir_small [of D off b N] by (auto simp: root_ready_def Let_def)
  have vf: "(unat (vbr f), 512) \<in> L" "(unat (FATptr f), n) \<in> L" using cl(2) by (auto simp: volume_in_def)
  have v1: "volume_in f n L1" using vf s(3) by (auto simp: volume_in_def)
  have b1: "b = vbr_bpd (vbr_at m1 (vbr f))" using assms(3) vbr_same_block [OF kept_block [OF s(4) vf(1)]] by simp
  have fn: "unat (FATptr f) + n \<le> 2 ^ 32" using arena_inside [OF assms(4) vf(2)] by simp
  have ch: "chain f m1 n (entry_cluster e) cs" using chain_same_block [OF kept_block [OF s(4) vf(2)] fn assms(12)] .
  have nn: "0 \<notin> set name" using assms(7) cstr_no_nul by (auto simp: literal_def)
  have rn: "ret \<noteq> vbr f" "ret \<noteq> FATptr f" using s(7) vf by force+
  show ?thesis
    using search_hit [OF assms(1) cl(1) v1 b1 s(2,5) assms(5) cl(3) literal_kept [OF assms(6) s(4)] literal_kept [OF assms(7) s(4)] nn
      assms(9-11) ch assms(13) s(6) rn s(8)] s(1,4) by (auto simp: kept_def)
qed

lemma getRootFile_misses:
  assumes "medium dev D" "root_ready g len m L f n D off N" "b = vbr_bpd (vbr_at m (vbr f))"
    and "arena (unat (heap g)) len m L (cluster_bytes b + 48 + 21 * N)"
    and "literal (unat (heap g)) len m lfn [76, 70, 78]" "literal (unat (heap g)) len m file name"
    and "\<forall>j < N. 0 \<notin> set (entry_name D (off + 32 * j)) \<and> entry_name D (off + 32 * j) \<noteq> name"
  shows "\<exists>ret m'. getRootFile (readf dev) lfn g m f file = Some (Inr (ret, m')) \<and>
    load32 m' ret = 1 \<and> load32 m' (ret + 4) = 0 \<and> load32 m' (ret + 8) = 0"
proof -
  have "arena (unat (heap g)) len m L (cluster_bytes b + 48 + 21 * N + 0)" using assms(4) by simp
  from getRootFile_searches [OF assms(1-3) this _ assms(5-7)] obtain dir dirp ret m1 L1
    where s: "getRootFile (readf dev) lfn g m f file = search_loop (readf dev) lfn g m1 f file dir ret (of_nat N)"
      "dir_ready L1 m1 dir dirp (cluster_bytes b) D off N" by auto
  have "search_loop (readf dev) lfn g m1 f file dir ret (of_nat N) =
      Some (Inr (ret, store32 (store32 (store32 m1 ret 1) (ret + 8) 0) (ret + 4) 0))"
    using s(2) by (subst search_loop.simps) (simp add: dir_ready_def)
  then show ?thesis using s(1) by (auto simp: mem_simps sep_def word_le_nat_alt)
qed

end

section \<open>Opening a volume\<close>

definition disk_bpd :: "image \<Rightarrow> u32 \<Rightarrow> fat32_BPD" where
  "disk_bpd D LBA = vbr_bpd (vbr_at (disk_mem D (512 * unat LBA)) 0)"

definition disk_FAT :: "image \<Rightarrow> u32 \<Rightarrow> u32 \<Rightarrow> u32" where
  "disk_FAT D LBA c = load32 (disk_mem D (512 * unat (LBA + ucast (reservedSectors (disk_bpd D LBA))))) (4 * c) AND clusterMask"

lemma disk_bpd_read:
  assumes "\<forall>j < 512. m (v + of_nat j) = D (512 * unat LBA + j)"
  shows "vbr_bpd (vbr_at m v) = disk_bpd D LBA"
  unfolding disk_bpd_def
proof (rule vbr_bpd_cong)
  fix k :: u32 assume "unat k < 512"
  with assms have "m (v + of_nat (unat k)) = D (512 * unat LBA + unat k)" by blast
  then show "m (v + k) = disk_mem D (512 * unat LBA) (0 + k)" by (simp add: disk_mem_def)
qed

lemma disk_FAT_read:
  assumes "\<forall>j < n. m (FATptr f + of_nat j) = D (512 * unat (LBA + ucast (reservedSectors (disk_bpd D LBA))) + j)"
    and "4 * unat c + 4 \<le> n" "n < 2 ^ 32"
  shows "FAT_entry f m c = disk_FAT D LBA c"
proof -
  let ?off = "512 * unat (LBA + ucast (reservedSectors (disk_bpd D LBA)))"
  have "m (FATptr f + 4 * c + k) = disk_mem D ?off (4 * c + k)" if "k < 4" for k
  proof -
    have "unat (4 * c + k) = 4 * unat c + unat k" "unat k < 4"
      using that assms(2,3) by (simp_all add: word_less_nat_alt unat_word_ariths)
    moreover from this have "unat (4 * c + k) < n" using assms(2) by linarith
    with assms(1) have "m (FATptr f + of_nat (unat (4 * c + k))) = D (?off + unat (4 * c + k))" by blast
    ultimately show ?thesis by (simp add: disk_mem_def add.assoc)
  qed
  from this [of 0] this [of 1] this [of 2] this [of 3] show ?thesis
    by (simp add: FAT_entry_def disk_FAT_def load_defs add.assoc)
qed

lemma FAT_words:
  assumes "512 * unat S < 2 ^ 32"
  shows "4 * (S * sectorSize div 4) = (of_nat (512 * unat S) :: u32)"
proof -
  have "unat (S * sectorSize) = 512 * unat S" using assms by (simp add: sectorSize_def unat_word_ariths)
  then have "unat (4 * (S * sectorSize div 4)) = 512 * unat S" using assms by (simp add: unat_word_ariths unat_div)
  with assms show ?thesis by (simp add: word_unat_eq_iff unat_of_nat del: of_nat_mult)
qed

context sector_reader
begin

lemma init_opens:
  assumes "medium dev D" "clear_of_scratch (unat (heap g)) len" "S = sectorsPerFAT (disk_bpd D LBA)"
    and "arena (unat (heap g)) len m L (512 + 8 + (512 * unat S + 8 + k))"
    and "unat S mod 127 \<noteq> 0" "512 * unat S < 2 ^ 32" "unat (LBA + ucast (reservedSectors (disk_bpd D LBA))) + unat S \<le> 2 ^ 32"
  shows "\<exists>f' m' L'. fat32_init (readf dev) g m f LBA = Some (Inr (0, f', m')) \<and> partitionLBA f' = LBA \<and>
    arena (unat (heap g)) len m' L' k \<and> L \<subseteq> L' \<and> kept (unat (heap g)) len L m m' \<and> volume_in f' (512 * unat S) L' \<and>
    vbr_bpd (vbr_at m' (vbr f')) = disk_bpd D LBA \<and>
    (\<forall>c. 4 * unat c + 4 \<le> 512 * unat S \<longrightarrow> FAT_entry f' m' c = disk_FAT D LBA c)"
proof -
  let ?a = "unat (heap g)" and ?R = "LBA + ucast (reservedSectors (disk_bpd D LBA))"
  obtain v m1 where v: "kalloc g m (of_nat 512) = Some (v, m1)" "v \<noteq> 0" "arena ?a len m1 (insert (unat v, 512) L) (512 * unat S + 8 + k)"
    "unat v \<notin> fst ` L" "kept ?a len L m m1"
    using kalloc_kept [OF assms(4)] by auto
  let ?L1 = "insert (unat v, 512) L"
  have u: "unat (ucast LBA :: u64) = unat LBA" "unat (ucast ?R :: u64) = unat ?R" by (simp_all add: unat_ucast_up)
  obtain m2 where m2: "readf dev m1 (ucast LBA) v 1 = Inr (1, m2)" "arena ?a len m2 ?L1 (512 * unat S + 8 + k)"
    "\<forall>d \<in> ?L1 - {(unat v, 512)}. same_block d m1 m2" "\<forall>j < 512. m2 (v + of_nat j) = D (512 * unat LBA + j)"
    "\<forall>x. fixed ?a len x \<longrightarrow> m2 x = m1 x"
    using read_into_block [OF assms(1) v(3) assms(2), of "unat v" 512 v 1 "ucast LBA"] u unat_less_2pow [of LBA] by auto
  have k2: "kept ?a len L m m2"
    using v(4,5) m2(3,5) kept_trans [of ?a len L m m1 L m2] unfolding kept_def by force
  obtain t m3 where t: "kalloc g m2 (of_nat (512 * unat S)) = Some (t, m3)" "t \<noteq> 0" "arena ?a len m3 (insert (unat t, 512 * unat S) ?L1) k"
    "unat t \<notin> fst ` ?L1" "kept ?a len ?L1 m2 m3"
    using kalloc_kept [OF m2(2) assms(6)] by blast
  let ?L2 = "insert (unat t, 512 * unat S) ?L1"
  obtain m4 where m4: "readf dev m3 (ucast ?R) t S = Inr (1, m4)" "arena ?a len m4 ?L2 k"
    "\<forall>d \<in> ?L2 - {(unat t, 512 * unat S)}. same_block d m3 m4" "\<forall>j < 512 * unat S. m4 (t + of_nat j) = D (512 * unat ?R + j)"
    "\<forall>x. fixed ?a len x \<longrightarrow> m4 x = m3 x"
    using read_into_block [OF assms(1) t(3) assms(2), of "unat t" "512 * unat S" t S "ucast ?R"] u assms(5,7) by auto
  have k4: "kept ?a len ?L1 m3 m4" using t(4) m4(3,5) unfolding kept_def by force
  have k24: "kept ?a len ?L1 m2 m4" using kept_trans [OF t(5) k4] by simp
  have bpd2: "vbr_bpd (vbr_at m2 v) = disk_bpd D LBA" using disk_bpd_read [OF m2(4)] .
  have bpd: "vbr_bpd (vbr_at m3 v) = disk_bpd D LBA" "vbr_bpd (vbr_at m4 v) = disk_bpd D LBA"
    using bpd2 vbr_same_block [OF kept_block [OF t(5)], of v] vbr_same_block [OF kept_block [OF k24], of v] by simp_all
  let ?f = "f\<lparr>vbr := v, FATptr := t, partitionLBA := LBA\<rparr>"
  have run: "fat32_init (readf dev) g m f LBA = Some (Inr (0, ?f, m4))"
    using v(1,2) m2(1) t(1,2) m4(1) bpd2 bpd(1) assms(3) FAT_words [OF assms(6)]
    by (simp add: fat32_init_def Let_def)
  have "kept ?a len L m m4" using kept_trans [OF k2 k24] by auto
  moreover have "FAT_entry ?f m4 c = disk_FAT D LBA c" if "4 * unat c + 4 \<le> 512 * unat S" for c
    using disk_FAT_read [of "512 * unat S" m4 ?f D LBA c] m4(4) that assms(6) by simp
  ultimately show ?thesis
    using run m4(2) bpd(2) by (intro exI [of _ ?f] exI [of _ m4] exI [of _ ?L2]) (auto simp: volume_in_def)
qed

end

text \<open>A volume on the disk whose root directory is one cluster of 512-byte sectors with \<open>N\<close> entries, at offset \<open>off\<close>.\<close>

definition disk_cluster_LBA :: "image \<Rightarrow> u32 \<Rightarrow> u32 \<Rightarrow> u32" where
  "disk_cluster_LBA D LBA c = (c - 2) * ucast (sectorsPerCluster (disk_bpd D LBA)) + firstDataSector (disk_bpd D LBA) + LBA"

definition disk_volume :: "image \<Rightarrow> u32 \<Rightarrow> nat \<Rightarrow> nat \<Rightarrow> bool" where
  "disk_volume D LBA off N \<longleftrightarrow>
     (let b = disk_bpd D LBA; r = clusterNumberRoot b; S = sectorsPerFAT b in
      unat S mod 127 \<noteq> 0 \<and> 512 * unat S < 2 ^ 32 \<and> unat (LBA + ucast (reservedSectors b)) + unat S \<le> 2 ^ 32 \<and>
      4 * unat r + 4 \<le> 512 * unat S \<and> isClusterEnd (disk_FAT D LBA r) \<and> bytesPerSector b = 512 \<and>
      unat (sectorsPerCluster b) mod 127 \<noteq> 0 \<and> unat (disk_cluster_LBA D LBA r) + unat (sectorsPerCluster b) \<le> 2 ^ 32 \<and>
      off = 512 * unat (disk_cluster_LBA D LBA r) \<and> disk_dir D off (cluster_bytes b) N)"

context sector_reader
begin

lemma init_root_ready:
  assumes "medium dev D" "clear_of_scratch (unat (heap g)) len" "disk_volume D LBA off N" "S = sectorsPerFAT (disk_bpd D LBA)"
    and "arena (unat (heap g)) len m L (528 + 512 * unat S + k)"
  shows "\<exists>f' m' L'. fat32_init (readf dev) g m f LBA = Some (Inr (0, f', m')) \<and> partitionLBA f' = LBA \<and>
    arena (unat (heap g)) len m' L' k \<and> kept (unat (heap g)) len L m m' \<and> vbr_bpd (vbr_at m' (vbr f')) = disk_bpd D LBA \<and>
    (\<forall>c. 4 * unat c + 4 \<le> 512 * unat S \<longrightarrow> FAT_entry f' m' c = disk_FAT D LBA c) \<and>
    root_ready g len m' L' f' (512 * unat S) D off N"
proof -
  let ?b = "disk_bpd D LBA"
  have v: "unat S mod 127 \<noteq> 0" "512 * unat S < 2 ^ 32" "unat (LBA + ucast (reservedSectors ?b)) + unat S \<le> 2 ^ 32"
    using assms(3,4) by (auto simp: disk_volume_def Let_def)
  have "arena (unat (heap g)) len m L (512 + 8 + (512 * unat S + 8 + k))" using assms(5) by (simp add: add_ac)
  from init_opens [OF assms(1,2,4) this v] obtain f' m' L'
    where o: "fat32_init (readf dev) g m f LBA = Some (Inr (0, f', m'))" "partitionLBA f' = LBA" "arena (unat (heap g)) len m' L' k"
      "kept (unat (heap g)) len L m m'" "volume_in f' (512 * unat S) L'" "vbr_bpd (vbr_at m' (vbr f')) = ?b"
      "\<forall>c. 4 * unat c + 4 \<le> 512 * unat S \<longrightarrow> FAT_entry f' m' c = disk_FAT D LBA c" by blast
  have "cluster_LBA f' ?b c = disk_cluster_LBA D LBA c" for c by (simp add: cluster_LBA_def disk_cluster_LBA_def o(2))
  moreover have "4 * unat (clusterNumberRoot ?b) + 4 \<le> 512 * unat S" using assms(3,4) by (simp add: disk_volume_def Let_def)
  ultimately have "root_ready g len m' L' f' (512 * unat S) D off N"
    using assms(2,3,4) o(5-7) by (auto simp: root_ready_def disk_volume_def Let_def)
  with o show ?thesis by blast
qed

end

section \<open>What the driver guarantees\<close>

text \<open>A disk with one FAT32 volume: boot record, a table of one sector, a root directory with the file \<open>A.BIN\<close> of
  five bytes in cluster 3.\<close>

definition tiny_disk :: image where
  "tiny_disk = (\<lambda>_. 0)(12 := 2, 13 := 1, 14 := 1, 16 := 1, 36 := 1, 44 := 2,
     520 := 0xFF, 521 := 0xFF, 522 := 0xFF, 523 := 0x0F, 524 := 0xFF, 525 := 0xFF, 526 := 0xFF, 527 := 0x0F,
     1024 := 65, 1025 := 32, 1032 := 66, 1033 := 73, 1034 := 78, 1035 := 0x20, 1050 := 3, 1052 := 5,
     1536 := 104, 1537 := 101, 1538 := 108, 1539 := 108, 1540 := 111)"

definition names_memory :: memory where
  "names_memory = (\<lambda>_. 0)(0x2000 := 76, 0x2001 := 70, 0x2002 := 78, 0x2010 := 65, 0x2011 := 46, 0x2012 := 66, 0x2013 := 73, 0x2014 := 78)"

lemma tiny_bpd:
  "bytesPerSector (disk_bpd tiny_disk 0) = 512" "sectorsPerCluster (disk_bpd tiny_disk 0) = 1" "reservedSectors (disk_bpd tiny_disk 0) = 1"
  "numberOfFATs (disk_bpd tiny_disk 0) = 1" "sectorsPerFAT (disk_bpd tiny_disk 0) = 1" "clusterNumberRoot (disk_bpd tiny_disk 0) = 2"
  by (simp_all add: disk_bpd_def vbr_at_def bpd_at_def load_defs disk_mem_def tiny_disk_def)

lemma tiny_FAT: "disk_FAT tiny_disk 0 2 = 0xFFFFFFF" "disk_FAT tiny_disk 0 3 = 0xFFFFFFF"
  unfolding disk_FAT_def tiny_bpd by (simp_all add: load_defs disk_mem_def tiny_disk_def clusterMask_def)

lemma tiny_entry:
  "entry_name tiny_disk 1024 = [65, 46, 66, 73, 78]" "entry_cluster (disk_entry tiny_disk 1024) = 3"
  "file_size (disk_entry tiny_disk 1024) = 5"
  by (simp_all add: entry_name_def fat_name_def read_bytes_def upt_rec disk_mem_def tiny_disk_def
      entry_cluster_def disk_entry_def dirEntry_at_def load_defs)


text \<open>
  C31. \<open>init\<close> on a disk that the BIOS serves, with room on the heap for the boot record and the table,
  returns 0; afterwards the parameters read through the object are those on the disk, every entry of the table that
  lies in the sectors read is the one on the disk, and no block owned before has changed.
\<close>

theorem fat32_init_opens_volume:
  assumes "bios_reads bios disk D" "clear_of_scratch (unat (heap g)) len" "S = sectorsPerFAT (disk_bpd D LBA)"
    and "arena (unat (heap g)) len m L (512 * unat S + 528 + k)" "unat S mod 127 \<noteq> 0" "512 * unat S < 2 ^ 32"
    and "unat (LBA + ucast (reservedSectors (disk_bpd D LBA))) + unat S \<le> 2 ^ 32"
  shows "\<exists>f' m'. fat32_init (diskReadFunc bios disk) g m f LBA = Some (Inr (0, f', m')) \<and> partitionLBA f' = LBA \<and>
    vbr_bpd (vbr_at m' (vbr f')) = disk_bpd D LBA \<and> (\<forall>b \<in> L. same_block b m m') \<and>
    (\<forall>c. 4 * unat c + 4 \<le> 512 * unat S \<longrightarrow> FAT_entry f' m' c = disk_FAT D LBA c)"
proof -
  have "arena (unat (heap g)) len m L (512 + 8 + (512 * unat S + 8 + k))" using assms(4) by (simp add: add_ac)
  from bios_disk.init_opens [of "(bios, disk)", OF _ assms(2,3) this assms(5-7)] assms(1) show ?thesis
    by (fastforce simp: kept_def)
qed

lemma clear_above_1M: "0x100000 \<le> a \<Longrightarrow> a + len \<le> 2 ^ 32 \<Longrightarrow> clear_of_scratch a len"
  by (auto simp: clear_of_scratch_def scratch_def dap_memory_location_def disk_read_location_def MAX_SECTORS_def SECTOR_SIZE_def
      word_less_nat_alt unat_sub_if' unat_of_nat)

lemma low_fixed: "0x2000 \<le> unat x \<Longrightarrow> unat x < 0x3000 \<Longrightarrow> fixed 0x100000 0x8000 x"
  by (auto simp: fixed_def scratch_def dap_memory_location_def disk_read_location_def MAX_SECTORS_def SECTOR_SIZE_def
      word_less_nat_alt unat_sub_if')

lemma tiny_heap:
  "\<exists>(g :: heap_vars) m. arena (unat (heap g)) 0x8000 m {} 0x7ff0 \<and> unat (heap g) = 0x100000 \<and>
     literal 0x100000 0x8000 m 0x2000 [76, 70, 78] \<and> literal 0x100000 0x8000 m 0x2010 [65, 46, 66, 73, 78]"
proof -
  obtain g m where g: "heapInitialize names_memory (of_nat 0x100000) (of_nat 0x8000) = (g, m)" by fastforce
  have h: "unat (heap g) = 0x100000" and a: "arena 0x100000 0x8000 m {} (0x8000 - 16)"
    using heapInitialize_arena [OF _ _ _ _ g] by simp_all
  have "m x = names_memory x" if "x \<in> {0x2000, 0x2001, 0x2002, 0x2003, 0x2010, 0x2011, 0x2012, 0x2013, 0x2014, 0x2015}" for x
    using g that by (auto simp: heapInitialize_def Let_def entry_init_def set_next_def set_reserved_def heapEntry_headerSize_def store_defs)
  then have "cstr m 0x2000 [76, 70, 78]" "cstr m 0x2010 [65, 46, 66, 73, 78]"
    by (simp_all add: names_memory_def)
  moreover have "fixed 0x100000 0x8000 (c + of_nat k)" if "c \<in> {0x2000, 0x2010}" "k \<le> 5" for c k
  proof -
    have "unat (c + of_nat k) = unat c + k" using that by (auto simp: unat_word_ariths unat_of_nat)
    then have "0x2000 \<le> unat (c + of_nat k)" "unat (c + of_nat k) < 0x3000" using that by auto
    then show ?thesis by (simp add: low_fixed)
  qed
  ultimately have "literal 0x100000 0x8000 m 0x2000 [76, 70, 78]" "literal 0x100000 0x8000 m 0x2010 [65, 46, 66, 73, 78]"
    by (simp_all add: literal_def)
  with a h show ?thesis by (intro exI [of _ g] exI [of _ m]) simp
qed

theorem fat32_init_opens_volume_witness:
  "\<exists>g m f f' m'. fat32_init (diskReadFunc (model_bios tiny_disk) 0x80) g m f 0 = Some (Inr (0, f', m')) \<and>
     clusterNumberRoot (vbr_bpd (vbr_at m' (vbr f'))) = 2 \<and> FAT_entry f' m' 3 = 0xFFFFFFF"
proof -
  obtain g :: heap_vars and m where g: "arena (unat (heap g)) 0x8000 m {} 0x7ff0" "unat (heap g) = 0x100000"
    using tiny_heap by metis
  have cl: "clear_of_scratch (unat (heap g)) 0x8000" using clear_above_1M g(2) by simp
  have ar: "arena (unat (heap g)) 0x8000 m {} (512 * unat (1 :: u32) + 528 + 0)" using arena_mono [OF g(1)] by simp
  from fat32_init_opens_volume [OF model_bios_reads cl _ ar, of tiny_disk 0 "0x80" "\<lparr>FATptr = 0, vbr = 0, partitionLBA = 0\<rparr>"]
  show ?thesis by (fastforce simp: tiny_bpd tiny_FAT)
qed


lemma tiny_volume:
  "\<exists>(g :: heap_vars) m f L. root_ready g 0x8000 m L f 512 tiny_disk 1024 1 \<and> arena (unat (heap g)) 0x8000 m L 0x7000 \<and>
     literal (unat (heap g)) 0x8000 m 0x2000 [76, 70, 78] \<and> literal (unat (heap g)) 0x8000 m 0x2010 [65, 46, 66, 73, 78] \<and>
     vbr_bpd (vbr_at m (vbr f)) = disk_bpd tiny_disk 0 \<and> chain f m 512 3 [3] \<and> partitionLBA f = 0 \<and> unat (heap g) = 0x100000"
proof -
  obtain g :: heap_vars and m where g: "arena (unat (heap g)) 0x8000 m {} 0x7ff0" "unat (heap g) = 0x100000"
    "literal (unat (heap g)) 0x8000 m 0x2000 [76, 70, 78]" "literal (unat (heap g)) 0x8000 m 0x2010 [65, 46, 66, 73, 78]"
    using tiny_heap by metis
  have cl: "clear_of_scratch (unat (heap g)) 0x8000" using clear_above_1M g(2) by simp
  have ar: "arena (unat (heap g)) 0x8000 m {} (512 + 8 + (512 * unat (1 :: u32) + 8 + 0x7000))" using arena_mono [OF g(1)] by simp
  obtain f m' L' where o: "partitionLBA f = 0" "arena (unat (heap g)) 0x8000 m' L' 0x7000" "kept (unat (heap g)) 0x8000 {} m m'"
    "volume_in f 512 L'" "vbr_bpd (vbr_at m' (vbr f)) = disk_bpd tiny_disk 0"
    "\<forall>c. 4 * unat c + 4 \<le> 512 \<longrightarrow> FAT_entry f m' c = disk_FAT tiny_disk 0 c"
    using bios_disk.init_opens [of "(model_bios tiny_disk, 0x80)" tiny_disk, OF _ cl _ ar,
        where LBA = 0 and f = "\<lparr>FATptr = 0, vbr = 0, partitionLBA = 0\<rparr>"] model_bios_reads
    by (auto simp: tiny_bpd)
  have F: "FAT_entry f m' 2 = 0xFFFFFFF" "FAT_entry f m' 3 = 0xFFFFFFF" using o(6) by (simp_all add: tiny_FAT)
  have "disk_dir tiny_disk 1024 512 1" by (simp add: disk_dir_def tiny_disk_def)
  then have "root_ready g 0x8000 m' L' f 512 tiny_disk 1024 1"
    using cl o F by (simp add: root_ready_def Let_def tiny_bpd isClusterEnd_def cluster_LBA_def firstDataSector_def cluster_bytes_def)
  moreover have "chain f m' 512 3 [3]" using F by (simp add: isClusterEnd_def)
  ultimately show ?thesis using o g(2) literal_kept [OF g(3) o(3)] literal_kept [OF g(4) o(3)] by blast
qed

text \<open>
  C3. On an open volume whose root directory is one cluster, \<open>getRootFile\<close> of a name that is first
  met in entry \<open>i\<close> returns a result with code 0 and the size of that entry, and the buffer it points to holds the first sector of
  every cluster of the file's chain, in order: the whole file when a cluster is one sector. The search and the walk along the chain end.
\<close>

theorem getRootFile_reads_file:
  assumes "bios_reads bios disk D" "root_ready g len m L f n D off N" "b = vbr_bpd (vbr_at m (vbr f))"
    and "arena (unat (heap g)) len m L (cluster_bytes b + 77 + 21 * i + buffer_size e)" "i < N"
    and "literal (unat (heap g)) len m lfn [76, 70, 78]" "literal (unat (heap g)) len m file name"
    and "\<forall>j < i. 0 \<notin> set (entry_name D (off + 32 * j)) \<and> entry_name D (off + 32 * j) \<noteq> name"
    and "entry_name D (off + 32 * i) = name" "e = disk_entry D (off + 32 * i)"
    and "buffer_size e < 2 ^ 32" "chain f m n (entry_cluster e) cs" "512 * length cs \<le> buffer_size e"
  shows "\<exists>ret m'. getRootFile (diskReadFunc bios disk) lfn g m f file = Some (Inr (ret, m')) \<and>
    fr_returnCode (fileResult_at m' ret) = 0 \<and> fr_size (fileResult_at m' ret) = file_size e \<and>
    (\<forall>j < length cs. \<forall>t < 512. m' (fr_ptr (fileResult_at m' ret) + of_nat (512 * j + t)) = D (512 * unat (cluster_LBA f b (cs ! j)) + t))"
proof -
  have "arena (unat (heap g)) len m L (cluster_bytes b + 77 + 21 * i + buffer_size e + 0)" using assms(4) by simp
  from bios_disk.getRootFile_finds [of "(bios, disk)", OF _ assms(2,3) this assms(5-)] assms(1) show ?thesis
    by (auto simp: fileResult_at_def)
qed

theorem getRootFile_reads_file_witness:
  "\<exists>g m f ret m'. getRootFile (diskReadFunc (model_bios tiny_disk) 0x80) 0x2000 g m f 0x2010 = Some (Inr (ret, m')) \<and>
     load32 m' ret = 0 \<and> load32 m' (ret + 4) = 5 \<and> m' (load32 m' (ret + 8) + 4) = 111"
proof -
  obtain g :: heap_vars and m f L where g: "root_ready g 0x8000 m L f 512 tiny_disk 1024 1" "arena (unat (heap g)) 0x8000 m L 0x7000"
    "literal (unat (heap g)) 0x8000 m 0x2000 [76, 70, 78]" "literal (unat (heap g)) 0x8000 m 0x2010 [65, 46, 66, 73, 78]"
    "vbr_bpd (vbr_at m (vbr f)) = disk_bpd tiny_disk 0" "chain f m 512 3 [3]" "partitionLBA f = 0"
    using tiny_volume by metis
  let ?b = "disk_bpd tiny_disk 0" and ?e = "disk_entry tiny_disk 1024"
  have sz: "buffer_size ?e = 512" by (simp add: buffer_size_def tiny_entry)
  have ar: "arena (unat (heap g)) 0x8000 m L (cluster_bytes ?b + 77 + 21 * 0 + buffer_size ?e)"
    using arena_mono [OF g(2)] by (simp add: sz cluster_bytes_def tiny_bpd)
  from getRootFile_reads_file [OF model_bios_reads g(1) g(5) [symmetric] ar _ g(3,4), where cs = "[3]" and disk = "0x80"] g(6)
  obtain ret m' where r: "getRootFile (diskReadFunc (model_bios tiny_disk) 0x80) 0x2000 g m f 0x2010 = Some (Inr (ret, m'))"
    "load32 m' ret = 0" "load32 m' (ret + 4) = 5"
    "\<forall>t < 512. m' (load32 m' (ret + 8) + of_nat (512 * 0 + t)) = tiny_disk (512 * unat (cluster_LBA f ?b 3) + t)"
    by (auto simp: tiny_entry sz fileResult_at_def)
  have "cluster_LBA f ?b 3 = 3" using g(7) by (simp add: cluster_LBA_def firstDataSector_def tiny_bpd)
  then have "m' (load32 m' (ret + 8) + 4) = 111" using r(4) [rule_format, of 4] by (simp add: tiny_disk_def)
  with r(1-3) show ?thesis by blast
qed

text \<open>
  When no entry of the root directory has the name, \<open>getRootFile\<close> returns a result with code 1, size 0 and a
  null pointer.
\<close>

theorem getRootFile_missing:
  assumes "bios_reads bios disk D" "root_ready g len m L f n D off N" "b = vbr_bpd (vbr_at m (vbr f))"
    and "arena (unat (heap g)) len m L (cluster_bytes b + 48 + 21 * N)"
    and "literal (unat (heap g)) len m lfn [76, 70, 78]" "literal (unat (heap g)) len m file name"
    and "\<forall>j < N. 0 \<notin> set (entry_name D (off + 32 * j)) \<and> entry_name D (off + 32 * j) \<noteq> name"
  shows "\<exists>ret m'. getRootFile (diskReadFunc bios disk) lfn g m f file = Some (Inr (ret, m')) \<and>
    load32 m' ret = 1 \<and> load32 m' (ret + 4) = 0 \<and> load32 m' (ret + 8) = 0"
  using bios_disk.getRootFile_misses [of "(bios, disk)", OF _ assms(2-)] assms(1) by simp

theorem getRootFile_missing_witness:
  "\<exists>g m f ret m'. getRootFile (diskReadFunc (model_bios tiny_disk) 0x80) 0x2000 g m f 0x2000 = Some (Inr (ret, m')) \<and> load32 m' ret = 1"
proof -
  obtain g :: heap_vars and m f L where g: "root_ready g 0x8000 m L f 512 tiny_disk 1024 1" "arena (unat (heap g)) 0x8000 m L 0x7000"
    "literal (unat (heap g)) 0x8000 m 0x2000 [76, 70, 78]" "vbr_bpd (vbr_at m (vbr f)) = disk_bpd tiny_disk 0"
    using tiny_volume by metis
  have ar: "arena (unat (heap g)) 0x8000 m L (cluster_bytes (disk_bpd tiny_disk 0) + 48 + 21 * 1)"
    using arena_mono [OF g(2)] by (simp add: cluster_bytes_def tiny_bpd)
  from getRootFile_missing [OF model_bios_reads g(1) g(4) [symmetric] ar g(3) g(3), of "0x80"]
  obtain ret m' where "getRootFile (diskReadFunc (model_bios tiny_disk) 0x80) 0x2000 g m f 0x2000 = Some (Inr (ret, m'))" "load32 m' ret = 1"
    by (auto simp: tiny_entry)
  then show ?thesis by blast
qed

text \<open>
  C32. When the low four bits of the directory's table entry are at least 8, \<open>readDir\<close> returns the entries of the
  directory's cluster, up to the first that begins with a zero byte, with return code 0. This covers every end-of-chain mark; it also covers a directory that goes
  on in a cluster whose number has bit 3 set, although the code means to panic for it, and then the remaining clusters are ignored.
\<close>

theorem readDir_reads_one_cluster:
  assumes "bios_reads bios disk D" "clear_of_scratch (unat (heap g)) len" "volume_in f n L" "b = vbr_bpd (vbr_at m (vbr f))"
    and "8 \<le> FAT_entry f m c AND 0xF" "arena (unat (heap g)) len m L (cluster_bytes b + 28)"
    and "bytesPerSector b = 512" "unat (sectorsPerCluster b) mod 127 \<noteq> 0"
    and "unat (cluster_LBA f b c) + unat (sectorsPerCluster b) \<le> 2 ^ 32"
    and "disk_dir D (512 * unat (cluster_LBA f b c)) (cluster_bytes b) N"
  shows "\<exists>dir m'. readDir (diskReadFunc bios disk) g m f c = Some (Inr (dir, m')) \<and>
    rd_returnCode (readDirResult_at m' dir) = 0 \<and> rd_numEntries (readDirResult_at m' dir) = of_nat N \<and>
    (\<forall>j < cluster_bytes b. m' (rd_entries (readDirResult_at m' dir) + of_nat j) = D (512 * unat (cluster_LBA f b c) + j)) \<and>
    (\<forall>d \<in> L. same_block d m m')"
proof -
  have "arena (unat (heap g)) len m L (cluster_bytes b + 8 + (12 + 8 + 0))" using assms(6) by (simp add: add.commute)
  from bios_disk.readDir_reads [of "(bios, disk)", OF _ assms(2-5) this assms(7-)] assms(1) show ?thesis
    by (fastforce simp: dir_ready_def kept_def readDirResult_at_def)
qed

text \<open>The volume of \<open>tiny_disk\<close>, but with a root directory that continues in cluster 9.\<close>

definition long_dir_disk :: image where
  "long_dir_disk = tiny_disk(520 := 9, 521 := 0, 522 := 0, 523 := 0)"

lemma long_dir_bpd: "disk_bpd long_dir_disk 0 = disk_bpd tiny_disk 0"
  unfolding disk_bpd_def by (rule vbr_bpd_cong) (auto simp: disk_mem_def long_dir_disk_def)

theorem readDir_reads_one_cluster_witness:
  "\<exists>g m f dir m'. FAT_entry f m 2 = 9 \<and>
     readDir (diskReadFunc (model_bios long_dir_disk) 0x80) g m f 2 = Some (Inr (dir, m')) \<and> load32 m' (dir + 4) = 1"
proof -
  obtain g :: heap_vars and m where g: "arena (unat (heap g)) 0x8000 m {} 0x7ff0" "unat (heap g) = 0x100000"
    using tiny_heap by metis
  have cl: "clear_of_scratch (unat (heap g)) 0x8000" using clear_above_1M g(2) by simp
  have ar: "arena (unat (heap g)) 0x8000 m {} (512 + 8 + (512 * unat (1 :: u32) + 8 + 0x7000))" using arena_mono [OF g(1)] by simp
  obtain f m' L' where o: "partitionLBA f = 0" "arena (unat (heap g)) 0x8000 m' L' 0x7000" "volume_in f 512 L'"
    "disk_bpd tiny_disk 0 = vbr_bpd (vbr_at m' (vbr f))" "\<forall>c. 4 * unat c + 4 \<le> 512 \<longrightarrow> FAT_entry f m' c = disk_FAT long_dir_disk 0 c"
    using bios_disk.init_opens [of "(model_bios long_dir_disk, 0x80)" long_dir_disk, OF _ cl _ ar,
        where LBA = 0 and f = "\<lparr>FATptr = 0, vbr = 0, partitionLBA = 0\<rparr>"] model_bios_reads
    by (auto simp: tiny_bpd long_dir_bpd)
  have "disk_FAT long_dir_disk 0 2 = 9"
    unfolding disk_FAT_def long_dir_bpd tiny_bpd by (simp add: load_defs disk_mem_def long_dir_disk_def tiny_disk_def clusterMask_def)
  then have F: "FAT_entry f m' 2 = 9" using o(5) by simp
  have off: "cluster_LBA f (disk_bpd tiny_disk 0) 2 = 2" using o(1) by (simp add: cluster_LBA_def firstDataSector_def tiny_bpd)
  have "disk_dir long_dir_disk 1024 512 1" by (simp add: disk_dir_def long_dir_disk_def tiny_disk_def)
  moreover have "arena (unat (heap g)) 0x8000 m' L' (cluster_bytes (disk_bpd tiny_disk 0) + 28)"
    using arena_mono [OF o(2)] by (simp add: cluster_bytes_def tiny_bpd)
  ultimately obtain dir m2 where "readDir (diskReadFunc (model_bios long_dir_disk) 0x80) g m' f 2 = Some (Inr (dir, m2))" "load32 m2 (dir + 4) = 1"
    using readDir_reads_one_cluster [OF model_bios_reads cl o(3,4), where c = 2 and N = 1 and D = long_dir_disk and disk = "0x80"] F
    by (auto simp: off tiny_bpd cluster_bytes_def word_le_nat_alt readDirResult_at_def)
  with F show ?thesis by blast
qed

end
