(* ===== verification/Stage1.thy ===== *)
theory Stage1
  imports Elf Mbr Multiboot Fat32File
begin

text \<open>
  The main function of the boot loader, \<open>_stage1Main\<close> of \<open>bootloader/stage1main.cpp\<close>: it sets up the terminal and the heap, opens
  the active partition, reads the kernel, prepares the multiboot information, loads the kernel and jumps to it.
\<close>

section \<open>The main function\<close>

text \<open>What \<open>jumpKernel\<close> receives.\<close>

record handoff =
  initAddr :: u32
  mbInfo_ptr :: u32
  termIndex :: u32

definition stage1_header :: string where
  "stage1_header = ''Welcome to RainbowOS 32-bit protected mode bootloader!'' @ [CHR 10]"

definition no_kernel_msg :: panic where
  "no_kernel_msg = ''Could not find KERNEL.BIN''"

definition no_mbHeader_msg :: panic where
  "no_mbHeader_msg = ''Couldn'' @ [CHR 0x27] @ ''t find Multiboot Header!''"

definition bad_elf_msg :: panic where
  "bad_elf_msg = ''init.bin'' @ [CHR 0x27] @ ''s ELF header is not recognized, or not supported!''"

definition elf_load_msg :: panic where
  "elf_load_msg = ''Problems loading ELF binary kernel.bin''"

text \<open>The cursor of the BIOS: the row in the high byte, but the mask for the column keeps the high byte too.\<close>

definition stage1_cursor :: "framebuffer_terminal \<Rightarrow> u32 \<Rightarrow> framebuffer_terminal" where
  "stage1_cursor t cursor =
     (let row = drop_bit 8 cursor; column = cursor AND 0xff00 in snd (setCursor t (ucast row) (ucast column)))"

definition terminal_index :: "framebuffer_terminal \<Rightarrow> u32" where
  "terminal_index t = ucast (t_row t) * vga_width + ucast (t_column t)"

text \<open>From the check of the ELF file on: loading, and the values that the kernel receives.\<close>

definition stage1_elf ::
  "outstream \<Rightarrow> framebuffer_terminal \<Rightarrow> memory \<Rightarrow> u32 \<Rightarrow> u32 \<Rightarrow> (handoff \<times> framebuffer_terminal \<times> memory) run" where
  "stage1_elf os t m kernelElfHeader mbInfo =
     (if \<not> elf_check_file m kernelElfHeader then Some (Inl bad_elf_msg) else
      (case elf32_load os m t kernelElfHeader of None \<Rightarrow> None | Some (initEndPtr, t, m) \<Rightarrow>
       if initEndPtr = 0 then Some (Inl elf_load_msg) else
       (case out_chain os m t [Str (''Everything seems to be good, jumping to init'' @ [CHR 10])] of (t, m) \<Rightarrow>
        Some (Inr (\<lparr>initAddr = e_entry (ehdr_at m kernelElfHeader), mbInfo_ptr = mbInfo, termIndex = terminal_index t\<rparr>, t, m)))))"

text \<open>From the kernel file on: header search, information structure, loading.\<close>

definition stage1_load ::
  "bios12 \<Rightarrow> bios15 \<Rightarrow> outstream \<Rightarrow> heap_vars \<Rightarrow> u8 \<Rightarrow> framebuffer_terminal \<Rightarrow> memory \<Rightarrow> u32 \<Rightarrow> (handoff \<times> framebuffer_terminal \<times> memory) run" where
  "stage1_load b12 b15 os g disk t m kernelFile =
     (case multibootHeaderSearch m (load32 m (kernelFile + 8)) (load32 m (kernelFile + 4)) of None \<Rightarrow> None | Some mbHeader \<Rightarrow>
      (case out_chain os m t [Str ''mbHeader = '', Num (uint mbHeader), Str [CHR 10]] of (t, m) \<Rightarrow>
       if mbHeader = 0 then Some (Inl no_mbHeader_msg) else
       (case buildMultibootInfo b12 b15 g m mbHeader (ucast disk) of None \<Rightarrow> None | Some (Inl e) \<Rightarrow> Some (Inl e)
        | Some (Inr (mbInfo, m)) \<Rightarrow> stage1_elf os t m (load32 m (kernelFile + 8)) mbInfo)))"

text \<open>\<open>lfn\<close> and \<open>kernel_bin\<close> are the addresses of the constants \<open>LFN\<close> and \<open>KERNEL.BIN\<close>; \<open>f0\<close> and \<open>os0\<close> are the uninitialised objects.\<close>

definition stage1Main ::
  "bios12 \<Rightarrow> bios13 \<Rightarrow> bios15 \<Rightarrow> u32 \<Rightarrow> u32 \<Rightarrow> outstream \<Rightarrow> fat32 \<Rightarrow> memory \<Rightarrow> u32 \<Rightarrow> u32 \<Rightarrow> u32 \<Rightarrow> (handoff \<times> framebuffer_terminal \<times> memory) run" where
  "stage1Main b12 b13 b15 lfn kernel_bin os0 f0 m dx stop_stage1 cursor =
     (let os = os_hex (os_init os0);
          t = stage1_cursor new_terminal cursor;
          t = setColor t VGA_COLOR_LIGHT_GREY VGA_COLOR_BLUE;
          (t, m) = out_chain os m t [Str stage1_header];
          t = setColor t VGA_COLOR_LIGHT_GREY VGA_COLOR_BLACK;
          heapMaxSize = disk_read_location - stop_stage1;
          (g, m) = heapInitialize m stop_stage1 heapMaxSize
      in case getPartitionLBA m of Inl e \<Rightarrow> Some (Inl e) | Inr activePartitionLBA \<Rightarrow>
         let disk = ucast dx; readf = diskReadFunc b13 disk in
         (case fat32_init readf g m f0 activePartitionLBA of None \<Rightarrow> None | Some (Inl e) \<Rightarrow> Some (Inl e) | Some (Inr (rc, f, m)) \<Rightarrow>
          (case getRootFile readf lfn g m f kernel_bin of None \<Rightarrow> None | Some (Inl e) \<Rightarrow> Some (Inl e) | Some (Inr (kernelFile, m)) \<Rightarrow>
           if load32 m kernelFile = 1 then Some (Inl no_kernel_msg) else stage1_load b12 b15 os g disk t m kernelFile)))"

section \<open>Up to the file look-up\<close>

lemma stage1_cursor_inv: "term_inv (stage1_cursor new_terminal cursor) \<and> t_buffer (stage1_cursor new_terminal cursor) = FRAMEBUFFER_LOCATION"
  using setCursor_inv [OF new_terminal_inv(1)] new_terminal_inv(2)
  by (metis (mono_tags, lifting) prod.collapse stage1_cursor_def)

lemma setColor_same [simp]: "term_inv (setColor t fg bg) = term_inv t" "t_buffer (setColor t fg bg) = t_buffer t"
  by (simp_all add: setColor_def term_inv_def)

lemma clear_below_bounce:
  assumes "0x1010 \<le> a" "a + len \<le> 0x70000"
  shows "clear_of_scratch a len"
  using assms by (auto simp: clear_of_scratch_def scratch_def dap_memory_location_def disk_read_location_def MAX_SECTORS_def SECTOR_SIZE_def
      word_less_nat_alt unat_sub_if' unat_of_nat)

text \<open>An address of the loader's own code and data, between the scratch memory and the heap.\<close>

definition own_data :: "u32 \<Rightarrow> u32 \<Rightarrow> bool" where
  "own_data stop x \<longleftrightarrow> 0x1010 \<le> unat x \<and> unat x < unat stop"

lemma stage1_start:
  assumes "0x1010 \<le> unat stop" "unat stop + 16 \<le> 0x70000" "term_inv t" "t_buffer t = FRAMEBUFFER_LOCATION"
    and "out_chain os m t xs = (t1, m1)" "heapInitialize m1 stop (disk_read_location - stop) = (g, m2)"
  shows "unat (heap g) = unat stop" and "arena (unat stop) (0x70000 - unat stop) m2 {} (0x70000 - unat stop - 16)"
    and "\<not> x - FRAMEBUFFER_LOCATION < 4000 \<Longrightarrow> unat x < unat stop \<or> 0x70000 \<le> unat x \<Longrightarrow> m2 x = m x"
    and "unat x < unat stop \<Longrightarrow> m2 x = m x"
proof -
  let ?n = "0x70000 - unat stop"
  have n: "disk_read_location - stop = of_nat ?n"
    using assms(2) by (simp add: disk_read_location_def word_unat_eq_iff unat_sub_if' unat_of_nat)
  have h: "heapInitialize m1 (of_nat (unat stop)) (of_nat ?n) = (g, m2)" using assms(6) n by simp
  show "unat (heap g) = unat stop" "arena (unat stop) ?n m2 {} (?n - 16)"
    using heapInitialize_arena [OF _ _ _ _ h] assms(1,2) by auto
  show same: "m2 x = m x" if "\<not> x - FRAMEBUFFER_LOCATION < 4000" "unat x < unat stop \<or> 0x70000 \<le> unat x"
  proof -
    have "m2 x = m1 x" using heapInitialize_only [OF _ _ _ h] assms(2) that(2) by auto
    moreover have "m1 x = m x" using out_chain_frame [OF assms(3,5)] that(1) assms(4) by (auto simp: in_framebuffer_def)
    ultimately show ?thesis by simp
  qed
  assume x: "unat x < unat stop"
  then have "\<not> x - FRAMEBUFFER_LOCATION < 4000"
    using assms(2) by (auto simp: FRAMEBUFFER_LOCATION_def word_less_nat_alt unat_sub_if' split: if_splits)
  with x show "m2 x = m x" by (rule_tac same) simp_all
qed

text \<open>An address above everything that the loader uses for itself, and not on the screen: only a segment of the kernel can be put there.\<close>

definition free_high :: "u32 \<Rightarrow> bool" where
  "free_high x \<longleftrightarrow> 0x80000 \<le> unat x \<and> \<not> x - FRAMEBUFFER_LOCATION < 4000"

lemma free_high_fixed: "free_high x \<Longrightarrow> a + len \<le> 0x80000 \<Longrightarrow> fixed a len x"
  by (auto simp: free_high_def fixed_def scratch_def dap_memory_location_def disk_read_location_def MAX_SECTORS_def SECTOR_SIZE_def
      word_less_nat_alt unat_sub_if' split: if_splits)

lemma own_data_fixed: "own_data stop x \<Longrightarrow> unat stop < 0x70000 \<Longrightarrow> fixed (unat stop) len x"
  by (auto simp: own_data_def fixed_def scratch_def dap_memory_location_def disk_read_location_def MAX_SECTORS_def SECTOR_SIZE_def
      word_less_nat_alt unat_sub_if' split: if_splits)

definition own_literal :: "u32 \<Rightarrow> memory \<Rightarrow> u32 \<Rightarrow> u8 list \<Rightarrow> bool" where
  "own_literal stop m s xs \<longleftrightarrow> cstr m s xs \<and> (\<forall>k \<le> length xs. own_data stop (s + of_nat k))"

lemma own_literal_literal:
  assumes "own_literal stop m s xs" "unat stop < 0x70000" "\<And>x. unat x < unat stop \<Longrightarrow> m' x = m x"
  shows "literal (unat stop) len m' s xs"
  using assms own_data_fixed [OF _ assms(2)] by (auto simp: own_literal_def literal_def cstr_nth own_data_def)

lemma partition_cong:
  assumes "\<And>k. k < 16 \<Longrightarrow> m' (a + k) = m (a + k)"
  shows "partition_at m' a = partition_at m a"
proof -
  have "read_bytes m' (a + c) 3 = read_bytes m (a + c) 3" if "c \<le> 8" for c
  proof (rule read_bytes_cong)
    fix k :: nat assume "k < 3"
    with that have "c + of_nat k < 16" by (simp add: word_less_nat_alt word_le_nat_alt unat_word_ariths unat_of_nat)
    from assms [OF this] show "m' (a + c + of_nat k) = m (a + c + of_nat k)" by (simp add: add.assoc)
  qed
  from this [of 1] this [of 5] assms assms [of 0] show ?thesis by (simp add: partition_at_def load_defs add.assoc)
qed

lemma getPartitionLBA_cong:
  assumes "\<And>x. unat x < 0x1000 \<Longrightarrow> m' x = m x"
  shows "getPartitionLBA m' = getPartitionLBA m"
proof -
  have p: "partition_at m' (0x9be + 16 * i) = partition_at m (0x9be + 16 * i)" if "i < 4" for i
  proof (rule partition_cong)
    fix k :: u32 assume "k < 16"
    then have "unat (0x9be + 16 * i + k) < 0x1000" using that by (simp add: word_less_nat_alt unat_word_ariths)
    then show "m' (0x9be + 16 * i + k) = m (0x9be + 16 * i + k)" by (rule assms)
  qed
  note unfold = getPartitionLBA_loop.simps [of _ "0x9be"]
  show ?thesis
    using p [of 0] p [of 1] p [of 2] p [of 3]
    by (simp add: getPartitionLBA_def final_mbr_address_def unfold [of _ 0] unfold [of _ 1] unfold [of _ 2] unfold [of _ 3] unfold [of _ 4])
qed

text \<open>The loader up to the point where it looks for the kernel, with room for \<open>k\<close> more bytes on the heap.\<close>

lemma stage1_opens:
  assumes "bios_reads b13 (ucast dx) D" "getPartitionLBA m = Inr LBA" "disk_volume D LBA off N"
    and "0x1010 \<le> unat stop" "unat stop < 0x70000"
    and "unat stop + 544 + 512 * unat (sectorsPerFAT (disk_bpd D LBA)) + k \<le> 0x70000"
    and "own_literal stop m lfn [76, 70, 78]" "own_literal stop m kernel_bin name"
  shows "\<exists>g f m1 t L. unat (heap g) = unat stop \<and> term_inv t \<and> t_buffer t = FRAMEBUFFER_LOCATION \<and>
    arena (unat (heap g)) (0x70000 - unat stop) m1 L k \<and> vbr_bpd (vbr_at m1 (vbr f)) = disk_bpd D LBA \<and> partitionLBA f = LBA \<and>
    (\<forall>c. 4 * unat c + 4 \<le> 512 * unat (sectorsPerFAT (disk_bpd D LBA)) \<longrightarrow> FAT_entry f m1 c = disk_FAT D LBA c) \<and>
    root_ready g (0x70000 - unat stop) m1 L f (512 * unat (sectorsPerFAT (disk_bpd D LBA))) D off N \<and>
    literal (unat (heap g)) (0x70000 - unat stop) m1 lfn [76, 70, 78] \<and>
    literal (unat (heap g)) (0x70000 - unat stop) m1 kernel_bin name \<and>
    stage1Main b12 b13 b15 lfn kernel_bin os0 f0 m dx stop cursor =
      (case getRootFile (diskReadFunc b13 (ucast dx)) lfn g m1 f kernel_bin of None \<Rightarrow> None | Some (Inl e) \<Rightarrow> Some (Inl e)
       | Some (Inr (kernelFile, m2)) \<Rightarrow> if load32 m2 kernelFile = 1 then Some (Inl no_kernel_msg)
           else stage1_load b12 b15 (os_hex (os_init os0)) g (ucast dx) t m2 kernelFile) \<and>
    (\<forall>x. free_high x \<longrightarrow> m1 x = m x)"
proof -
  let ?os = "os_hex (os_init os0)" and ?t0 = "setColor (stage1_cursor new_terminal cursor) VGA_COLOR_LIGHT_GREY VGA_COLOR_BLUE"
  let ?b = "disk_bpd D LBA" and ?len = "0x70000 - unat stop"
  let ?S = "sectorsPerFAT ?b" and ?readf = "diskReadFunc b13 (ucast dx)"
  obtain t1 m1 where c: "out_chain ?os m ?t0 [Str stage1_header] = (t1, m1)" by fastforce
  obtain g m2 where h: "heapInitialize m1 stop (disk_read_location - stop) = (g, m2)" by fastforce
  have t0: "term_inv ?t0" "t_buffer ?t0 = FRAMEBUFFER_LOCATION" using stage1_cursor_inv by simp_all
  have t1: "term_inv t1" "t_buffer t1 = FRAMEBUFFER_LOCATION" using out_chain_frame [OF t0(1) c] t0(2) by simp_all
  have st: "unat stop + 16 \<le> 0x70000" using assms(6) by simp
  note start = stage1_start [OF assms(4) st t0 c h]
  have part: "getPartitionLBA m2 = Inr LBA"
    using getPartitionLBA_cong [of m2 m] start(4) assms(2,4) by simp
  have cl: "clear_of_scratch (unat (heap g)) ?len" using clear_below_bounce [OF assms(4)] assms(5) start(1) by simp
  have ar: "arena (unat (heap g)) ?len m2 {} (528 + 512 * unat ?S + k)"
    using arena_mono [OF start(2)] assms(6) start(1) by simp
  obtain f m3 L where i: "fat32_init ?readf g m2 f0 LBA = Some (Inr (0, f, m3))" "partitionLBA f = LBA" "arena (unat (heap g)) ?len m3 L k"
    "kept (unat (heap g)) ?len {} m2 m3" "vbr_bpd (vbr_at m3 (vbr f)) = ?b"
    "\<forall>c. 4 * unat c + 4 \<le> 512 * unat ?S \<longrightarrow> FAT_entry f m3 c = disk_FAT D LBA c" "root_ready g ?len m3 L f (512 * unat ?S) D off N"
    using bios_disk.init_root_ready [of "(b13, ucast dx)" D, OF _ cl assms(3) refl ar, of f0] assms(1) by auto
  have lits: "literal (unat (heap g)) ?len m3 lfn [76, 70, 78]" "literal (unat (heap g)) ?len m3 kernel_bin name"
    using own_literal_literal [OF assms(7,5), of m2] own_literal_literal [OF assms(8,5), of m2] start(1,4) literal_kept [OF _ i(4)] by simp_all
  let ?t = "setColor t1 VGA_COLOR_LIGHT_GREY VGA_COLOR_BLACK"
  have run: "stage1Main b12 b13 b15 lfn kernel_bin os0 f0 m dx stop cursor =
      (case getRootFile ?readf lfn g m3 f kernel_bin of None \<Rightarrow> None | Some (Inl e) \<Rightarrow> Some (Inl e)
       | Some (Inr (kernelFile, m2)) \<Rightarrow> if load32 m2 kernelFile = 1 then Some (Inl no_kernel_msg)
           else stage1_load b12 b15 ?os g (ucast dx) ?t m2 kernelFile)"
    unfolding stage1Main_def Let_def c h part i(1) prod.case sum.case option.case ..
  have t: "term_inv ?t" "t_buffer ?t = FRAMEBUFFER_LOCATION" using t1 by simp_all
  have high: "\<forall>x. free_high x \<longrightarrow> m3 x = m x"
  proof (intro allI impI)
    fix x assume x: "free_high x"
    then have "fixed (unat (heap g)) ?len x" using free_high_fixed [OF x] start(1) assms(5) by simp
    then have "m3 x = m2 x" using i(4) by (simp add: kept_def)
    also have "\<dots> = m x" using start(3) [of x] x by (simp add: free_high_def)
    finally show "m3 x = m x" .
  qed
  show ?thesis
    by (rule exI [of _ g], rule exI [of _ f], rule exI [of _ m3], rule exI [of _ ?t], rule exI [of _ L])
      (intro conjI start(1) t i(2,3,5-7) lits run high)
qed

section \<open>What the boot loader guarantees\<close>

text \<open>
  C8. Started with a boot record that has an active partition, a BIOS that serves the disk, and a FAT32 volume in that partition in
  whose root directory no entry is called \<open>KERNEL.BIN\<close>, with a heap between the loader and the bounce buffer that has room for the volume and the
  directory: the loader gets through terminal, heap, boot record, volume and directory and ends in the panic that names the missing file.
\<close>

theorem stage1_reports_missing_kernel:
  assumes "bios_reads b13 (ucast dx) D" "getPartitionLBA m = Inr LBA" "disk_volume D LBA off N"
    and "0x1010 \<le> unat stop" "unat stop < 0x70000"
    and "unat stop + 592 + 512 * unat (sectorsPerFAT (disk_bpd D LBA)) + cluster_bytes (disk_bpd D LBA) + 21 * N \<le> 0x70000"
    and "own_literal stop m lfn [76, 70, 78]" "own_literal stop m kernel_bin name"
    and "\<forall>j < N. 0 \<notin> set (entry_name D (off + 32 * j)) \<and> entry_name D (off + 32 * j) \<noteq> name"
  shows "stage1Main b12 b13 b15 lfn kernel_bin os0 f0 m dx stop cursor = Some (Inl ''Could not find KERNEL.BIN'')"
proof -
  let ?k = "cluster_bytes (disk_bpd D LBA) + 48 + 21 * N"
  have budget: "unat stop + 544 + 512 * unat (sectorsPerFAT (disk_bpd D LBA)) + ?k \<le> 0x70000" using assms(6) by simp
  from stage1_opens [OF assms(1-5) budget assms(7,8), of b12 b15 os0 f0 cursor] obtain g f m1 t L
    where s: "arena (unat (heap g)) (0x70000 - unat stop) m1 L ?k" "vbr_bpd (vbr_at m1 (vbr f)) = disk_bpd D LBA"
      "root_ready g (0x70000 - unat stop) m1 L f (512 * unat (sectorsPerFAT (disk_bpd D LBA))) D off N"
      "literal (unat (heap g)) (0x70000 - unat stop) m1 lfn [76, 70, 78]" "literal (unat (heap g)) (0x70000 - unat stop) m1 kernel_bin name"
      "stage1Main b12 b13 b15 lfn kernel_bin os0 f0 m dx stop cursor =
        (case getRootFile (diskReadFunc b13 (ucast dx)) lfn g m1 f kernel_bin of None \<Rightarrow> None | Some (Inl e) \<Rightarrow> Some (Inl e)
         | Some (Inr (kernelFile, m2)) \<Rightarrow> if load32 m2 kernelFile = 1 then Some (Inl no_kernel_msg)
             else stage1_load b12 b15 (os_hex (os_init os0)) g (ucast dx) t m2 kernelFile)"
    by (elim exE conjE) (rule that)
  obtain ret m4 where "getRootFile (diskReadFunc b13 (ucast dx)) lfn g m1 f kernel_bin = Some (Inr (ret, m4))" "load32 m4 ret = 1"
    using bios_disk.getRootFile_misses [of "(b13, ucast dx)" D, OF _ s(3) s(2) [symmetric] s(1,4,5) assms(9)] assms(1) by auto
  then show ?thesis by (simp add: s(6) no_kernel_msg_def)
qed

text \<open>The image of \<open>tiny_disk\<close> read through a boot record whose first partition is active and starts at sector 0.\<close>

definition tiny_boot :: memory where
  "tiny_boot = (\<lambda>_. 0)(0x9be := 0x80, 0x2000 := 76, 0x2001 := 70, 0x2002 := 78, 0x2010 := 75)"

theorem stage1_reports_missing_kernel_witness:
  "\<forall>b15 os0 f0. stage1Main (False, 639) (model_bios tiny_disk) b15 0x2000 0x2010 os0 f0 tiny_boot 0x80 0x8000 0 =
     Some (Inl ''Could not find KERNEL.BIN'')"
proof (intro allI)
  fix b15 os0 f0
  have p: "getPartitionLBA tiny_boot = Inr 0"
    by (simp add: getPartitionLBA_def final_mbr_address_def getPartitionLBA_loop.simps partition_at_def tiny_boot_def load_defs)
  have b: "bios_reads (model_bios tiny_disk) (ucast (0x80 :: u32)) tiny_disk" by (rule model_bios_reads)
  have "disk_dir tiny_disk 1024 512 1" by (simp add: disk_dir_def tiny_disk_def)
  then have v: "disk_volume tiny_disk 0 1024 1"
    by (simp add: disk_volume_def Let_def tiny_bpd tiny_FAT disk_cluster_LBA_def firstDataSector_def isClusterEnd_def cluster_bytes_def)
  have lits: "own_literal 0x8000 tiny_boot 0x2000 [76, 70, 78]" "own_literal 0x8000 tiny_boot 0x2010 [75]"
    by (auto simp: own_literal_def tiny_boot_def own_data_def le_Suc_eq)
  show "stage1Main (False, 639) (model_bios tiny_disk) b15 0x2000 0x2010 os0 f0 tiny_boot 0x80 0x8000 0 =
      Some (Inl ''Could not find KERNEL.BIN'')"
    by (rule stage1_reports_missing_kernel [OF b p v _ _ _ lits]) (simp_all add: tiny_bpd cluster_bytes_def tiny_entry)
qed

text \<open>
  The loader starts printing in column 0 whatever the column of the BIOS cursor was, because the mask keeps the row and not the
  column; the row is kept when it is on the screen.
\<close>

theorem stage1_starts_in_column_0:
  "t_column (stage1_cursor new_terminal cursor) = 0 \<and>
   t_row (stage1_cursor new_terminal cursor) = (let row = take_bit 8 (drop_bit 8 cursor) in if row < 25 then ucast row else 0)"
proof -
  have c: "(ucast (cursor AND 0xff00) :: u8) = 0" by (rule bit_word_eqI) (auto simp: bit_simps less_8)
  have r: "(ucast (ucast (drop_bit 8 cursor) :: u8) :: u32) = take_bit 8 (drop_bit 8 cursor)"
    "(ucast (ucast (drop_bit 8 cursor) :: u8) :: u16) = ucast (take_bit 8 (drop_bit 8 cursor))"
    by (auto intro!: bit_word_eqI simp: bit_simps)
  show ?thesis unfolding stage1_cursor_def Let_def c
    by (simp add: setCursor_def r new_terminal_def not_less)
qed

end
