(* ===== verification/Acpi.thy ===== *)
theory Acpi
  imports CString
begin

text \<open>
  The ACPI tables: \<open>kernelInternal/acpi.hpp\<close>, \<open>kernelInternal/acpiKernel.hpp\<close>, \<open>kernel/devices/acpiKernel.cpp\<close> (finding the root
  pointer) and \<open>kernel/system/acpi.cpp\<close> (the classes \<open>acpi_header\<close> and \<open>acpi_madt\<close>), over the flat memory.
\<close>

section \<open>The structures\<close>

record rsdp_desc =
  rsdp_signature :: "u8 list"
  rsdp_checksum :: u8
  rsdp_OEMID :: "u8 list"
  rsdp_revision :: u8
  rsdp_rsdt_address :: u32

definition rsdp_desc_at :: "memory \<Rightarrow> u32 \<Rightarrow> rsdp_desc" where
  "rsdp_desc_at m a = \<lparr>rsdp_signature = read_bytes m a 8, rsdp_checksum = m (a + 8), rsdp_OEMID = read_bytes m (a + 9) 6,
     rsdp_revision = m (a + 15), rsdp_rsdt_address = load32 m (a + 16)\<rparr>"

record xsdp_desc =
  xsdp_signature :: "u8 list"
  xsdp_checksum :: u8
  xsdp_oemid :: "u8 list"
  xsdp_revision :: u8
  xsdp_rsdt_address :: u32
  xsdp_length :: u32
  xsdp_xsdt_address :: u64
  extended_checksumn :: u8
  xsdp_reserverd :: "u8 list"

definition xsdp_desc_at :: "memory \<Rightarrow> u32 \<Rightarrow> xsdp_desc" where
  "xsdp_desc_at m a = \<lparr>xsdp_signature = read_bytes m a 8, xsdp_checksum = m (a + 8), xsdp_oemid = read_bytes m (a + 9) 6,
     xsdp_revision = m (a + 15), xsdp_rsdt_address = load32 m (a + 16), xsdp_length = load32 m (a + 20),
     xsdp_xsdt_address = load64 m (a + 24), extended_checksumn = m (a + 32), xsdp_reserverd = read_bytes m (a + 33) 3\<rparr>"

record acpi_sdt_header =
  sdt_signature :: "u8 list"
  sdt_length :: u32
  sdt_revision :: u8
  sdt_checksum :: u8
  sdt_oemid :: "u8 list"
  oemt_table_id :: "u8 list"
  oem_revision :: u32
  creator_id :: u32
  creator_revision :: u32

definition sdt_header_at :: "memory \<Rightarrow> u32 \<Rightarrow> acpi_sdt_header" where
  "sdt_header_at m a = \<lparr>sdt_signature = read_bytes m a 4, sdt_length = load32 m (a + 4), sdt_revision = m (a + 8),
     sdt_checksum = m (a + 9), sdt_oemid = read_bytes m (a + 10) 6, oemt_table_id = read_bytes m (a + 16) 8,
     oem_revision = load32 m (a + 24), creator_id = load32 m (a + 28), creator_revision = load32 m (a + 32)\<rparr>"

definition sizeof_sdt_header :: u32 where
  "sizeof_sdt_header = 36"

text \<open>The pointer arrays at the end of \<open>rsdp\<close> (32-bit addresses) and \<open>xsdt\<close> (64-bit addresses).\<close>

definition rsdp_sdt_address :: "memory \<Rightarrow> u32 \<Rightarrow> u32 \<Rightarrow> u32" where
  "rsdp_sdt_address m a i = load32 m (a + sizeof_sdt_header + 4 * i)"

definition xsdt_sdt_address :: "memory \<Rightarrow> u32 \<Rightarrow> u32 \<Rightarrow> u64" where
  "xsdt_sdt_address m a i = load64 m (a + sizeof_sdt_header + 8 * i)"

record madt_table =
  madt_header :: acpi_sdt_header
  lapic_address :: u32
  madt_flags :: u32

definition madt_table_at :: "memory \<Rightarrow> u32 \<Rightarrow> madt_table" where
  "madt_table_at m a = \<lparr>madt_header = sdt_header_at m a, lapic_address = load32 m (a + 36), madt_flags = load32 m (a + 40)\<rparr>"

definition sizeof_madt_table :: u32 where
  "sizeof_madt_table = 44"

record madt_entry_header =
  entry_type :: u8
  record_length :: u8

definition madt_entry_header_at :: "memory \<Rightarrow> u32 \<Rightarrow> madt_entry_header" where
  "madt_entry_header_at m a = \<lparr>entry_type = m a, record_length = m (a + 1)\<rparr>"

record madt_entry_type0 =
  type0_header :: madt_entry_header
  apic_processor_id :: u8
  apic_id :: u8
  type0_flags :: u32

definition madt_entry_type0_at :: "memory \<Rightarrow> u32 \<Rightarrow> madt_entry_type0" where
  "madt_entry_type0_at m a = \<lparr>type0_header = madt_entry_header_at m a, apic_processor_id = m (a + 2), apic_id = m (a + 3),
     type0_flags = load32 m (a + 4)\<rparr>"

record madt_entry_type1 =
  type1_header :: madt_entry_header
  io_apic_id :: u8
  type1_reserved :: u8
  io_apic_address :: u32
  global_system_interrupt_base :: u32

definition madt_entry_type1_at :: "memory \<Rightarrow> u32 \<Rightarrow> madt_entry_type1" where
  "madt_entry_type1_at m a = \<lparr>type1_header = madt_entry_header_at m a, io_apic_id = m (a + 2), type1_reserved = m (a + 3),
     io_apic_address = load32 m (a + 4), global_system_interrupt_base = load32 m (a + 8)\<rparr>"

text \<open>The data members of the two classes.\<close>

record acpi_header =
  acpi_ptr :: u32
  acpi_type2 :: bool

record acpi_madt =
  madt_ptr :: u32

section \<open>Finding the root pointer\<close>

definition EBDA_START :: u32 where "EBDA_START = 0x80000"

definition EBDA_END :: u32 where "EBDA_END = 0x9ffff"

definition BIOS_START :: u32 where "BIOS_START = 0xe0000"

definition BIOS_END :: u32 where "BIOS_END = 0xfffff"

definition RSDP_SEARCH_STR :: "u8 list" where "RSDP_SEARCH_STR = [82, 83, 68, 32, 80, 84, 82]"

definition RSDP_SEARCH_STR_LEN :: u32 where "RSDP_SEARCH_STR_LEN = 7"

text \<open>The first argument of \<open>specialStrComp\<close> is always a constant string, outside the modelled memory.\<close>

function specialStrComp_loop :: "memory \<Rightarrow> u8 list \<Rightarrow> u32 \<Rightarrow> u32 \<Rightarrow> bool" where
  "specialStrComp_loop m a b i =
     (if i < RSDP_SEARCH_STR_LEN then if a ! unat i \<noteq> m (b + i) then False else specialStrComp_loop m a b (i + 1) else True)"
  by pat_completeness auto
termination
  by (relation "measure (\<lambda>(m, a, b, i). unat RSDP_SEARCH_STR_LEN - unat i)") (use word_count_up in auto)

definition specialStrComp :: "memory \<Rightarrow> u8 list \<Rightarrow> u32 \<Rightarrow> bool" where
  "specialStrComp m a b = specialStrComp_loop m a b 0"

function search_loop :: "memory \<Rightarrow> u32 \<Rightarrow> u32 \<Rightarrow> u32 option" where
  "search_loop m ptr limit =
     (if ptr < limit then if specialStrComp m RSDP_SEARCH_STR ptr then Some ptr else search_loop m (ptr + 1) limit else None)"
  by pat_completeness auto
termination
  by (relation "measure (\<lambda>(m, ptr, limit). unat limit - unat ptr)") (use word_count_up in auto)

definition searchRSDPDesc :: "memory \<Rightarrow> u32" where
  "searchRSDPDesc m =
     (case search_loop m EBDA_START (EBDA_END - RSDP_SEARCH_STR_LEN) of
        Some ptr \<Rightarrow> ptr
      | None \<Rightarrow> (case search_loop m BIOS_START (BIOS_END - RSDP_SEARCH_STR_LEN) of Some ptr \<Rightarrow> ptr | None \<Rightarrow> 0))"

function checkSum_loop :: "memory \<Rightarrow> u32 \<Rightarrow> u32 \<Rightarrow> u32 \<Rightarrow> u32 \<Rightarrow> u32" where
  "checkSum_loop m ptr len res i = (if i < len then checkSum_loop m ptr len (res + ucast (m (ptr + i))) (i + 1) else res)"
  by pat_completeness auto
termination
  by (relation "measure (\<lambda>(m, ptr, len, res, i). unat len - unat i)") (use word_count_up in auto)

declare specialStrComp_loop.simps [simp del] search_loop.simps [simp del] checkSum_loop.simps [simp del]

definition checkSum :: "memory \<Rightarrow> u32 \<Rightarrow> u32 \<Rightarrow> bool" where
  "checkSum m ptr len = (let res = checkSum_loop m ptr len 0 0 in if res AND 0xff = 0 then True else False)"

definition checkRSDPDesc :: "memory \<Rightarrow> u32 \<Rightarrow> bool" where
  "checkRSDPDesc m ptr =
     (if xsdp_revision (xsdp_desc_at m ptr) = 0 then checkSum m ptr 20
      else if xsdp_revision (xsdp_desc_at m ptr) = 2 then checkSum m ptr 36
      else False)"

definition findRSDPDesc :: "memory \<Rightarrow> u32" where
  "findRSDPDesc m = (let ptr = searchRSDPDesc m in if \<not> checkRSDPDesc m ptr then 0 else ptr)"

section \<open>The classes\<close>

definition no_xsdp_msg :: panic where
  "no_xsdp_msg = ''In kernel::acpi::apicHeader() constructor: Error: Could not find the XSDP, aborting''"

definition new_acpi_header :: "memory \<Rightarrow> acpi_header outcome" where
  "new_acpi_header m =
     (let RSDPDescPtr = findRSDPDesc m in
      if RSDPDescPtr = 0 then Inl no_xsdp_msg
      else Inr \<lparr>acpi_ptr = RSDPDescPtr, acpi_type2 = (if xsdp_revision (xsdp_desc_at m RSDPDescPtr) = 2 then True else False)\<rparr>)"

function table_loop :: "memory \<Rightarrow> (u32 \<Rightarrow> u32) \<Rightarrow> u32 \<Rightarrow> u32 \<Rightarrow> u32 \<Rightarrow> u32" where
  "table_loop m address name index numEntries =
     (if index < numEntries then
        let tempPtr = address index in
        if memcmp m tempPtr name 4 = 0 then tempPtr else table_loop m address name (index + 1) numEntries
      else 0)"
  by pat_completeness auto
termination
  by (relation "measure (\<lambda>(m, address, name, index, numEntries). unat numEntries - unat index)") (use word_count_up in auto)

declare table_loop.simps [simp del]

definition findEntry_size_msg :: panic where
  "findEntry_size_msg = ''In kernel::acpi::apicHeader::findEntry(): Error: Input string has invalid size''"

definition findEntry :: "memory \<Rightarrow> acpi_header \<Rightarrow> u32 \<Rightarrow> u32 run" where
  "findEntry m h name =
     (case strlen m name of None \<Rightarrow> None | Some n \<Rightarrow>
      if n \<noteq> 4 then Some (Inl findEntry_size_msg) else
      let d = xsdp_desc_at m (acpi_ptr h) in
      if acpi_type2 h \<and> xsdp_xsdt_address d \<noteq> 0 then
        let xsdtHeader = ucast (xsdp_xsdt_address d);
            numEntries = (sdt_length (sdt_header_at m xsdtHeader) - sizeof_sdt_header) div 8
        in Some (Inr (table_loop m (\<lambda>index. ucast (xsdt_sdt_address m xsdtHeader index)) name 0 numEntries))
      else
        let rsdpHeader = xsdp_rsdt_address d;
            numEntries = (sdt_length (sdt_header_at m rsdpHeader) - sizeof_sdt_header) div 4
        in Some (Inr (table_loop m (rsdp_sdt_address m rsdpHeader) name 0 numEntries)))"

definition getType :: "acpi_header \<Rightarrow> int" where
  "getType h = (if acpi_type2 h then 2 else 1)"

definition no_madt_msg :: panic where
  "no_madt_msg = ''In kernel::acpi::acpiMadt constructor: Error: No MADT was found''"

text \<open>\<open>apic\<close> is the address of the constant \<open>APIC\<close>.\<close>

definition new_acpi_madt :: "memory \<Rightarrow> u32 \<Rightarrow> acpi_header \<Rightarrow> acpi_madt run" where
  "new_acpi_madt m apic acpiPtr =
     (case findEntry m acpiPtr apic of None \<Rightarrow> None | Some (Inl e) \<Rightarrow> Some (Inl e)
      | Some (Inr foundPtr) \<Rightarrow> Some (if foundPtr = 0 then Inl no_madt_msg else Inr \<lparr>madt_ptr = foundPtr\<rparr>))"

partial_function (option) getEntry_loop :: "memory \<Rightarrow> u32 \<Rightarrow> u32 \<Rightarrow> u32 option" where
  "getEntry_loop m walker limit =
     (if walker < limit then
        let curr = madt_entry_header_at m walker in
        if entry_type curr = 1 then Some walker else getEntry_loop m (walker + ucast (record_length curr)) limit
      else Some 0)"

definition getEntry :: "memory \<Rightarrow> acpi_madt \<Rightarrow> int \<Rightarrow> u32 option" where
  "getEntry m a type =
     (if type \<noteq> 1 then Some 0 else
      let walker = madt_ptr a + sizeof_madt_table;
          limit = madt_ptr a + sdt_length (madt_header (madt_table_at m (madt_ptr a)))
      in getEntry_loop m walker limit)"

declare getEntry_loop.simps [code]

section \<open>The search is a search in a list\<close>

lemma le_Suc_iff: "j \<le> k \<longleftrightarrow> k = j \<or> Suc j \<le> k" for j k :: nat
  by auto

lemma specialStrComp_loop_iff:
  "i \<le> 7 \<Longrightarrow> length a = 7 \<Longrightarrow> specialStrComp_loop m a b i \<longleftrightarrow> (\<forall>k. unat i \<le> k \<and> k < 7 \<longrightarrow> a ! k = m (b + of_nat k))"
proof (induction rule: word_upto_induct)
  case stop
  then show ?case by (auto simp: specialStrComp_loop.simps RSDP_SEARCH_STR_LEN_def)
next
  case (step i)
  have u: "unat i < 7" "unat (i + 1) = Suc (unat i)"
    using step.hyps word_Suc_unat [OF step.hyps] by (simp_all add: word_less_nat_alt)
  have "(\<forall>k. unat i \<le> k \<and> k < 7 \<longrightarrow> a ! k = m (b + of_nat k)) \<longleftrightarrow>
      a ! unat i = m (b + i) \<and> (\<forall>k. Suc (unat i) \<le> k \<and> k < 7 \<longrightarrow> a ! k = m (b + of_nat k))"
    using u(1) le_Suc_iff [of "unat i"] by auto
  with step u show ?case by (subst specialStrComp_loop.simps) (simp add: RSDP_SEARCH_STR_LEN_def)
qed

lemma specialStrComp_iff: "specialStrComp m RSDP_SEARCH_STR b \<longleftrightarrow> read_bytes m b 7 = RSDP_SEARCH_STR"
proof -
  have l: "length RSDP_SEARCH_STR = 7" by (simp add: RSDP_SEARCH_STR_def)
  have "specialStrComp m RSDP_SEARCH_STR b \<longleftrightarrow> (\<forall>k < 7. RSDP_SEARCH_STR ! k = m (b + of_nat k))"
    using specialStrComp_loop_iff [of 0 RSDP_SEARCH_STR m b] l by (simp add: specialStrComp_def)
  also have "\<dots> \<longleftrightarrow> read_bytes m b 7 = RSDP_SEARCH_STR"
    using l by (auto simp: list_eq_iff_nth_eq read_bytes_def)
  finally show ?thesis .
qed

lemma search_loop_find:
  "p \<le> limit \<Longrightarrow> search_loop m p limit =
     map_option of_nat (find (\<lambda>a. read_bytes m (of_nat a) 7 = RSDP_SEARCH_STR) [unat p..<unat limit])"
proof (induction rule: word_upto_induct)
  case stop
  then show ?case by (simp add: search_loop.simps)
next
  case (step p)
  then have "[unat p..<unat limit] = unat p # [unat (p + 1)..<unat limit]"
    by (simp add: upt_conv_Cons word_less_nat_alt word_Suc_unat)
  with step show ?case by (subst search_loop.simps) (simp add: specialStrComp_iff)
qed

lemma checkSum_loop_sum:
  "i \<le> len \<Longrightarrow> checkSum_loop m p len res i = res + of_nat (sum_list (map unat (read_bytes m (p + i) (unat len - unat i))))"
proof (induction arbitrary: res rule: word_upto_induct)
  case stop
  then show ?case by (simp add: checkSum_loop.simps)
next
  case (step i)
  have "unat len - unat i = Suc (unat len - unat (i + 1))"
    using step.hyps by (simp add: word_Suc_unat word_less_nat_alt)
  with step show ?case by (subst checkSum_loop.simps) (simp add: read_bytes_Suc add.assoc of_nat_unat)
qed

lemma checkSum_iff: "checkSum m p len \<longleftrightarrow> sum_list (map unat (read_bytes m p (unat len))) mod 256 = 0"
proof -
  have "of_nat k AND (0xff :: u32) = 0 \<longleftrightarrow> k mod 256 = 0" for k
  proof -
    have "of_nat k AND (0xff :: u32) = take_bit 8 (of_nat k)" by (simp add: take_bit_eq_mask mask_eq_exp_minus_1)
    moreover have "unat (take_bit 8 (of_nat k :: u32)) = take_bit 8 (k mod 2 ^ LENGTH(32))" by (simp only: unsigned_take_bit_eq unat_of_nat)
    moreover have "take_bit 8 (k mod 2 ^ LENGTH(32)) = k mod 2 ^ LENGTH(32) mod 2 ^ 8" by (rule take_bit_eq_mod)
    moreover have "k mod 2 ^ LENGTH(32) mod 2 ^ 8 = k mod 256" by (simp add: mod_mod_cancel)
    ultimately show ?thesis by (metis unat_eq_0)
  qed
  then show ?thesis using checkSum_loop_sum [of 0 len m p 0] by (simp add: checkSum_def Let_def)
qed

text \<open>Every address of the two areas that the code searches, and the validity of a descriptor.\<close>

definition rsdp_places :: "nat list" where
  "rsdp_places = [0x80000..<0x9fff8] @ [0xe0000..<0xffff8]"

definition valid_rsdp :: "memory \<Rightarrow> u32 \<Rightarrow> bool" where
  "valid_rsdp m a \<longleftrightarrow> (\<exists>n. (m (a + 15) = 0 \<and> n = 20 \<or> m (a + 15) = 2 \<and> n = 36) \<and> sum_list (map unat (read_bytes m a n)) mod 256 = 0)"

definition rsdp_spec :: "memory \<Rightarrow> u32" where
  "rsdp_spec m = (case find (\<lambda>a. read_bytes m (of_nat a) 7 = RSDP_SEARCH_STR) rsdp_places of
     None \<Rightarrow> 0 | Some a \<Rightarrow> if valid_rsdp m (of_nat a) then of_nat a else 0)"

lemma find_append: "find P (xs @ ys) = (case find P xs of Some x \<Rightarrow> Some x | None \<Rightarrow> find P ys)"
  by (induction xs) auto

lemma checkRSDPDesc_iff: "checkRSDPDesc m p \<longleftrightarrow> valid_rsdp m p"
  by (auto simp: checkRSDPDesc_def valid_rsdp_def xsdp_desc_at_def checkSum_iff)

lemma findRSDPDesc_spec: "findRSDPDesc m = rsdp_spec m"
proof -
  let ?f = "find (\<lambda>a. read_bytes m (of_nat a) 7 = RSDP_SEARCH_STR)"
  have "search_loop m EBDA_START (EBDA_END - RSDP_SEARCH_STR_LEN) = map_option of_nat (?f [0x80000..<0x9fff8])"
    using search_loop_find [of EBDA_START "EBDA_END - RSDP_SEARCH_STR_LEN" m]
    by (simp add: EBDA_START_def EBDA_END_def RSDP_SEARCH_STR_LEN_def del: upt_rec_numeral)
  moreover have "search_loop m BIOS_START (BIOS_END - RSDP_SEARCH_STR_LEN) = map_option of_nat (?f [0xe0000..<0xffff8])"
    using search_loop_find [of BIOS_START "BIOS_END - RSDP_SEARCH_STR_LEN" m]
    by (simp add: BIOS_START_def BIOS_END_def RSDP_SEARCH_STR_LEN_def del: upt_rec_numeral)
  ultimately have "searchRSDPDesc m = (case ?f rsdp_places of None \<Rightarrow> 0 | Some a \<Rightarrow> of_nat a)"
    unfolding rsdp_places_def find_append searchRSDPDesc_def by (simp split: option.splits del: upt_rec_numeral)
  then show ?thesis
    by (auto simp: findRSDPDesc_def rsdp_spec_def Let_def checkRSDPDesc_iff split: option.splits)
qed

section \<open>Looking up a table\<close>

lemma table_loop_find:
  "i \<le> n \<Longrightarrow> table_loop m adr name i n =
     (case find (\<lambda>p. memcmp m p name 4 = 0) (map (\<lambda>k. adr (of_nat k)) [unat i..<unat n]) of None \<Rightarrow> 0 | Some p \<Rightarrow> p)"
proof (induction rule: word_upto_induct)
  case stop
  then show ?case by (simp add: table_loop.simps)
next
  case (step i)
  then have "[unat i..<unat n] = unat i # [unat (i + 1)..<unat n]"
    by (simp add: upt_conv_Cons word_less_nat_alt word_Suc_unat)
  with step show ?case by (subst table_loop.simps) (simp add: Let_def)
qed

text \<open>The addresses in the root table: 64-bit ones (cut to 32 bits) from the XSDT if there is one, else 32-bit ones from the RSDT.\<close>

definition root_tables :: "memory \<Rightarrow> acpi_header \<Rightarrow> u32 list" where
  "root_tables m h =
     (let d = xsdp_desc_at m (acpi_ptr h); x = ucast (xsdp_xsdt_address d); r = xsdp_rsdt_address d in
      if acpi_type2 h \<and> xsdp_xsdt_address d \<noteq> 0
      then map (\<lambda>k. ucast (load64 m (x + 36 + 8 * of_nat k))) [0..<(unat (load32 m (x + 4)) - 36) div 8]
      else map (\<lambda>k. load32 m (r + 36 + 4 * of_nat k)) [0..<(unat (load32 m (r + 4)) - 36) div 4])"

definition root_length :: "memory \<Rightarrow> acpi_header \<Rightarrow> u32" where
  "root_length m h =
     (let d = xsdp_desc_at m (acpi_ptr h) in
      if acpi_type2 h \<and> xsdp_xsdt_address d \<noteq> 0 then load32 m (ucast (xsdp_xsdt_address d) + 4) else load32 m (xsdp_rsdt_address d + 4))"

lemma unat_div_sub: "36 \<le> l \<Longrightarrow> unat ((l - 36) div of_nat k) = (unat l - 36) div k" if "k < 2 ^ 32" for l :: u32
  using that by (simp add: unat_div unat_sub unat_of_nat word_le_nat_alt)

lemma findEntry_find:
  assumes "cstr m name cs" "length cs = 4" "36 \<le> root_length m h"
  shows "findEntry m h name = Some (Inr (case find (\<lambda>p. read_bytes m p 4 = cs) (root_tables m h) of None \<Rightarrow> 0 | Some p \<Rightarrow> p))"
proof -
  have n: "strlen m name = Some 4" using strlen_cstr [OF assms(1)] assms(2) by simp
  have "m (name + of_nat k) = cs ! k" if "k < length cs" for k using assms(1) that by (simp add: cstr_nth)
  then have rb: "read_bytes m name 4 = cs" using assms(2) by (auto simp: list_eq_iff_nth_eq read_bytes_def)
  then have P: "(\<lambda>p. memcmp m p name 4 = 0) = (\<lambda>p. read_bytes m p 4 = cs)"
    using rb assms(2) by (intro ext) (simp add: memcmp_compare list_compare_eq_0_iff)
  let ?d = "xsdp_desc_at m (acpi_ptr h)"
  note tl = table_loop_find [of 0 _ m _ name, unfolded P, simplified]
  show ?thesis
  proof (cases "acpi_type2 h \<and> xsdp_xsdt_address ?d \<noteq> 0")
    case True
    let ?x = "ucast (xsdp_xsdt_address ?d) :: u32"
    have "36 \<le> load32 m (?x + 4)" using True assms(3) by (simp add: root_length_def Let_def)
    then have "unat ((load32 m (?x + 4) - 36) div 8) = (unat (load32 m (?x + 4)) - 36) div 8" using unat_div_sub [of 8] by simp
    with True n show ?thesis
      by (simp add: findEntry_def root_tables_def Let_def sdt_header_at_def sizeof_sdt_header_def xsdt_sdt_address_def tl)
  next
    case False
    let ?r = "xsdp_rsdt_address ?d"
    have "36 \<le> load32 m (?r + 4)" using False assms(3) by (auto simp: root_length_def Let_def)
    then have "unat ((load32 m (?r + 4) - 36) div 4) = (unat (load32 m (?r + 4)) - 36) div 4" using unat_div_sub [of 4] by simp
    then show ?thesis using n
      by (simp add: findEntry_def root_tables_def Let_def if_not_P [OF False] sdt_header_at_def sizeof_sdt_header_def rsdp_sdt_address_def tl)
  qed
qed

section \<open>Walking through the records\<close>

text \<open>\<open>records m a es b\<close>: from \<open>a\<close> on there are records of the types and lengths \<open>es\<close>, each starting below the limit, and the next one would be at \<open>b\<close>.\<close>

fun records :: "memory \<Rightarrow> u32 \<Rightarrow> u32 \<Rightarrow> (u8 \<times> u8) list \<Rightarrow> u32 \<Rightarrow> bool" where
  "records m limit a [] b \<longleftrightarrow> a = b"
| "records m limit a ((t, l) # es) b \<longleftrightarrow> a < limit \<and> m a = t \<and> m (a + 1) = l \<and> records m limit (a + ucast l) es b"

fun first_type1 :: "u32 \<Rightarrow> (u8 \<times> u8) list \<Rightarrow> u32" where
  "first_type1 a [] = 0"
| "first_type1 a ((t, l) # es) = (if t = 1 then a else first_type1 (a + ucast l) es)"

lemma getEntry_loop_records:
  "records m limit a es b \<Longrightarrow> \<forall>e \<in> set es. fst e \<noteq> 1 \<Longrightarrow> getEntry_loop m a limit = getEntry_loop m b limit"
proof (induction es arbitrary: a)
  case (Cons e es)
  obtain t l where e: "e = (t, l)" by fastforce
  with Cons have "getEntry_loop m a limit = getEntry_loop m (a + ucast l) limit"
    by (subst getEntry_loop.simps) (auto simp: madt_entry_header_at_def Let_def)
  with Cons e show ?case by auto
qed simp

lemma getEntry_loop_first:
  "records m limit a es b \<Longrightarrow> \<not> b < limit \<Longrightarrow> getEntry_loop m a limit = Some (first_type1 a es)"
proof (induction es arbitrary: a)
  case Nil
  then show ?case by (subst getEntry_loop.simps) simp
next
  case (Cons e es)
  obtain t l where e: "e = (t, l)" by fastforce
  with Cons show ?case
    by (subst getEntry_loop.simps) (auto simp: madt_entry_header_at_def Let_def)
qed

lemma getEntry_loop_stuck:
  assumes "a < limit" "m a \<noteq> 1" "m (a + 1) = 0"
  shows "getEntry_loop m a limit = None"
proof -
  have "x \<noteq> a \<or> y \<noteq> limit \<or> mm \<noteq> m" if "getEntry_loop mm x y = Some r" for mm x y r
    using that
  proof (rule getEntry_loop.raw_induct [where P = "\<lambda>mm x y r. x \<noteq> a \<or> y \<noteq> limit \<or> mm \<noteq> m", rotated])
    fix f mm x y r
    assume f: "\<And>mm x y r. f mm x y = Some r \<Longrightarrow> x \<noteq> a \<or> y \<noteq> limit \<or> mm \<noteq> m"
      and s: "(if x < y then let curr = madt_entry_header_at mm x in
           if entry_type curr = 1 then Some x else f mm (x + ucast (record_length curr)) y else Some 0) = Some r"
    show "x \<noteq> a \<or> y \<noteq> limit \<or> mm \<noteq> m"
    proof (rule ccontr)
      assume "\<not> ?thesis"
      then have "f m a limit = Some r" using s assms by (simp add: madt_entry_header_at_def Let_def)
      from f [OF this] show False by simp
    qed
  qed
  then show ?thesis by (cases "getEntry_loop m a limit") auto
qed

section \<open>What the ACPI code guarantees\<close>

text \<open>
  C15. \<open>findRSDPDesc\<close> is the search for the first address with the seven characters of the signature in the two areas, in
  order: it returns that address if its descriptor has revision 0 or 2 and its 20 or 36 bytes sum to 0 modulo 256, and otherwise null, without
  looking further. The search is byte by byte: the comment in \<open>searchRSDPDesc\<close> promises a 16-byte aligned search, but the step of 16 is commented out, so the signature is also found at an
  unaligned address. (When there is no signature the code checks a descriptor at address 0, and returns null whatever it finds.)
\<close>

theorem findRSDPDesc_equals_search:
  "findRSDPDesc m = (case find (\<lambda>a. read_bytes m (of_nat a) 7 = RSDP_SEARCH_STR) rsdp_places of
     None \<Rightarrow> 0
   | Some a \<Rightarrow> if valid_rsdp m (of_nat a) then of_nat a else 0)"
  using findRSDPDesc_spec [of m] by (simp add: rsdp_spec_def)

text \<open>
  C36. For a name of four characters and a root table at least as long as its header, \<open>findEntry\<close> returns, and it returns the first
  address in the root table at which the name stands, or null if there is none.
\<close>

theorem findEntry_finds:
  assumes "cstr m name cs" "length cs = 4" "36 \<le> root_length m h"
  shows "findEntry m h name = Some (Inr (case find (\<lambda>p. read_bytes m p 4 = cs) (root_tables m h) of None \<Rightarrow> 0 | Some p \<Rightarrow> p))"
  using findEntry_find [OF assms] .

text \<open>A descriptor at 0 with a root table of one entry at \<open>0x100\<close>, which is a table called \<open>APIC\<close> at \<open>0x200\<close>; the name is at \<open>0x300\<close>.\<close>

definition tiny_acpi :: memory where
  "tiny_acpi = (\<lambda>_. 0)(0x11 := 1, 0x104 := 40, 0x125 := 2, 0x200 := 65, 0x201 := 80, 0x202 := 73, 0x203 := 67, 0x204 := 56,
     0x22c := 0, 0x22d := 8, 0x234 := 1, 0x235 := 12, 0x300 := 65, 0x301 := 80, 0x302 := 73, 0x303 := 67)"

theorem findEntry_finds_witness: "findEntry tiny_acpi \<lparr>acpi_ptr = 0, acpi_type2 = False\<rparr> 0x300 = Some (Inr 0x200)"
proof -
  let ?h = "\<lparr>acpi_ptr = 0, acpi_type2 = False\<rparr>"
  have c: "cstr tiny_acpi 0x300 [65, 80, 73, 67]" by (simp add: tiny_acpi_def)
  have r: "xsdp_rsdt_address (xsdp_desc_at tiny_acpi 0) = 0x100" by (simp add: xsdp_desc_at_def load_defs tiny_acpi_def)
  have l: "load32 tiny_acpi 0x104 = 40" "load32 tiny_acpi 0x124 = 0x200" by (simp_all add: load_defs tiny_acpi_def)
  have "36 \<le> root_length tiny_acpi ?h" by (simp add: root_length_def r l Let_def word_le_nat_alt)
  from findEntry_finds [OF c _ this] have "findEntry tiny_acpi ?h 0x300 =
      Some (Inr (case find (\<lambda>p. read_bytes tiny_acpi p 4 = [65, 80, 73, 67]) (root_tables tiny_acpi ?h) of None \<Rightarrow> 0 | Some p \<Rightarrow> p))" by simp
  moreover have "root_tables tiny_acpi ?h = [0x200]" by (simp add: root_tables_def r l Let_def)
  moreover have "read_bytes tiny_acpi 0x200 4 = [65, 80, 73, 67]" by (simp add: read_bytes_def upt_rec tiny_acpi_def)
  ultimately show ?thesis by simp
qed

text \<open>
  On a table whose records follow one another up to its length, \<open>getEntry(1)\<close> returns the address of the first record of type 1, or null
  if there is none; any other type yields null.
\<close>

theorem getEntry_first:
  assumes "records m limit (madt_ptr a + 44) es b" "limit = madt_ptr a + load32 m (madt_ptr a + 4)" "\<not> b < limit"
  shows "getEntry m a type = Some (if type = 1 then first_type1 (madt_ptr a + 44) es else 0)"
  using getEntry_loop_first [OF assms(1,3)] assms(2)
  by (simp add: getEntry_def Let_def sizeof_madt_table_def madt_table_at_def sdt_header_at_def)

theorem getEntry_first_witness: "getEntry (tiny_acpi(0x204 := 64)) \<lparr>madt_ptr = 0x200\<rparr> 1 = Some 0x234"
proof -
  let ?m = "tiny_acpi(0x204 := 64)" and ?a = "\<lparr>madt_ptr = 0x200\<rparr>"
  have r: "records ?m 0x240 (madt_ptr ?a + 44) [(0, 8), (1, 12)] 0x240" by (simp add: tiny_acpi_def)
  have l: "0x240 = madt_ptr ?a + load32 ?m (madt_ptr ?a + 4)" by (simp add: tiny_acpi_def load_defs)
  have "getEntry ?m ?a 1 = Some (if (1 :: int) = 1 then first_type1 (madt_ptr ?a + 44) [(0, 8), (1, 12)] else 0)"
    by (rule getEntry_first [OF r l]) simp
  also have "\<dots> = Some 0x234" by simp
  finally show ?thesis .
qed

text \<open>
  C37. If, before any record of type 1, the walk meets a record of another type whose length is 0, \<open>getEntry(1)\<close> never returns.
\<close>

theorem getEntry_empty_record_diverges:
  assumes "records m limit (madt_ptr a + 44) es b" "limit = madt_ptr a + load32 m (madt_ptr a + 4)"
    and "\<forall>e \<in> set es. fst e \<noteq> 1" "b < limit" "m b \<noteq> 1" "m (b + 1) = 0"
  shows "getEntry m a 1 = None"
  using getEntry_loop_records [OF assms(1,3)] getEntry_loop_stuck [OF assms(4-6)] assms(2)
  by (simp add: getEntry_def Let_def sizeof_madt_table_def madt_table_at_def sdt_header_at_def)

theorem getEntry_empty_record_diverges_witness:
  "getEntry (tiny_acpi(0x204 := 64, 0x234 := 2, 0x235 := 0)) \<lparr>madt_ptr = 0x200\<rparr> 1 = None"
proof (rule getEntry_empty_record_diverges [where limit = "0x240" and es = "[(0, 8)]" and b = "0x234"])
  let ?m = "tiny_acpi(0x204 := 64, 0x234 := 2, 0x235 := 0)" and ?a = "\<lparr>madt_ptr = 0x200\<rparr>"
  show "records ?m 0x240 (madt_ptr ?a + 44) [(0, 8)] 0x234" by (simp add: tiny_acpi_def)
  show "0x240 = madt_ptr ?a + load32 ?m (madt_ptr ?a + 4)" by (simp add: tiny_acpi_def load_defs)
qed (simp_all add: tiny_acpi_def)

end
