(* ===== verification/Idt.thy ===== *)
theory Idt
  imports Outstream
begin

text \<open>
  Interrupts in the kernel: the interrupt descriptor table of \<open>kernelInternal/system/interrupts.hpp\<close> and
  \<open>kernel/system/interrupts.cpp\<close> in memory, the legacy interrupt controllers (\<open>pic.hpp\<close>, \<open>cpuio.hpp\<close>), and the C++
  interrupt handler. Port writes and the instructions \<open>cli\<close>, \<open>sti\<close> and \<open>lidt\<close> are recorded in a trace.
\<close>

section \<open>Ports and instructions\<close>

datatype event = Outb u16 u8 | Cli | Sti | Lidt u16 u32

type_synonym trace = "event list"

definition io_port :: u16 where
  "io_port = 0x80"

definition outb :: "trace \<Rightarrow> u16 \<Rightarrow> u8 \<Rightarrow> trace" where
  "outb tr port byte = tr @ [Outb port byte]"

definition iowait :: "trace \<Rightarrow> trace" where
  "iowait tr = outb tr io_port 0"

definition enableInterrupts :: "trace \<Rightarrow> trace" where
  "enableInterrupts tr = tr @ [Sti]"

definition disableInterrupts :: "trace \<Rightarrow> trace" where
  "disableInterrupts tr = tr @ [Cli]"

section \<open>Constants\<close>

definition IDT_SIZE :: nat where
  "IDT_SIZE = 256"

definition MASTER_PIC_VECTOR_OFFSET :: int where
  "MASTER_PIC_VECTOR_OFFSET = 0xfe"

definition SLAVE_PIC_VECTOR_OFFSET :: int where
  "SLAVE_PIC_VECTOR_OFFSET = 0xfe"

definition PIC_COMMAND_MASTER :: u8 where "PIC_COMMAND_MASTER = 0x20"

definition PIC_DATA_MASTER :: u8 where "PIC_DATA_MASTER = 0x21"

definition PIC_COMMAND_SLAVE :: u8 where "PIC_COMMAND_SLAVE = 0xa0"

definition PIC_DATA_SLAVE :: u8 where "PIC_DATA_SLAVE = 0xa1"

definition ICW1_INIT :: u8 where "ICW1_INIT = 0x10"

definition ICW1_ICW4 :: u8 where "ICW1_ICW4 = 0x01"

definition ICW4_8086 :: u8 where "ICW4_8086 = 0x01"

definition PIC_MASK_INTERRUPTS :: u8 where "PIC_MASK_INTERRUPTS = 0xff"

definition CODE32_KSEGMENT :: u16 where "CODE32_KSEGMENT = 0x08"

lemmas idt_constants = io_port_def IDT_SIZE_def MASTER_PIC_VECTOR_OFFSET_def SLAVE_PIC_VECTOR_OFFSET_def
  PIC_COMMAND_MASTER_def PIC_DATA_MASTER_def PIC_COMMAND_SLAVE_def PIC_DATA_SLAVE_def
  ICW1_INIT_def ICW1_ICW4_def ICW4_8086_def PIC_MASK_INTERRUPTS_def CODE32_KSEGMENT_def

section \<open>The structures\<close>

text \<open>The bit-fields of the flags byte, from the least significant bit.\<close>

record interruptDescriptorFlags =
  gate_type :: u8
  gate_zero :: u8
  gate_dpl :: u8
  gate_present :: u8

definition gate_flags_of :: "u8 \<Rightarrow> interruptDescriptorFlags" where
  "gate_flags_of b = \<lparr>gate_type = b AND 0xf, gate_zero = drop_bit 4 b AND 1, gate_dpl = drop_bit 5 b AND 3, gate_present = drop_bit 7 b\<rparr>"

definition set_gate_type :: "u8 \<Rightarrow> u8 \<Rightarrow> u8" where
  "set_gate_type b v = (b AND 0xf0) OR (v AND 0xf)"

definition set_gate_zero :: "u8 \<Rightarrow> u8 \<Rightarrow> u8" where
  "set_gate_zero b v = (b AND 0xef) OR push_bit 4 (v AND 1)"

definition set_gate_dpl :: "u8 \<Rightarrow> u8 \<Rightarrow> u8" where
  "set_gate_dpl b v = (b AND 0x9f) OR push_bit 5 (v AND 3)"

definition set_gate_present :: "u8 \<Rightarrow> u8 \<Rightarrow> u8" where
  "set_gate_present b v = (b AND 0x7f) OR push_bit 7 (v AND 1)"

record interruptDescriptor =
  address_low :: u16
  segment_selector :: u16
  gate_reserved :: u8
  gate_flags :: interruptDescriptorFlags
  address_high :: u16

definition interruptDescriptor_at :: "memory \<Rightarrow> u32 \<Rightarrow> interruptDescriptor" where
  "interruptDescriptor_at m a = \<lparr>address_low = load16 m a, segment_selector = load16 m (a + 2), gate_reserved = m (a + 4),
     gate_flags = gate_flags_of (m (a + 5)), address_high = load16 m (a + 6)\<rparr>"

record interruptDescriptorTableRegister =
  idtr_size :: u16
  idtr_address :: u32

record pushad_frame =
  pf_edi :: u32
  pf_esi :: u32
  pf_ebp :: u32
  pf_esp :: u32
  pf_ebx :: u32
  pf_edx :: u32
  pf_ecx :: u32
  pf_eax :: u32

record isr_frame_t =
  pFrame :: pushad_frame
  intNumber :: u32
  errorCode :: u32
  isr_eip :: u32
  isr_cs :: u32
  isr_eflags :: u32

text \<open>The data members of class \<open>interruptDescriptorTable\<close>.\<close>

record interruptDescriptorTable =
  IDT_ptr :: u32
  idt_initialized :: bool

section \<open>The operations\<close>

text \<open>\<open>table\<close> is the address of the static array \<open>__idt_table\<close>.\<close>

definition new_interruptDescriptorTable :: "u32 \<Rightarrow> interruptDescriptorTable" where
  "new_interruptDescriptorTable table = \<lparr>IDT_ptr = table, idt_initialized = False\<rparr>"

definition installInterrupt :: "memory \<Rightarrow> interruptDescriptorTable \<Rightarrow> u8 \<Rightarrow> u32 \<Rightarrow> u8 \<Rightarrow> bool \<times> memory" where
  "installInterrupt m idt vector handler_addr dpl =
     (let entry = IDT_ptr idt + 8 * ucast vector;
          m = store16 m entry (ucast (handler_addr AND 0xFFFF));
          m = store16 m (entry + 6) (ucast (drop_bit 16 handler_addr AND 0xFFFF));
          m = store16 m (entry + 2) CODE32_KSEGMENT;
          m = m(entry + 5 := set_gate_dpl (m (entry + 5)) dpl);
          m = m(entry + 5 := set_gate_present (m (entry + 5)) 1);
          m = m(entry + 5 := set_gate_type (m (entry + 5)) 0xe);
          m = m(entry + 5 := set_gate_zero (m (entry + 5)) 0)
      in (True, m))"

definition loadIDT :: "trace \<Rightarrow> interruptDescriptorTable \<Rightarrow> trace" where
  "loadIDT tr idt =
     (let idtReg = \<lparr>idtr_size = 0xFFF, idtr_address = IDT_ptr idt\<rparr>;
          tr = disableInterrupts tr;
          tr = tr @ [Lidt (idtr_size idtReg) (idtr_address idtReg)]
      in enableInterrupts tr)"

text \<open>\<open>stubs\<close> is the address of \<open>_handler_stub_table\<close>.\<close>

function installAll_loop :: "memory \<Rightarrow> interruptDescriptorTable \<Rightarrow> u32 \<Rightarrow> u32 \<Rightarrow> memory" where
  "installAll_loop m idt stubs i =
     (if i < 256 then installAll_loop (snd (installInterrupt m idt (ucast i) (load32 m (stubs + 4 * i)) 0)) idt stubs (i + 1) else m)"
  by pat_completeness auto
termination
  by (relation "measure (\<lambda>(m, idt, stubs, i). 256 - unat i)") (use word_count_up [of _ "256 :: u32"] in auto)

declare installAll_loop.simps [simp del]

definition installAll :: "memory \<Rightarrow> interruptDescriptorTable \<Rightarrow> u32 \<Rightarrow> memory" where
  "installAll m idt stubs = installAll_loop m idt stubs 0"

definition disablePIC :: "trace \<Rightarrow> trace" where
  "disablePIC tr =
     (let tr = iowait (outb tr (ucast PIC_COMMAND_MASTER) (ICW1_INIT OR ICW1_ICW4));
          tr = iowait (outb tr (ucast PIC_COMMAND_SLAVE) (ICW1_INIT OR ICW1_ICW4));
          tr = iowait (outb tr (ucast PIC_DATA_MASTER) (of_int MASTER_PIC_VECTOR_OFFSET));
          tr = iowait (outb tr (ucast PIC_DATA_SLAVE) (of_int SLAVE_PIC_VECTOR_OFFSET));
          tr = iowait (outb tr (ucast PIC_DATA_MASTER) 4);
          tr = iowait (outb tr (ucast PIC_DATA_SLAVE) 2);
          tr = iowait (outb tr (ucast PIC_DATA_MASTER) ICW4_8086);
          tr = iowait (outb tr (ucast PIC_DATA_SLAVE) ICW4_8086);
          tr = outb tr (ucast PIC_DATA_MASTER) PIC_MASK_INTERRUPTS
      in outb tr (ucast PIC_DATA_SLAVE) PIC_MASK_INTERRUPTS)"

text \<open>\<open>init\<close> returns false when the table is already initialised; on the other path control flows off the end of the function,
  so there is no value (\<open>None\<close>). It never sets \<open>initialized\<close>.\<close>

definition idt_init :: "memory \<Rightarrow> trace \<Rightarrow> interruptDescriptorTable \<Rightarrow> u32 \<Rightarrow> bool option \<times> interruptDescriptorTable \<times> memory \<times> trace" where
  "idt_init m tr idt stubs =
     (if idt_initialized idt = True then (Some False, idt, m, tr) else
      let tr = disablePIC tr; m = installAll m idt stubs; tr = loadIDT tr idt in (None, idt, m, tr))"

text \<open>The handler; \<open>tempNum\<close> is its buffer on the stack. The message given to \<open>earlyPanic\<close> ends at the first NUL.\<close>

definition handler_prefix :: string where
  "handler_prefix = ''Interrupt called with vector ''"

definition chars_of :: "u8 list \<Rightarrow> string" where
  "chars_of cs = map (\<lambda>c. char_of (unat c)) (takeWhile (\<lambda>c. c \<noteq> 0) cs)"

definition interruptHandler ::
  "outstream \<Rightarrow> memory \<Rightarrow> framebuffer_terminal \<Rightarrow> u32 \<Rightarrow> isr_frame_t \<Rightarrow> (framebuffer_terminal \<times> memory) run" where
  "interruptHandler os m t tempNum isr_frame =
     (let vector = intNumber isr_frame in
      if vector = 0xff then Some (Inr (out_str m t (''Warning: Spurious interrupt caught'' @ [CHR 10])))
      else case out_chain os m t [Str '' INFO: Interrupt called with vector 0x'', Num (uint vector), Str [CHR 10]] of (t, m) \<Rightarrow>
        (case xtoa m (uint vector) tempNum 16 of None \<Rightarrow> None | Some (_, m) \<Rightarrow>
         Some (Inl (handler_prefix @ chars_of [m tempNum, m (tempNum + 1), m (tempNum + 2)]))))"

section \<open>One descriptor\<close>

definition interrupt_gate :: "memory \<Rightarrow> u32 \<Rightarrow> u32 \<Rightarrow> u8 \<Rightarrow> bool" where
  "interrupt_gate m a handler dpl \<longleftrightarrow>
     (let d = interruptDescriptor_at m a in
      push_bit 16 (ucast (address_high d)) OR ucast (address_low d) = handler \<and> segment_selector d = CODE32_KSEGMENT \<and>
      gate_flags d = \<lparr>gate_type = 0xe, gate_zero = 0, gate_dpl = dpl, gate_present = 1\<rparr>)"

lemma dpl_bits: "bit (push_bit 5 (dpl AND 3) :: u8) n \<longleftrightarrow> n \<in> {5, 6} \<and> bit dpl (n - 5)" for dpl :: u8
proof -
  have "dpl AND 3 = take_bit 2 dpl" by (simp add: take_bit_eq_mask mask_eq_exp_minus_1)
  then have "bit (push_bit 5 (dpl AND 3)) n \<longleftrightarrow> n < 8 \<and> 5 \<le> n \<and> n - 5 < 2 \<and> bit dpl (n - 5)"
    by (simp only: bit_push_bit_iff bit_take_bit_iff possible_bit_word) auto
  then show ?thesis by auto
qed

lemma gate_flags_set:
  "gate_flags_of (set_gate_zero (set_gate_type (set_gate_present (set_gate_dpl b dpl) 1) 0xe) 0) =
     \<lparr>gate_type = 0xe, gate_zero = 0, gate_dpl = dpl AND 3, gate_present = 1\<rparr>"
proof -
  define p :: u8 where "p = push_bit 5 (dpl AND 3)"
  have p: "bit p n \<longleftrightarrow> n \<in> {5, 6} \<and> bit dpl (n - 5)" for n unfolding p_def by (rule dpl_bits)
  define f where "f = set_gate_zero (set_gate_type (set_gate_present (set_gate_dpl b dpl) 1) 0xe) 0"
  have f8: "bit f n = (n \<in> {1, 2, 3, 7} \<or> n \<in> {5, 6} \<and> bit dpl (n - 5))" if "n < 8" for n
    using that unfolding f_def set_gate_dpl_def p_def [symmetric] less_8
    by (elim disjE) (simp_all add: set_gate_zero_def set_gate_type_def set_gate_present_def p bit_simps)
  have f: "bit f n = (n \<in> {1, 2, 3, 7} \<or> n \<in> {5, 6} \<and> bit dpl (n - 5))" for n
    using f8 [of n] bit_imp_le_length [of f n] by (cases "n < 8") auto
  have "f AND 0xf = 0xe" "drop_bit 4 f AND 1 = 0" "drop_bit 5 f AND 3 = dpl AND 3" "drop_bit 7 f = 1"
    by (rule bit_word_eqI; simp add: f less_8 bit_simps; elim disjE; simp add: f bit_simps)+
  then show ?thesis unfolding f_def [symmetric] by (simp add: gate_flags_of_def)
qed

lemma and_low16: "x AND 0xFFFF = take_bit 16 x" for x :: u32
  by (simp add: take_bit_eq_mask mask_eq_exp_minus_1)

lemma installInterrupt_gate:
  fixes idt :: interruptDescriptorTable
  defines "e \<equiv> (\<lambda>v :: u8. IDT_ptr idt + 8 * ucast v)"
  assumes "installInterrupt m idt v h dpl = (ok, m')"
  shows "ok" and "interrupt_gate m' (e v) h (dpl AND 3)" and "m' (e v + 4) = m (e v + 4)"
    and "\<not> x - e v < 8 \<Longrightarrow> m' x = m x"
proof -
  show ok using assms(2) by (simp add: installInterrupt_def Let_def)
  have m': "m' = (let m = store16 m (e v) (ucast (h AND 0xFFFF)); m = store16 m (e v + 6) (ucast (drop_bit 16 h AND 0xFFFF));
      m = store16 m (e v + 2) CODE32_KSEGMENT in
      m(e v + 5 := set_gate_zero (set_gate_type (set_gate_present (set_gate_dpl (m (e v + 5)) dpl) 1) 0xe) 0))"
    using assms(2) by (simp add: installInterrupt_def Let_def e_def)
  have low: "load16 m' (e v) = ucast (h AND 0xFFFF)" and high: "load16 m' (e v + 6) = ucast (drop_bit 16 h AND 0xFFFF)"
    and sel: "load16 m' (e v + 2) = CODE32_KSEGMENT"
    unfolding m' Let_def by (rule bit_word_eqI, auto simp: load16_def store16_def bit_simps add.assoc)+
  have fl: "gate_flags_of (m' (e v + 5)) = \<lparr>gate_type = 0xe, gate_zero = 0, gate_dpl = dpl AND 3, gate_present = 1\<rparr>"
    unfolding m' Let_def by (simp add: gate_flags_set)
  have "push_bit 16 (ucast (load16 m' (e v + 6))) OR ucast (load16 m' (e v)) = h"
    unfolding low high and_low16 by (rule bit_word_eqI) (auto simp: bit_simps)
  with sel fl show "interrupt_gate m' (e v) h (dpl AND 3)"
    by (simp add: interrupt_gate_def interruptDescriptor_at_def Let_def)
  show "m' (e v + 4) = m (e v + 4)" unfolding m' Let_def by (simp add: store16_def add.assoc)
  assume x: "\<not> x - e v < 8"
  have "x \<noteq> e v + k" if "k < 8" for k using x that by auto
  from this [of 0] this [of 1] this [of 2] this [of 3] this [of 5] this [of 6] this [of 7] show "m' x = m x"
    unfolding m' Let_def by (simp add: store16_def add.assoc)
qed

text \<open>A gate is eight bytes.\<close>

lemma interrupt_gate_cong:
  assumes "\<And>k. k < 8 \<Longrightarrow> m' (a + k) = m (a + k)"
  shows "interrupt_gate m' a h d = interrupt_gate m a h d"
  using assms [of 0] assms [of 1] assms [of 2] assms [of 3] assms [of 4] assms [of 5] assms [of 6] assms [of 7]
  by (simp add: interrupt_gate_def interruptDescriptor_at_def load16_def add.assoc Let_def)

section \<open>The whole table\<close>

lemma slot_range:
  fixes y a i :: u32
  assumes "i < 256" "y - (a + 8 * i) < 8"
  shows "8 * i \<le> y - a" and "y - a < 8 * i + 8" and "y - a < 0x800"
proof -
  define z where "z = y - (a + 8 * i)"
  have z: "y - a = 8 * i + z" "unat z < 8" using assms(2) by (simp_all add: z_def word_less_nat_alt)
  have u: "unat (8 * i) = 8 * unat i" "unat i < 256" using assms(1) by (simp_all add: word_less_nat_alt unat_word_ariths)
  then have "unat (8 * i + z) = 8 * unat i + unat z" "unat (8 * i + 8) = 8 * unat i + 8"
    using z(2) by (simp_all add: unat_word_ariths)
  then show "8 * i \<le> y - a" "y - a < 8 * i + 8" "y - a < 0x800"
    using z u by (simp_all add: word_le_nat_alt word_less_nat_alt)
qed

lemma slot_next: "i < 256 \<Longrightarrow> unat (8 * (i + 1)) = 8 * unat i + 8" for i :: u32
  by (simp add: word_less_nat_alt unat_word_ariths)

lemma installAll_loop_gates:
  assumes "i \<le> 256" "sep (IDT_ptr idt) 0x800 stubs 0x400"
  shows "(\<forall>v. i \<le> v \<and> v < 256 \<longrightarrow> interrupt_gate (installAll_loop m idt stubs i) (IDT_ptr idt + 8 * v) (load32 m (stubs + 4 * v)) 0 \<and>
      installAll_loop m idt stubs i (IDT_ptr idt + 8 * v + 4) = m (IDT_ptr idt + 8 * v + 4)) \<and>
    (\<forall>x. \<not> (8 * i \<le> x - IDT_ptr idt \<and> x - IDT_ptr idt < 0x800) \<longrightarrow> installAll_loop m idt stubs i x = m x)"
  using assms(1)
proof (induction arbitrary: m rule: word_upto_induct)
  case stop
  then show ?case by (subst (1 2 3) installAll_loop.simps) auto
next
  case (step i)
  let ?a = "IDT_ptr idt"
  obtain ok m1 where r: "installInterrupt m idt (ucast i) (load32 m (stubs + 4 * i)) 0 = (ok, m1)" by fastforce
  have ui: "unat i < 256" using step(1) by (simp add: word_less_nat_alt)
  have uc: "(ucast (ucast i :: u8) :: u32) = i"
    using ui by (simp add: word_unat_eq_iff unat_ucast_up unat_ucast_small)
  note g = installInterrupt_gate [OF r, unfolded uc]
  let ?m' = "installAll_loop m1 idt stubs (i + 1)"
  have eq: "installAll_loop m idt stubs i = ?m'"
    using step(1) r by (subst installAll_loop.simps) simp
  have far: "load32 m1 (stubs + 4 * v) = load32 m (stubs + 4 * v)" if "v < 256" for v
  proof (rule load32_cong)
    fix k :: u32 assume k: "k < 4"
    have "4 * v + k < 0x400" using that k by (simp add: word_less_nat_alt unat_word_ariths)
    then have "\<not> stubs + 4 * v + k - ?a < 0x800" using sep_shift [OF assms(2), of "4 * v + k"] by (simp add: add.assoc)
    then show "m1 (stubs + 4 * v + k) = m (stubs + 4 * v + k)" using slot_range(3) [OF step(1)] g(4) by blast
  qed
  note IH = step.IH [of m1]
  have below: "?m' x = m1 x" if "x - (?a + 8 * i) < 8" for x
  proof -
    have "x - ?a < 8 * i + 8" using slot_range(2) [OF step(1) that] .
    then have "\<not> 8 * (i + 1) \<le> x - ?a" by (simp add: not_le algebra_simps)
    then show ?thesis using IH by blast
  qed
  have here: "interrupt_gate ?m' (?a + 8 * i) (load32 m (stubs + 4 * i)) 0" "?m' (?a + 8 * i + 4) = m (?a + 8 * i + 4)"
    using interrupt_gate_cong [of ?m' "?a + 8 * i" m1] below g(2,3) by simp_all
  have later: "interrupt_gate ?m' (?a + 8 * v) (load32 m (stubs + 4 * v)) 0" "?m' (?a + 8 * v + 4) = m (?a + 8 * v + 4)" if "i < v" "v < 256" for v
  proof -
    have v: "i + 1 \<le> v" using that(1) by (rule inc_le)
    have "\<not> ?a + 8 * v + 4 - (?a + 8 * i) < 8"
    proof
      assume "?a + 8 * v + 4 - (?a + 8 * i) < 8"
      from slot_range(2) [OF step(1) this] have "8 * v + 4 < 8 * i + 8" by simp
      then show False using that by (simp add: word_less_nat_alt unat_word_ariths)
    qed
    then have "m1 (?a + 8 * v + 4) = m (?a + 8 * v + 4)" by (rule g(4))
    with IH [THEN conjunct1, rule_format, of v] v that(2) far [OF that(2)]
    show "interrupt_gate ?m' (?a + 8 * v) (load32 m (stubs + 4 * v)) 0" "?m' (?a + 8 * v + 4) = m (?a + 8 * v + 4)" by simp_all
  qed
  have "?m' x = m x" if "\<not> (8 * i \<le> x - ?a \<and> x - ?a < 0x800)" for x
  proof -
    have "m1 x = m x" using g(4) slot_range [OF step(1)] that by blast
    moreover have "\<not> (8 * (i + 1) \<le> x - ?a \<and> x - ?a < 0x800)"
      using that slot_next [OF step(1)] ui by (auto simp: word_le_nat_alt unat_word_ariths)
    ultimately show ?thesis using IH by simp
  qed
  with here later show ?case unfolding eq by (auto simp: order_le_less)
qed

section \<open>The interrupt controllers\<close>

text \<open>
  What the two 8259 controllers, on a command and a data port, make of the writes: a command with bit 4 set starts the
  initialisation (and clears the mask), which takes three more words on the data port, the vector base (of which the low three bits are
  ignored), the cascade word and the mode; afterwards a word on the data port is the interrupt mask.
\<close>

datatype pic_phase = Ready | Icw2 | Icw3 | Icw4

record pic =
  pic_state :: pic_phase
  pic_base :: u8
  pic_cascade :: u8
  pic_mask :: u8

fun pic_write :: "u16 \<Rightarrow> u16 \<Rightarrow> event \<Rightarrow> pic \<Rightarrow> pic" where
  "pic_write cmd data (Outb port b) p =
     (if port = cmd then (if b AND 0x10 \<noteq> 0 then p\<lparr>pic_state := Icw2, pic_mask := 0\<rparr> else p)
      else if port = data then
        (case pic_state p of
           Ready \<Rightarrow> p\<lparr>pic_mask := b\<rparr>
         | Icw2 \<Rightarrow> p\<lparr>pic_base := b AND 0xf8, pic_state := Icw3\<rparr>
         | Icw3 \<Rightarrow> p\<lparr>pic_cascade := b, pic_state := Icw4\<rparr>
         | Icw4 \<Rightarrow> p\<lparr>pic_state := Ready\<rparr>)
      else p)"
| "pic_write cmd data e p = p"

definition master :: "trace \<Rightarrow> pic \<Rightarrow> pic" where
  "master = fold (pic_write 0x20 0x21)"

definition slave :: "trace \<Rightarrow> pic \<Rightarrow> pic" where
  "slave = fold (pic_write 0xa0 0xa1)"

lemma disablePIC_trace:
  "disablePIC tr = tr @ disablePIC []"
  by (simp add: disablePIC_def iowait_def outb_def Let_def)

lemma disablePIC_masks:
  "master (disablePIC []) p = \<lparr>pic_state = Ready, pic_base = 0xf8, pic_cascade = 4, pic_mask = 0xff\<rparr>"
  "slave (disablePIC []) p = \<lparr>pic_state = Ready, pic_base = 0xf8, pic_cascade = 2, pic_mask = 0xff\<rparr>"
  by (simp_all add: master_def slave_def disablePIC_def iowait_def outb_def Let_def idt_constants)

lemma disablePIC_no_sti: "Sti \<notin> set (disablePIC [])"
  by (simp add: disablePIC_def iowait_def outb_def Let_def)

lemma take3_cases:
  obtains "xs = []" | x where "xs = [x]" | x y where "xs = [x, y]" | x y z zs where "xs = x # y # z # zs"
  by (metis neq_Nil_conv)

lemma interruptHandler_result:
  "interruptHandler os m t tempNum frame =
     (if intNumber frame = 0xff then Some (Inr (out_str m t (''Warning: Spurious interrupt caught'' @ [CHR 10])))
      else Some (Inl (handler_prefix @ chars_of (take 3 (xtoa_text (uint (intNumber frame)) 16)))))"
proof (cases "intNumber frame = 0xff")
  case False
  let ?v = "uint (intNumber frame)"
  let ?cs = "xtoa_text ?v 16"
  obtain t1 m1 where o: "out_chain os m t [Str '' INFO: Interrupt called with vector 0x'', Num ?v, Str [CHR 10]] = (t1, m1)" by fastforce
  have "?v < 2 ^ 32" using unsigned_less [of "intNumber frame"] by simp
  then have x: "xtoa m1 ?v tempNum 16 = Some (tempNum, write_bytes m1 tempNum (?cs @ [0]))"
    by (intro xtoa_writes_text) auto
  let ?m2 = "write_bytes m1 tempNum (?cs @ [0])"
  have nz: "0 \<notin> set ?cs" by (rule xtoa_text_no_nul) simp_all
  have len: "length ?cs < 2 ^ 32 - 1" using xtoa_text_length [of 16 ?v] \<open>?v < 2 ^ 32\<close> by simp
  have at: "?m2 (tempNum + of_nat k) = (?cs @ [0]) ! k" if "k \<le> length ?cs" for k
    using that len by (intro write_bytes_inside) auto
  have "takeWhile (\<lambda>c. c \<noteq> 0) [?m2 tempNum, ?m2 (tempNum + 1), ?m2 (tempNum + 2)] = takeWhile (\<lambda>c. c \<noteq> 0) (take 3 ?cs)"
    using at [of 0] at [of 1] at [of 2] nz
    by (cases ?cs rule: take3_cases) (auto simp: nth_append numeral_eq_Suc)
  then have "chars_of [?m2 tempNum, ?m2 (tempNum + 1), ?m2 (tempNum + 2)] = chars_of (take 3 ?cs)" by (simp only: chars_of_def)
  with False o x show ?thesis by (simp add: interruptHandler_def Let_def)
qed (simp add: interruptHandler_def)

lemma interruptHandler_message:
  "intNumber frame \<noteq> 0xff \<Longrightarrow> interruptHandler os m t tempNum frame =
     Some (Inl (handler_prefix @ chars_of (take 3 (xtoa_text (uint (intNumber frame)) 16))))"
  by (simp add: interruptHandler_result)

section \<open>What the interrupt code guarantees\<close>

text \<open>
  C34. Reading back the descriptor that \<open>installInterrupt\<close> wrote gives the handler's address, the code segment and a present 32-bit
  interrupt gate with the low two bits of the requested privilege level, whatever the table held before; the reserved byte and everything
  outside the eight bytes of the entry are unchanged.
\<close>

theorem installInterrupt_roundtrip:
  "\<exists>m'. installInterrupt m idt vector handler dpl = (True, m') \<and>
     interrupt_gate m' (IDT_ptr idt + 8 * ucast vector) handler (dpl AND 3) \<and>
     m' (IDT_ptr idt + 8 * ucast vector + 4) = m (IDT_ptr idt + 8 * ucast vector + 4) \<and>
     (\<forall>x. x - (IDT_ptr idt + 8 * ucast vector) < 8 \<or> m' x = m x)"
proof -
  obtain ok m' where r: "installInterrupt m idt vector handler dpl = (ok, m')" by fastforce
  from installInterrupt_gate [OF r] r show ?thesis by auto
qed

text \<open>
  C9. On a table that is not marked initialised, \<open>init\<close> writes only the table, makes each of its 256 entries a
  present ring-0 interrupt gate for the handler of the same index, and only then enables interrupts: the interrupt flag is set by the last
  instruction, after both interrupt controllers have been initialised and completely masked and the table register has been loaded.
  The limit loaded is \<open>0xFFF\<close>, twice the size of the table.
\<close>

theorem idt_init_installs:
  assumes "\<not> idt_initialized idt" "sep (IDT_ptr idt) (8 * 256) stubs (4 * 256)"
  shows "\<exists>m' pre. idt_init m tr idt stubs = (None, idt, m', tr @ pre @ [Cli, Lidt 0xFFF (IDT_ptr idt), Sti]) \<and>
    (\<forall>v < 256. interrupt_gate m' (IDT_ptr idt + 8 * v) (load32 m (stubs + 4 * v)) 0) \<and>
    (\<forall>x. \<not> x - IDT_ptr idt < 8 * 256 \<longrightarrow> m' x = m x) \<and> Sti \<notin> set pre \<and>
    (\<forall>p. pic_state (master pre p) = Ready \<and> pic_mask (master pre p) = 0xff \<and> pic_state (slave pre p) = Ready \<and> pic_mask (slave pre p) = 0xff)"
proof -
  let ?m' = "installAll m idt stubs"
  have "idt_init m tr idt stubs = (None, idt, ?m', tr @ disablePIC [] @ [Cli, Lidt 0xFFF (IDT_ptr idt), Sti])"
    using assms(1) disablePIC_trace [of tr]
    by (simp add: idt_init_def loadIDT_def disableInterrupts_def enableInterrupts_def Let_def)
  moreover have "(0 :: u32) \<le> 256" by simp
  note installAll_loop_gates [OF this, of idt stubs m]
  ultimately show ?thesis
    using assms(2) disablePIC_masks disablePIC_no_sti
    by (intro exI [of _ ?m'] exI [of _ "disablePIC []"]) (simp add: installAll_def)
qed

theorem idt_init_installs_witness:
  "\<exists>m' tr'. idt_init ((\<lambda>_. 0)(0x20d0 := 0x78, 0x20d1 := 0x56)) [] (new_interruptDescriptorTable 0x1000) 0x2000
       = (None, new_interruptDescriptorTable 0x1000, m', tr') \<and> interrupt_gate m' 0x11a0 0x5678 0"
proof -
  let ?m = "(\<lambda>_. 0)(0x20d0 := 0x78, 0x20d1 := 0x56) :: memory"
  have "sep 0x1000 0x800 0x2000 0x400" by (simp add: sep_def word_le_nat_alt)
  then obtain m' pre where r: "idt_init ?m [] (new_interruptDescriptorTable 0x1000) 0x2000 =
      (None, new_interruptDescriptorTable 0x1000, m', [] @ pre @ [Cli, Lidt 0xFFF 0x1000, Sti])"
    "\<forall>v < 256. interrupt_gate m' (0x1000 + 8 * v) (load32 ?m (0x2000 + 4 * v)) 0"
    using idt_init_installs [of "new_interruptDescriptorTable 0x1000" "0x2000" ?m "[]"]
    by (auto simp: new_interruptDescriptorTable_def)
  from r(2) [rule_format, of "0x34"] have "interrupt_gate m' 0x11a0 0x5678 0" by (simp add: load_defs)
  with r(1) show ?thesis by blast
qed

text \<open>
  The guard of \<open>init\<close> against a second call has no effect on an object built by the constructor: after any
  number of calls \<open>init\<close> still does all of its work again, because nothing sets \<open>initialized\<close>, and it never yields a value.
\<close>

primrec idt_inits :: "nat \<Rightarrow> u32 \<Rightarrow> memory \<times> trace \<times> interruptDescriptorTable \<Rightarrow> memory \<times> trace \<times> interruptDescriptorTable" where
  "idt_inits 0 stubs s = s"
| "idt_inits (Suc n) stubs s = (case idt_inits n stubs s of (m, tr, idt) \<Rightarrow>
     (case idt_init m tr idt stubs of (r, idt', m', tr') \<Rightarrow> (m', tr', idt')))"

theorem idt_init_never_refuses:
  "case idt_inits n stubs (m, tr, new_interruptDescriptorTable table) of (m', tr', idt') \<Rightarrow>
     idt' = new_interruptDescriptorTable table \<and> length tr' = length tr + 21 * n \<and> fst (idt_init m' tr' idt' stubs) = None"
proof (induction n)
  case (Suc n)
  obtain m1 tr1 idt1 where s: "idt_inits n stubs (m, tr, new_interruptDescriptorTable table) = (m1, tr1, idt1)" by (metis prod_cases3)
  moreover have "length (disablePIC []) = 18" by (simp add: disablePIC_def iowait_def outb_def Let_def)
  ultimately show ?case using Suc disablePIC_trace [of tr1]
    by (auto simp: idt_init_def loadIDT_def disableInterrupts_def enableInterrupts_def Let_def new_interruptDescriptorTable_def)
qed (simp add: idt_init_def new_interruptDescriptorTable_def Let_def)

text \<open>
  C35. The handler returns only for vector \<open>0xff\<close>, after the warning; for every other vector it ends in
  \<open>earlyPanic\<close> with a message that shows the first three hexadecimal digits of the vector and nothing of the uninitialised rest of the buffer.
\<close>

theorem interruptHandler_panics:
  "interruptHandler os m t tempNum frame =
     (if intNumber frame = 0xff then Some (Inr (out_str m t (''Warning: Spurious interrupt caught'' @ [CHR 10])))
      else Some (Inl (''Interrupt called with vector '' @ chars_of (take 3 (xtoa_text (uint (intNumber frame)) 16)))))"
  using interruptHandler_result [of os m t tempNum frame] by (simp add: handler_prefix_def)

end
