(* ===== verification/Apic.thy ===== *)
theory Apic
  imports Acpi Idt
begin

text \<open>
  The interrupt controllers of the processor: feature detection (\<open>cpuid.hpp\<close>, \<open>cpuid.cpp\<close>), model-specific registers
  (\<open>msr.hpp\<close>, \<open>msr.cpp\<close>), and the local and the I/O APIC (\<open>apic.hpp\<close>, \<open>apic.cpp\<close>). The instruction \<open>cpuid\<close> is a function from
  the leaf to the four registers, the model-specific registers are a map.
\<close>

section \<open>Processor features and model-specific registers\<close>

datatype cpuid_features = CPUID_FEAT_ECX_SSE3 | CPUID_FEAT_ECX_PCLMUL | CPUID_FEAT_ECX_DTES64 | CPUID_FEAT_ECX_MONITOR
  | CPUID_FEAT_ECX_DS_CPL | CPUID_FEAT_ECX_VMX | CPUID_FEAT_ECX_SMX | CPUID_FEAT_ECX_EST
  | CPUID_FEAT_ECX_TM2 | CPUID_FEAT_ECX_SSSE3 | CPUID_FEAT_ECX_CID | CPUID_FEAT_ECX_SDBG
  | CPUID_FEAT_ECX_FMA | CPUID_FEAT_ECX_CX16 | CPUID_FEAT_ECX_XTPR | CPUID_FEAT_ECX_PDCM
  | CPUID_FEAT_ECX_PCID | CPUID_FEAT_ECX_DCA | CPUID_FEAT_ECX_SSE4_1 | CPUID_FEAT_ECX_SSE4_2
  | CPUID_FEAT_ECX_X2APIC | CPUID_FEAT_ECX_MOVBE | CPUID_FEAT_ECX_POPCNT | CPUID_FEAT_ECX_TSC
  | CPUID_FEAT_ECX_AES | CPUID_FEAT_ECX_XSAVE | CPUID_FEAT_ECX_OSXSAVE | CPUID_FEAT_ECX_AVX
  | CPUID_FEAT_ECX_F16C | CPUID_FEAT_ECX_RDRAND | CPUID_FEAT_ECX_HYPERVISOR | CPUID_FEAT_EDX_FPU
  | CPUID_FEAT_EDX_VME | CPUID_FEAT_EDX_DE | CPUID_FEAT_EDX_PSE | CPUID_FEAT_EDX_TSC
  | CPUID_FEAT_EDX_MSR | CPUID_FEAT_EDX_PAE | CPUID_FEAT_EDX_MCE | CPUID_FEAT_EDX_CX8
  | CPUID_FEAT_EDX_APIC | CPUID_FEAT_EDX_SEP | CPUID_FEAT_EDX_MTRR | CPUID_FEAT_EDX_PGE
  | CPUID_FEAT_EDX_MCA | CPUID_FEAT_EDX_CMOV | CPUID_FEAT_EDX_PAT | CPUID_FEAT_EDX_PSE36
  | CPUID_FEAT_EDX_PSN | CPUID_FEAT_EDX_CLFLUSH | CPUID_FEAT_EDX_DS | CPUID_FEAT_EDX_ACPI
  | CPUID_FEAT_EDX_MMX | CPUID_FEAT_EDX_FXSR | CPUID_FEAT_EDX_SSE | CPUID_FEAT_EDX_SSE2
  | CPUID_FEAT_EDX_SS | CPUID_FEAT_EDX_HTT | CPUID_FEAT_EDX_TM | CPUID_FEAT_EDX_IA64
  | CPUID_FEAT_EDX_PBE

primrec cpuid_feature_shift :: "cpuid_features \<Rightarrow> nat" where
  "cpuid_feature_shift CPUID_FEAT_ECX_SSE3 = 0"
| "cpuid_feature_shift CPUID_FEAT_ECX_PCLMUL = 1"
| "cpuid_feature_shift CPUID_FEAT_ECX_DTES64 = 2"
| "cpuid_feature_shift CPUID_FEAT_ECX_MONITOR = 3"
| "cpuid_feature_shift CPUID_FEAT_ECX_DS_CPL = 4"
| "cpuid_feature_shift CPUID_FEAT_ECX_VMX = 5"
| "cpuid_feature_shift CPUID_FEAT_ECX_SMX = 6"
| "cpuid_feature_shift CPUID_FEAT_ECX_EST = 7"
| "cpuid_feature_shift CPUID_FEAT_ECX_TM2 = 8"
| "cpuid_feature_shift CPUID_FEAT_ECX_SSSE3 = 9"
| "cpuid_feature_shift CPUID_FEAT_ECX_CID = 10"
| "cpuid_feature_shift CPUID_FEAT_ECX_SDBG = 11"
| "cpuid_feature_shift CPUID_FEAT_ECX_FMA = 12"
| "cpuid_feature_shift CPUID_FEAT_ECX_CX16 = 13"
| "cpuid_feature_shift CPUID_FEAT_ECX_XTPR = 14"
| "cpuid_feature_shift CPUID_FEAT_ECX_PDCM = 15"
| "cpuid_feature_shift CPUID_FEAT_ECX_PCID = 17"
| "cpuid_feature_shift CPUID_FEAT_ECX_DCA = 18"
| "cpuid_feature_shift CPUID_FEAT_ECX_SSE4_1 = 19"
| "cpuid_feature_shift CPUID_FEAT_ECX_SSE4_2 = 20"
| "cpuid_feature_shift CPUID_FEAT_ECX_X2APIC = 21"
| "cpuid_feature_shift CPUID_FEAT_ECX_MOVBE = 22"
| "cpuid_feature_shift CPUID_FEAT_ECX_POPCNT = 23"
| "cpuid_feature_shift CPUID_FEAT_ECX_TSC = 24"
| "cpuid_feature_shift CPUID_FEAT_ECX_AES = 25"
| "cpuid_feature_shift CPUID_FEAT_ECX_XSAVE = 26"
| "cpuid_feature_shift CPUID_FEAT_ECX_OSXSAVE = 27"
| "cpuid_feature_shift CPUID_FEAT_ECX_AVX = 28"
| "cpuid_feature_shift CPUID_FEAT_ECX_F16C = 29"
| "cpuid_feature_shift CPUID_FEAT_ECX_RDRAND = 30"
| "cpuid_feature_shift CPUID_FEAT_ECX_HYPERVISOR = 31"
| "cpuid_feature_shift CPUID_FEAT_EDX_FPU = 0"
| "cpuid_feature_shift CPUID_FEAT_EDX_VME = 1"
| "cpuid_feature_shift CPUID_FEAT_EDX_DE = 2"
| "cpuid_feature_shift CPUID_FEAT_EDX_PSE = 3"
| "cpuid_feature_shift CPUID_FEAT_EDX_TSC = 4"
| "cpuid_feature_shift CPUID_FEAT_EDX_MSR = 5"
| "cpuid_feature_shift CPUID_FEAT_EDX_PAE = 6"
| "cpuid_feature_shift CPUID_FEAT_EDX_MCE = 7"
| "cpuid_feature_shift CPUID_FEAT_EDX_CX8 = 8"
| "cpuid_feature_shift CPUID_FEAT_EDX_APIC = 9"
| "cpuid_feature_shift CPUID_FEAT_EDX_SEP = 11"
| "cpuid_feature_shift CPUID_FEAT_EDX_MTRR = 12"
| "cpuid_feature_shift CPUID_FEAT_EDX_PGE = 13"
| "cpuid_feature_shift CPUID_FEAT_EDX_MCA = 14"
| "cpuid_feature_shift CPUID_FEAT_EDX_CMOV = 15"
| "cpuid_feature_shift CPUID_FEAT_EDX_PAT = 16"
| "cpuid_feature_shift CPUID_FEAT_EDX_PSE36 = 17"
| "cpuid_feature_shift CPUID_FEAT_EDX_PSN = 18"
| "cpuid_feature_shift CPUID_FEAT_EDX_CLFLUSH = 19"
| "cpuid_feature_shift CPUID_FEAT_EDX_DS = 21"
| "cpuid_feature_shift CPUID_FEAT_EDX_ACPI = 22"
| "cpuid_feature_shift CPUID_FEAT_EDX_MMX = 23"
| "cpuid_feature_shift CPUID_FEAT_EDX_FXSR = 24"
| "cpuid_feature_shift CPUID_FEAT_EDX_SSE = 25"
| "cpuid_feature_shift CPUID_FEAT_EDX_SSE2 = 26"
| "cpuid_feature_shift CPUID_FEAT_EDX_SS = 27"
| "cpuid_feature_shift CPUID_FEAT_EDX_HTT = 28"
| "cpuid_feature_shift CPUID_FEAT_EDX_TM = 29"
| "cpuid_feature_shift CPUID_FEAT_EDX_IA64 = 30"
| "cpuid_feature_shift CPUID_FEAT_EDX_PBE = 31"

definition cpuid_feature_mask :: "cpuid_features \<Rightarrow> u32" where
  "cpuid_feature_mask f = push_bit (cpuid_feature_shift f) 1"

type_synonym processor = "u32 \<Rightarrow> u32 \<times> u32 \<times> u32 \<times> u32"

definition cpuid :: "processor \<Rightarrow> u32 \<Rightarrow> u32 \<times> u32 \<times> u32 \<times> u32" where
  "cpuid cpu leaf = cpu leaf"

type_synonym msrs = "u32 \<Rightarrow> u32 \<times> u32"

definition IA32_APIC_BASE_MSR :: u32 where "IA32_APIC_BASE_MSR = 0x1b"

definition IA32_APIC_BASE_MSR_BPS :: u32 where "IA32_APIC_BASE_MSR_BPS = 0x100"

definition IA32_APIC_BASE_MSR_ENABLE :: u32 where "IA32_APIC_BASE_MSR_ENABLE = 0x800"

definition checkMSR :: "processor \<Rightarrow> bool" where
  "checkMSR cpu = (case cpuid cpu 1 of (a, b, c, d) \<Rightarrow> d AND cpuid_feature_mask CPUID_FEAT_EDX_MSR \<noteq> 0)"

definition getMSR :: "msrs \<Rightarrow> u32 \<Rightarrow> u32 \<times> u32" where
  "getMSR s msr = s msr"

definition setMSR :: "msrs \<Rightarrow> u32 \<Rightarrow> u32 \<Rightarrow> u32 \<Rightarrow> msrs" where
  "setMSR s msr low high = s(msr := (low, high))"

definition checkApic :: "processor \<Rightarrow> bool" where
  "checkApic cpu = (case cpuid cpu 1 of (a, b, c, d) \<Rightarrow> d AND cpuid_feature_mask CPUID_FEAT_EDX_APIC \<noteq> 0)"

section \<open>The registers\<close>

datatype lapic_registers = LAPIC_ID | LAPIC_VERSION | TASK_PRIORITY | ARBITRATION_PRIORITY
  | PROCESSOR_PRIORITY | EOI | REMOTE_READ | LOGICAL_DESTINATION
  | DESTINATION_FORMAT | SPURIOUS_INTERRUPT_VECTOR | IN_SERVICE | TRIGGER_MODE
  | INTERRUPT_REQUEST | ERROR_STATUS | LVT_CMCI | INTERRUPT_COMMAND
  | LVT_TIMER | LVT_THERMAL_SENSOR | LVT_PERF_MONITORING | LVT_LINT0
  | LVT_LINT1 | LVT_ERROR | INITIAL_COUNT | CURRENT_COUNT
  | DIVIDE_CONFIGURATION

primrec lapic_register_offset :: "lapic_registers \<Rightarrow> u32" where
  "lapic_register_offset LAPIC_ID = 0x020"
| "lapic_register_offset LAPIC_VERSION = 0x030"
| "lapic_register_offset TASK_PRIORITY = 0x080"
| "lapic_register_offset ARBITRATION_PRIORITY = 0x090"
| "lapic_register_offset PROCESSOR_PRIORITY = 0x0A0"
| "lapic_register_offset EOI = 0x0B0"
| "lapic_register_offset REMOTE_READ = 0x0C0"
| "lapic_register_offset LOGICAL_DESTINATION = 0x0D0"
| "lapic_register_offset DESTINATION_FORMAT = 0x0E0"
| "lapic_register_offset SPURIOUS_INTERRUPT_VECTOR = 0x0F0"
| "lapic_register_offset IN_SERVICE = 0x100"
| "lapic_register_offset TRIGGER_MODE = 0x180"
| "lapic_register_offset INTERRUPT_REQUEST = 0x200"
| "lapic_register_offset ERROR_STATUS = 0x280"
| "lapic_register_offset LVT_CMCI = 0x2F0"
| "lapic_register_offset INTERRUPT_COMMAND = 0x300"
| "lapic_register_offset LVT_TIMER = 0x320"
| "lapic_register_offset LVT_THERMAL_SENSOR = 0x330"
| "lapic_register_offset LVT_PERF_MONITORING = 0x340"
| "lapic_register_offset LVT_LINT0 = 0x350"
| "lapic_register_offset LVT_LINT1 = 0x360"
| "lapic_register_offset LVT_ERROR = 0x370"
| "lapic_register_offset INITIAL_COUNT = 0x380"
| "lapic_register_offset CURRENT_COUNT = 0x390"
| "lapic_register_offset DIVIDE_CONFIGURATION = 0x3E0"

datatype ioapic_register_offset = IOREGSEL | IOWIN

primrec ioapic_offset :: "ioapic_register_offset \<Rightarrow> u32" where
  "ioapic_offset IOREGSEL = 0x00"
| "ioapic_offset IOWIN = 0x10"

datatype ioapic_mm_register = IOAPICID | IOAPICVER | IOAPICARB | IOREDTBL

primrec ioapic_register_index :: "ioapic_mm_register \<Rightarrow> u32" where
  "ioapic_register_index IOAPICID = 0x00"
| "ioapic_register_index IOAPICVER = 0x01"
| "ioapic_register_index IOAPICARB = 0x02"
| "ioapic_register_index IOREDTBL = 0x03"

text \<open>Bit-fields of packed structures, from the least significant bit.\<close>

record lapic_base_register =
  base_reserved :: u8
  base_bsp :: u8
  base_reserved2 :: u8
  apic_global_enable :: u8
  base_address :: u32
  base_reserved3 :: u32

definition lapic_base_register_at :: "memory \<Rightarrow> u32 \<Rightarrow> lapic_base_register" where
  "lapic_base_register_at m a =
     (let w = load32 m a in
      \<lparr>base_reserved = ucast w, base_bsp = ucast (drop_bit 8 w AND 1), base_reserved2 = ucast (drop_bit 9 w AND 3),
       apic_global_enable = ucast (drop_bit 11 w AND 1), base_address = drop_bit 12 w, base_reserved3 = load32 m (a + 4)\<rparr>)"

record spurious_interrupt_vector_register =
  sp_vector :: u8
  enable_flag :: u8
  focus_checking :: u8
  sp_reserved :: u32

definition spurious_register_at :: "memory \<Rightarrow> u32 \<Rightarrow> spurious_interrupt_vector_register" where
  "spurious_register_at m a =
     (let w = load32 m a in
      \<lparr>sp_vector = ucast w, enable_flag = ucast (drop_bit 8 w AND 1), focus_checking = ucast (drop_bit 9 w AND 1),
       sp_reserved = drop_bit 10 w\<rparr>)"

text \<open>The assignments to two of the bit-fields, which are in the first two bytes.\<close>

definition set_sp_vector :: "memory \<Rightarrow> u32 \<Rightarrow> u8 \<Rightarrow> memory" where
  "set_sp_vector m a v = m(a := v)"

definition set_enable_flag :: "memory \<Rightarrow> u32 \<Rightarrow> u8 \<Rightarrow> memory" where
  "set_enable_flag m a v = m(a + 1 := (m (a + 1) AND 0xfe) OR (v AND 1))"

section \<open>The local APIC\<close>

record l_apic =
  lapic_reg :: u32

definition no_apic_msg :: panic where
  "no_apic_msg = ''In kernel::cpu::l_apic constructor: Error: No APIC present!''"

definition new_l_apic :: "processor \<Rightarrow> l_apic outcome" where
  "new_l_apic cpu =
     (if \<not> checkApic cpu then Inl no_apic_msg
      else case cpuid cpu 1 of (a, b, c, d) \<Rightarrow> Inr \<lparr>lapic_reg = a\<rparr>)"

text \<open>\<open>lapicReg\<close> is a pointer to 32-bit words, so the offset that is added to it counts words.\<close>

definition l_apic_enable :: "msrs \<Rightarrow> memory \<Rightarrow> l_apic \<Rightarrow> msrs \<times> memory" where
  "l_apic_enable s m l =
     (let s = setMSR s IA32_APIC_BASE_MSR (lapic_reg l AND 0xfffff000) 0;
          lapicReg = push_bit 12 (base_address (lapic_base_register_at m (lapic_reg l)));
          regPtr = lapicReg + 4 * lapic_register_offset SPURIOUS_INTERRUPT_VECTOR;
          m = set_enable_flag m regPtr 1;
          m = set_sp_vector m regPtr 0xff
      in (s, m))"

section \<open>The I/O APIC\<close>

record io_apic =
  ioapic_entry :: u32

definition no_type1_msg :: panic where
  "no_type1_msg = ''In kernel::cpu::io_apic constructor: Error: Couldn't find a MADT type 1 entry!''"

definition new_io_apic :: "memory \<Rightarrow> acpi_madt \<Rightarrow> io_apic run" where
  "new_io_apic m ptr =
     (case getEntry m ptr 1 of None \<Rightarrow> None
      | Some e \<Rightarrow> Some (if e = 0 then Inl no_type1_msg else Inr \<lparr>ioapic_entry = e\<rparr>))"

text \<open>The controller answers at a memory-mapped address: \<open>st\<close> and \<open>ld\<close> are a store to and a load from a device register, with the
  state \<open>'d\<close> of the device.\<close>

type_synonym 'd mmio_store = "'d \<Rightarrow> u32 \<Rightarrow> u32 \<Rightarrow> 'd"
type_synonym 'd mmio_load = "'d \<Rightarrow> u32 \<Rightarrow> u32 \<times> 'd"

definition io_apic_read :: "'d mmio_store \<Rightarrow> 'd mmio_load \<Rightarrow> memory \<Rightarrow> io_apic \<Rightarrow> ioapic_mm_register \<Rightarrow> 'd \<Rightarrow> u32 \<times> 'd" where
  "io_apic_read st ld m a reg d =
     (let ioapicPtr = io_apic_address (madt_entry_type1_at m (ioapic_entry a));
          d = st d (ioapicPtr + 4 * 0) (ioapic_register_index reg AND 0xff)
      in ld d (ioapicPtr + 4 * 4))"

definition io_apic_write :: "'d mmio_store \<Rightarrow> memory \<Rightarrow> io_apic \<Rightarrow> ioapic_mm_register \<Rightarrow> u32 \<Rightarrow> 'd \<Rightarrow> 'd" where
  "io_apic_write st m a reg value d =
     (let ioapicPtr = io_apic_address (madt_entry_type1_at m (ioapic_entry a));
          d = st d (ioapicPtr + 4 * 0) (ioapic_register_index reg AND 0xff)
      in st d (ioapicPtr + 4 * 4) value)"

section \<open>What the APIC code does\<close>

lemma page_address: "push_bit 12 (drop_bit 12 w) = w AND 0xfffff000" for w :: u32
proof -
  have "NOT (mask 12) = (0xfffff000 :: u32)" by (simp add: mask_eq_exp_minus_1 not_eq_complement)
  then show ?thesis by (simp add: bits_ident bit_eq_iff [of "push_bit 12 (drop_bit 12 w)"] bit_simps flip: \<open>NOT (mask 12) = 0xfffff000\<close>) auto
qed

lemma and_one_8: "(w AND 0xfe OR 1) AND 1 = 1" for w :: u8
  by (simp add: bit.conj_disj_distrib2 and.assoc)

text \<open>Whatever the base is, \<open>enable\<close> writes two bytes at fixed offsets of some page.\<close>

lemma page_offset: "(push_bit 12 w + c) AND 0xfff = c" if "c < 0x1000" for w c :: u32
proof -
  have c: "unat c < 4096" using that by (simp add: word_less_nat_alt)
  have m: "unat (x AND 0xfff) = unat x mod 4096" for x :: u32
  proof -
    have "x AND 0xfff = x mod 4096" using take_bit_eq_mask [of 12 x] by (simp add: mask_eq_exp_minus_1 take_bit_eq_mod)
    then show ?thesis by (simp add: unat_mod)
  qed
  have "unat (push_bit 12 w + c) = (4096 * unat w + unat c) mod 2 ^ 32"
    by (simp add: push_bit_eq_mult unat_word_ariths mod_simps mult.commute)
  then have "unat (push_bit 12 w + c) mod 4096 = (4096 * unat w + unat c) mod 4096" by (simp only:) (simp add: mod_mod_cancel)
  also have "\<dots> = unat c" using c by simp
  finally show ?thesis by (simp add: word_unat_eq_iff m)
qed

lemma l_apic_enable_only:
  assumes "l_apic_enable s m l = (s', m')"
  shows "s' = s(IA32_APIC_BASE_MSR := (lapic_reg l AND 0xfffff000, 0))"
    and "x AND 0xfff \<noteq> 0x3c0 \<Longrightarrow> x AND 0xfff \<noteq> 0x3c1 \<Longrightarrow> m' x = m x"
proof -
  show "s' = s(IA32_APIC_BASE_MSR := (lapic_reg l AND 0xfffff000, 0))"
    using assms by (simp add: l_apic_enable_def Let_def setMSR_def)
  assume x: "x AND 0xfff \<noteq> 0x3c0" "x AND 0xfff \<noteq> 0x3c1"
  let ?w = "base_address (lapic_base_register_at m (lapic_reg l))"
  have "x \<noteq> push_bit 12 ?w + 0x3c0" "x \<noteq> push_bit 12 ?w + 0x3c1"
    using x page_offset [of "0x3c0" ?w] page_offset [of "0x3c1" ?w] by auto
  then show "m' x = m x"
    using assms by (auto simp: l_apic_enable_def Let_def set_enable_flag_def set_sp_vector_def add.assoc)
qed

text \<open>
  C38. On a processor with an APIC the object is built, but its \<open>_reg\<close> is the value that \<open>cpuid\<close> returns in \<open>eax\<close>, which is a version number; \<open>enable\<close> then
  writes the base register with its enable bit cleared, takes the address of the controller from memory at that version number, and sets the vector and
  the enable flag at offset \<open>0x3C0\<close> from there, not at the offset \<open>0xF0\<close> of the spurious-vector register: no other byte of memory changes.
\<close>

theorem l_apic_enable_effect:
  assumes "checkApic cpu" "base = load32 m (fst (cpu 1)) AND 0xfffff000"
  shows "\<exists>l s' m'. new_l_apic cpu = Inr l \<and> lapic_reg l = fst (cpu 1) \<and> l_apic_enable s m l = (s', m') \<and>
    fst (getMSR s' IA32_APIC_BASE_MSR) AND IA32_APIC_BASE_MSR_ENABLE = 0 \<and>
    sp_vector (spurious_register_at m' (base + 0x3c0)) = 0xff \<and> m' (base + 0x3c1) AND 1 = 1 \<and>
    (\<forall>x. x \<noteq> base + 0x3c0 \<and> x \<noteq> base + 0x3c1 \<longrightarrow> m' x = m x)"
proof -
  obtain a b c d where cpu: "cpu 1 = (a, b, c, d)" by (cases "cpu 1")
  let ?l = "\<lparr>lapic_reg = a\<rparr>"
  let ?p = "base + 0x3c0"
  let ?m1 = "m(?p + 1 := (m (?p + 1) AND 0xfe) OR 1)"
  have l: "new_l_apic cpu = Inr ?l" using assms(1) cpu by (simp add: new_l_apic_def cpuid_def)
  have "push_bit 12 (base_address (lapic_base_register_at m a)) = base"
    using assms(2) cpu by (simp add: lapic_base_register_at_def Let_def page_address)
  then have e: "l_apic_enable s m ?l = (setMSR s IA32_APIC_BASE_MSR (a AND 0xfffff000) 0, ?m1(?p := 0xff))"
    by (simp add: l_apic_enable_def Let_def set_enable_flag_def set_sp_vector_def)
  have "(a AND 0xfffff000) AND 0x800 = 0" by (simp add: and.assoc)
  then have "fst (getMSR (setMSR s IA32_APIC_BASE_MSR (a AND 0xfffff000) 0) IA32_APIC_BASE_MSR) AND IA32_APIC_BASE_MSR_ENABLE = 0"
    by (simp add: getMSR_def setMSR_def IA32_APIC_BASE_MSR_ENABLE_def)
  moreover have "sp_vector (spurious_register_at (?m1(?p := 0xff)) ?p) = 0xff"
    by (auto simp: spurious_register_at_def Let_def load32_def load16_def bit_simps intro!: bit_word_eqI)
  moreover have "(?m1(?p := 0xff)) (base + 0x3c1) AND 1 = 1" by (simp add: and_one_8 add.assoc)
  ultimately show ?thesis using l e cpu by (intro exI [of _ ?l]) (auto simp: add.assoc)
qed

theorem l_apic_enable_effect_witness:
  "\<exists>l s' m'. new_l_apic (\<lambda>_. (0x6a0, 0, 0, 0x200)) = Inr l \<and> l_apic_enable (\<lambda>_. (0xfee00900, 0)) ((\<lambda>_. 0)(0x6a2 := 0xe0, 0x6a3 := 0xfe)) l = (s', m') \<and>
     fst (getMSR s' IA32_APIC_BASE_MSR) AND 0x800 = 0 \<and> m' 0xfee000f0 = 0 \<and> m' 0xfee003c1 AND 1 = 1"
proof -
  let ?m = "(\<lambda>_. 0)(0x6a2 := 0xe0, 0x6a3 := 0xfe) :: memory" and ?cpu = "\<lambda>_. (0x6a0, 0, 0, 0x200) :: u32 \<times> u32 \<times> u32 \<times> u32"
  have c: "checkApic ?cpu" by (simp add: checkApic_def cpuid_def cpuid_feature_mask_def)
  have b: "0xfee00000 = load32 ?m (fst (?cpu 1)) AND 0xfffff000" by (simp add: load_defs)
  obtain l s' m' where r: "new_l_apic ?cpu = Inr l" "l_apic_enable (\<lambda>_. (0xfee00900, 0)) ?m l = (s', m')"
    "fst (getMSR s' IA32_APIC_BASE_MSR) AND IA32_APIC_BASE_MSR_ENABLE = 0" "m' (0xfee00000 + 0x3c1) AND 1 = 1"
    "\<forall>x. x \<noteq> 0xfee00000 + 0x3c0 \<and> x \<noteq> 0xfee00000 + 0x3c1 \<longrightarrow> m' x = ?m x"
    using l_apic_enable_effect [OF c b, of "\<lambda>_. (0xfee00900, 0)"] by blast
  from r(5) [rule_format, of "0xfee000f0"] have "m' 0xfee000f0 = 0" by simp
  with r(1-4) show ?thesis by (auto simp: IA32_APIC_BASE_MSR_ENABLE_def)
qed

text \<open>What the I/O APIC does with accesses at its base: a store there selects a register, the word at offset 16 is the selected register.\<close>

record ioapic_device =
  regsel :: u32
  iregs :: "u32 \<Rightarrow> u32"

definition ioapic_store :: "u32 \<Rightarrow> ioapic_device mmio_store" where
  "ioapic_store base d a v =
     (if a = base then d\<lparr>regsel := v\<rparr> else if a = base + ioapic_offset IOWIN then d\<lparr>iregs := (iregs d)(regsel d := v)\<rparr> else d)"

definition ioapic_load :: "u32 \<Rightarrow> ioapic_device mmio_load" where
  "ioapic_load base d a = (if a = base then regsel d else if a = base + ioapic_offset IOWIN then iregs d (regsel d) else 0, d)"

text \<open>
  On the controller at the address of the MADT record, \<open>write\<close> changes exactly the register named, and a \<open>read\<close> of any register afterwards
  returns the value written if it is the same register and the old value otherwise; each access first selects its own register, so it does not depend on earlier selections.
\<close>

theorem io_apic_roundtrip:
  assumes "base = io_apic_address (madt_entry_type1_at m (ioapic_entry a))"
  shows "fst (io_apic_read (ioapic_store base) (ioapic_load base) m a reg' (io_apic_write (ioapic_store base) m a reg value d)) =
    (if reg' = reg then value else fst (io_apic_read (ioapic_store base) (ioapic_load base) m a reg' d))"
proof -
  have "ioapic_register_index r AND 0xff = ioapic_register_index r" for r by (cases r) simp_all
  moreover have "ioapic_register_index r = ioapic_register_index r' \<longleftrightarrow> r = r'" for r r' by (cases r; cases r') simp_all
  ultimately show ?thesis
    using assms by (auto simp: io_apic_read_def io_apic_write_def ioapic_store_def ioapic_load_def Let_def)
qed

theorem io_apic_roundtrip_witness:
  "fst (io_apic_read (ioapic_store 0xfec00000) (ioapic_load 0xfec00000) ((\<lambda>_. 0)(6 := 0xc0, 7 := 0xfe)) \<lparr>ioapic_entry = 0\<rparr> IOREDTBL
     (io_apic_write (ioapic_store 0xfec00000) ((\<lambda>_. 0)(6 := 0xc0, 7 := 0xfe)) \<lparr>ioapic_entry = 0\<rparr> IOREDTBL 0x31 \<lparr>regsel = 1, iregs = \<lambda>_. 0\<rparr>)) = 0x31"
proof -
  have "0xfec00000 = io_apic_address (madt_entry_type1_at ((\<lambda>_. 0)(6 := 0xc0, 7 := 0xfe)) (ioapic_entry \<lparr>ioapic_entry = 0\<rparr>))"
    by (simp add: madt_entry_type1_at_def load_defs)
  from io_apic_roundtrip [OF this, of IOREDTBL IOREDTBL] show ?thesis by simp
qed

end
