(* ===== verification/AcpiTables.thy ===== *)
theory AcpiTables
  imports Acpi
begin

text \<open>
  The ACPI code against a memory that holds a proper set of tables: the tables are described by their bytes, they survive changes elsewhere, and the
  classes of \<open>kernel/system/acpi.cpp\<close> find them.
\<close>

section \<open>ACPI tables in memory\<close>

text \<open>The tables that the ACPI code has to find, in terms of the bytes of the memory: \<open>h\<close> is the header object of the first root pointer, whose checksum is right,
  \<open>madt\<close> the first table called \<open>APIC\<close> in its root table, and \<open>es\<close> the types and lengths of the records of that table.\<close>

definition acpi_tables :: "memory \<Rightarrow> acpi_header \<Rightarrow> u32 \<Rightarrow> (u8 \<times> u8) list \<Rightarrow> bool" where
  "acpi_tables m h madt es \<longleftrightarrow>
     find (\<lambda>a. read_bytes m (of_nat a) 7 = RSDP_SEARCH_STR) rsdp_places = Some (unat (acpi_ptr h)) \<and> valid_rsdp m (acpi_ptr h) \<and>
     acpi_type2 h = (m (acpi_ptr h + 15) = 2) \<and> 36 \<le> root_length m h \<and>
     find (\<lambda>p. read_bytes m p 4 = [65, 80, 73, 67]) (root_tables m h) = Some madt \<and> madt \<noteq> 0 \<and>
     (let limit = madt + load32 m (madt + 4) in \<exists>b. records m limit (madt + 44) es b \<and> \<not> b < limit)"

text \<open>The bytes that they take.\<close>

definition area :: "u32 \<Rightarrow> nat \<Rightarrow> u32 set" where
  "area p n = {p + of_nat i |i. i < n}"

fun record_bytes :: "u32 \<Rightarrow> (u8 \<times> u8) list \<Rightarrow> u32 set" where
  "record_bytes a [] = {}"
| "record_bytes a ((t, l) # es) = {a, a + 1} \<union> record_bytes (a + ucast l) es"

definition root_address :: "memory \<Rightarrow> acpi_header \<Rightarrow> u32" where
  "root_address m h = (let d = xsdp_desc_at m (acpi_ptr h) in
     if acpi_type2 h \<and> xsdp_xsdt_address d \<noteq> 0 then ucast (xsdp_xsdt_address d) else xsdp_rsdt_address d)"

definition acpi_bytes :: "memory \<Rightarrow> acpi_header \<Rightarrow> u32 \<Rightarrow> (u8 \<times> u8) list \<Rightarrow> u32 set" where
  "acpi_bytes m h madt es = area (acpi_ptr h) 36 \<union> area (root_address m h) (unat (root_length m h)) \<union>
     (\<Union>p \<in> set (root_tables m h). area p 4) \<union> area madt 8 \<union> record_bytes (madt + 44) es"

lemma area_byte: "\<forall>x \<in> area p n. m' x = m x \<Longrightarrow> unat k < n \<Longrightarrow> m' (p + k) = m (p + k)"
proof -
  assume "\<forall>x \<in> area p n. m' x = m x" "unat k < n"
  moreover from this(2) have "p + of_nat (unat k) \<in> area p n" unfolding area_def by blast
  ultimately show ?thesis by simp
qed

lemma area_read: "\<forall>x \<in> area p n. m' x = m x \<Longrightarrow> k \<le> n \<Longrightarrow> read_bytes m' p k = read_bytes m p k"
proof (rule read_bytes_cong)
  fix i assume "\<forall>x \<in> area p n. m' x = m x" "k \<le> n" "i < k"
  moreover from this(2,3) have "p + of_nat i \<in> area p n" unfolding area_def by auto
  ultimately show "m' (p + of_nat i) = m (p + of_nat i)" by blast
qed

lemma area_load:
  assumes "\<forall>x \<in> area p n. m' x = m x" "n \<le> 2 ^ 32"
  shows "unat i + 4 \<le> n \<Longrightarrow> load32 m' (p + i) = load32 m (p + i)" and "unat i + 8 \<le> n \<Longrightarrow> load64 m' (p + i) = load64 m (p + i)"
proof -
  have "m' (p + i + k) = m (p + i + k)" if "k < j" "unat i + unat j \<le> n" for j k
  proof -
    have "unat k < unat j" using that(1) by (simp add: word_less_nat_alt)
    then have "unat (i + k) < n" using that(2) assms(2) by (simp add: unat_word_ariths)
    from area_byte [OF assms(1) this] show ?thesis by (simp add: add.assoc)
  qed
  note b = this [of _ 4] this [of _ 8]
  show "load32 m' (p + i) = load32 m (p + i)" if "unat i + 4 \<le> n" by (rule load32_cong, rule b) (use that in simp_all)
  show "load64 m' (p + i) = load64 m (p + i)" if "unat i + 8 \<le> n" by (rule load64_cong, rule b) (use that in simp_all)
qed

lemma records_same: "records m limit a es b \<Longrightarrow> \<forall>x \<in> record_bytes a es. m' x = m x \<Longrightarrow> records m' limit a es b"
  by (induction m limit a es b rule: records.induct) auto

lemma xsdp_desc_same:
  assumes "\<forall>x \<in> area p 36. m' x = m x"
  shows "xsdp_desc_at m' p = xsdp_desc_at m p" and "valid_rsdp m' p = valid_rsdp m p" and "m' (p + 15) = m (p + 15)"
proof -
  have b: "m' (p + k) = m (p + k)" if "k < 36" for k
    using area_byte [OF assms, of k] that by (simp add: word_less_nat_alt)
  then show "m' (p + 15) = m (p + 15)" by simp
  then show "valid_rsdp m' p = valid_rsdp m p"
    using area_read [OF assms, of 20] area_read [OF assms, of 36] by (auto simp: valid_rsdp_def)
  have "read_bytes m' (p + 9) 6 = read_bytes m (p + 9) 6" "read_bytes m' (p + 33) 3 = read_bytes m (p + 33) 3"
    using b by (simp_all add: read_bytes_def upt_rec add.assoc)
  then show "xsdp_desc_at m' p = xsdp_desc_at m p"
    using area_read [OF assms, of 8] b area_load [OF assms, of 16] area_load [OF assms, of 20] area_load [OF assms, of 24]
    by (simp add: xsdp_desc_at_def)
qed

lemma root_same:
  assumes "\<forall>x \<in> area (acpi_ptr h) 36. m' x = m x" "\<forall>x \<in> area (root_address m h) (unat (root_length m h)). m' x = m x" "36 \<le> root_length m h"
  shows "root_address m' h = root_address m h" and "root_length m' h = root_length m h" and "root_tables m' h = root_tables m h"
proof -
  note d = xsdp_desc_same(1) [OF assms(1)]
  show a: "root_address m' h = root_address m h" by (simp add: root_address_def d)
  have l: "root_length n h = load32 n (root_address n h + 4)" for n by (simp add: root_length_def root_address_def Let_def)
  have len: "36 \<le> unat (root_length m h)" "unat (root_length m h) \<le> 2 ^ 32"
    using assms(3) unat_less_2pow [of "root_length m h"] by (simp_all add: word_le_nat_alt)
  note ld = area_load [OF assms(2) len(2)]
  show rl: "root_length m' h = root_length m h" using ld(1) [of 4] len(1) by (simp add: l a)
  have k: "unat (36 + w * of_nat k :: u32) = 36 + unat w * k" "36 + unat w * k + unat w \<le> unat (root_length m h)"
    if "k < (unat (root_length m h) - 36) div unat w" "w \<in> {4, 8}" for w k
  proof -
    have "Suc k * unat w \<le> unat (root_length m h) - 36" using that by (metis Suc_leI div_times_less_eq_dividend mult_le_mono1 order_trans)
    then show le: "36 + unat w * k + unat w \<le> unat (root_length m h)" using len(1) by (simp add: mult.commute)
    then show "unat (36 + w * of_nat k :: u32) = 36 + unat w * k"
      using len(2) that(2) by (auto simp: unat_word_ariths unat_of_nat)
  qed
  show "root_tables m' h = root_tables m h"
  proof (cases "acpi_type2 h \<and> xsdp_xsdt_address (xsdp_desc_at m (acpi_ptr h)) \<noteq> 0")
    case True
    then have ra: "root_address m h = ucast (xsdp_xsdt_address (xsdp_desc_at m (acpi_ptr h)))" by (simp add: root_address_def)
    have rt: "root_tables n h = map (\<lambda>k. ucast (load64 n (root_address m h + (36 + 8 * of_nat k)))) [0..<(unat (root_length n h) - 36) div 8]"
      if "xsdp_desc_at n (acpi_ptr h) = xsdp_desc_at m (acpi_ptr h)" for n
      using True that by (simp add: root_tables_def root_length_def ra Let_def add.assoc)
    show ?thesis
      unfolding rt [OF d] rt [OF refl] rl by (rule map_cong [OF refl]) (use k [where w = 8] ld(2) in auto)
  next
    case False
    then have ra: "root_address m h = xsdp_rsdt_address (xsdp_desc_at m (acpi_ptr h))" by (auto simp: root_address_def Let_def)
    have rt: "root_tables n h = map (\<lambda>k. load32 n (root_address m h + (36 + 4 * of_nat k))) [0..<(unat (root_length n h) - 36) div 4]"
      if "xsdp_desc_at n (acpi_ptr h) = xsdp_desc_at m (acpi_ptr h)" for n
      using False that by (auto simp: root_tables_def root_length_def ra Let_def add.assoc)
    show ?thesis
      unfolding rt [OF d] rt [OF refl] rl by (rule map_cong [OF refl]) (use k [where w = 4] ld(1) in auto)
  qed
qed

text \<open>The two areas that are searched for the root pointer.\<close>

definition search_area :: "u32 \<Rightarrow> bool" where
  "search_area x \<longleftrightarrow> 0x80000 \<le> unat x \<and> unat x < 0xa0000 \<or> 0xe0000 \<le> unat x \<and> unat x < 0x100000"

lemma search_same:
  assumes "\<And>x. search_area x \<Longrightarrow> m' x = m x"
  shows "find (\<lambda>a. read_bytes m' (of_nat a) 7 = RSDP_SEARCH_STR) rsdp_places = find (\<lambda>a. read_bytes m (of_nat a) 7 = RSDP_SEARCH_STR) rsdp_places"
proof (rule find_cong [OF refl])
  fix a assume "a \<in> set rsdp_places"
  then have a: "0x80000 \<le> a \<and> a < 0x9fff8 \<or> 0xe0000 \<le> a \<and> a < 0xffff8" by (auto simp: rsdp_places_def simp del: upt_rec_numeral)
  have "read_bytes m' (of_nat a) 7 = read_bytes m (of_nat a) 7"
  proof (rule read_bytes_cong)
    fix i :: nat assume i: "i < 7"
    then have "unat (of_nat a + of_nat i :: u32) = a + i" using a by (auto simp: unat_word_ariths unat_of_nat)
    then show "m' (of_nat a + of_nat i) = m (of_nat a + of_nat i)" using a i by (intro assms) (auto simp: search_area_def)
  qed
  then show "read_bytes m' (of_nat a) 7 = RSDP_SEARCH_STR \<longleftrightarrow> read_bytes m (of_nat a) 7 = RSDP_SEARCH_STR" by simp
qed

lemma acpi_tables_same:
  assumes "acpi_tables m h madt es" "\<forall>x \<in> acpi_bytes m h madt es. m' x = m x" "\<And>x. search_area x \<Longrightarrow> m' x = m x"
  shows "acpi_tables m' h madt es" and "acpi_bytes m' h madt es = acpi_bytes m h madt es"
proof -
  have parts: "\<forall>x \<in> area (acpi_ptr h) 36. m' x = m x" "\<forall>x \<in> area (root_address m h) (unat (root_length m h)). m' x = m x"
    "\<And>p. p \<in> set (root_tables m h) \<Longrightarrow> \<forall>x \<in> area p 4. m' x = m x"
    "\<forall>x \<in> area madt 8. m' x = m x" "\<forall>x \<in> record_bytes (madt + 44) es. m' x = m x"
    using assms(2) by (auto simp: acpi_bytes_def)
  have l: "36 \<le> root_length m h" using assms(1) by (simp add: acpi_tables_def)
  note r = root_same [OF parts(1,2) l] and d = xsdp_desc_same [OF parts(1)]
  show "acpi_bytes m' h madt es = acpi_bytes m h madt es" by (simp add: acpi_bytes_def r)
  have "find (\<lambda>p. read_bytes m' p 4 = [65, 80, 73, 67]) (root_tables m h) = find (\<lambda>p. read_bytes m p 4 = [65, 80, 73, 67]) (root_tables m h)"
    by (rule find_cong [OF refl]) (simp add: area_read [OF parts(3)])
  moreover have "load32 m' (madt + 4) = load32 m (madt + 4)" by (rule area_load [OF parts(4)]) simp_all
  ultimately show "acpi_tables m' h madt es"
    using assms(1) search_same [OF assms(3)] r d records_same [OF _ parts(5)] unfolding acpi_tables_def Let_def by fastforce
qed

lemma cstr_area:
  assumes "cstr m p xs" "\<forall>x \<in> area p (Suc (length xs)). m' x = m x"
  shows "cstr m' p xs"
proof -
  have "m' (p + of_nat i) = m (p + of_nat i)" if "i \<le> length xs" for i
  proof -
    have "p + of_nat i \<in> area p (Suc (length xs))" unfolding area_def using that by auto
    then show ?thesis using assms(2) by blast
  qed
  with assms(1) show ?thesis unfolding cstr_nth by simp
qed

text \<open>The code finds them.\<close>

lemma acpi_tables_found:
  assumes "acpi_tables m h madt es" "cstr m apic [65, 80, 73, 67]"
  shows "new_acpi_header m = Inr h" and "new_acpi_madt m apic h = Some (Inr \<lparr>madt_ptr = madt\<rparr>)"
    and "getEntry m \<lparr>madt_ptr = madt\<rparr> 1 = Some (first_type1 (madt + 44) es)"
proof -
  let ?limit = "madt + load32 m (madt + 4)"
  have f: "find (\<lambda>a. read_bytes m (of_nat a) 7 = RSDP_SEARCH_STR) rsdp_places = Some (unat (acpi_ptr h))" "valid_rsdp m (acpi_ptr h)"
    "acpi_type2 h = (m (acpi_ptr h + 15) = 2)" "36 \<le> root_length m h" "madt \<noteq> 0"
    "find (\<lambda>p. read_bytes m p 4 = [65, 80, 73, 67]) (root_tables m h) = Some madt"
    using assms(1) by (simp_all add: acpi_tables_def)
  have "unat (acpi_ptr h) \<in> set rsdp_places" using f(1) by (auto simp: find_Some_iff)
  then have "acpi_ptr h \<noteq> 0" by (auto simp: rsdp_places_def simp del: upt_rec_numeral)
  moreover have "findRSDPDesc m = acpi_ptr h" using f(1,2) by (simp add: findRSDPDesc_spec rsdp_spec_def)
  ultimately show "new_acpi_header m = Inr h" using f(3) by (cases h) (simp add: new_acpi_header_def Let_def xsdp_desc_at_def)
  show "new_acpi_madt m apic h = Some (Inr \<lparr>madt_ptr = madt\<rparr>)"
    using findEntry_find [OF assms(2) _ f(4)] f(5,6) by (simp add: new_acpi_madt_def)
  obtain b where "records m ?limit (madt + 44) es b" "\<not> b < ?limit" using assms(1) by (auto simp: acpi_tables_def Let_def)
  from getEntry_loop_first [OF this] show "getEntry m \<lparr>madt_ptr = madt\<rparr> 1 = Some (first_type1 (madt + 44) es)"
    by (simp add: getEntry_def Let_def sizeof_madt_table_def madt_table_at_def sdt_header_at_def)
qed

section \<open>A small set of tables\<close>

text \<open>
  A root pointer at \<open>0xe0000\<close>, a root table at \<open>0xe1000\<close>, and a MADT with one record for an I/O APIC at \<open>0xe2000\<close>.
\<close>

definition acpi_rom :: memory where
  "acpi_rom = (\<lambda>_. 0)(0xe0000 := 82, 0xe0001 := 83, 0xe0002 := 68, 0xe0003 := 32, 0xe0004 := 80, 0xe0005 := 84, 0xe0006 := 82, 0xe0007 := 32,
     0xe0008 := 195, 0xe0011 := 0x10, 0xe0012 := 0x0e, 0xe1004 := 40, 0xe1025 := 0x20, 0xe1026 := 0x0e,
     0xe2000 := 65, 0xe2001 := 80, 0xe2002 := 73, 0xe2003 := 67, 0xe2004 := 56, 0xe202c := 1, 0xe202d := 12)"

definition rom_header :: acpi_header where
  "rom_header = \<lparr>acpi_ptr = 0xe0000, acpi_type2 = False\<rparr>"

lemma find_unique:
  assumes "x \<in> set xs" "P x" "\<forall>y \<in> set xs. P y \<longrightarrow> y = x"
  shows "find P xs = Some x"
proof (cases "find P xs")
  case None
  with assms(1,2) show ?thesis by (auto simp: find_None_iff)
next
  case (Some z)
  then have "z \<in> set xs" "P z" by (auto simp: find_Some_iff)
  with assms(3) Some show ?thesis by blast
qed

lemma acpi_rom_signature:
  assumes "acpi_rom a = 82" "acpi_rom (a + 1) = 83"
  shows "a = 0xe0000"
  using assms by (auto simp: acpi_rom_def split: if_splits)

lemma acpi_rom_root_pointer:
  "find (\<lambda>a. read_bytes acpi_rom (of_nat a) 7 = RSDP_SEARCH_STR) rsdp_places = Some 0xe0000" "valid_rsdp acpi_rom 0xe0000"
proof -
  show "find (\<lambda>a. read_bytes acpi_rom (of_nat a) 7 = RSDP_SEARCH_STR) rsdp_places = Some 0xe0000"
  proof (rule find_unique)
    show "0xe0000 \<in> set rsdp_places" by (simp add: rsdp_places_def del: upt_rec_numeral)
    show "read_bytes acpi_rom (of_nat 0xe0000) 7 = RSDP_SEARCH_STR"
      by (simp add: read_bytes_def upt_rec acpi_rom_def RSDP_SEARCH_STR_def)
    have "y = 0xe0000" if y: "y \<in> set rsdp_places" "read_bytes acpi_rom (of_nat y) 7 = RSDP_SEARCH_STR" for y
    proof -
      have "y < 2 ^ 32" using y(1) by (auto simp: rsdp_places_def simp del: upt_rec_numeral)
      then have u: "unat (of_nat y :: u32) = y" by (simp add: unat_of_nat)
      have "read_bytes acpi_rom (of_nat y) 7 ! 0 = acpi_rom (of_nat y)" "read_bytes acpi_rom (of_nat y) 7 ! 1 = acpi_rom (of_nat y + 1)"
        by (simp_all add: read_bytes_def)
      then have "acpi_rom (of_nat y) = 82" "acpi_rom (of_nat y + 1) = 83" unfolding y(2) by (simp_all add: RSDP_SEARCH_STR_def)
      from acpi_rom_signature [OF this] have "unat (of_nat y :: u32) = unat (0xe0000 :: u32)" by simp
      then show "y = 0xe0000" using u by simp
    qed
    then show "\<forall>y \<in> set rsdp_places. read_bytes acpi_rom (of_nat y) 7 = RSDP_SEARCH_STR \<longrightarrow> y = 0xe0000" by blast
  qed
  show "valid_rsdp acpi_rom 0xe0000"
    unfolding valid_rsdp_def
  proof (intro exI [of _ 20] conjI disjI1 refl)
    show "acpi_rom (0xe0000 + 15) = 0" by (simp add: acpi_rom_def)
    show "sum_list (map unat (read_bytes acpi_rom 0xe0000 20)) mod 256 = 0" by (simp add: read_bytes_def upt_rec acpi_rom_def)
  qed
qed

lemma acpi_rom_bytes: "x \<in> acpi_bytes acpi_rom rom_header 0xe2000 [(1, 12)] \<Longrightarrow> 0xe0000 \<le> unat x \<and> unat x < 0xf0000"
  and acpi_rom_itself: "acpi_tables acpi_rom rom_header 0xe2000 [(1, 12)]"
proof -
  have l: "load32 acpi_rom 0xe0010 = 0xe1000" "load32 acpi_rom 0xe1004 = 40" "load32 acpi_rom 0xe1024 = 0xe2000" "load32 acpi_rom 0xe2004 = 56"
    by (simp_all add: load_defs acpi_rom_def)
  have r: "xsdp_rsdt_address (xsdp_desc_at acpi_rom 0xe0000) = 0xe1000" by (simp add: xsdp_desc_at_def l)
  have rl: "root_length acpi_rom rom_header = 40" by (simp add: rom_header_def root_length_def r l Let_def)
  have rt: "root_tables acpi_rom rom_header = [0xe2000]" by (simp add: rom_header_def root_tables_def r l Let_def)
  have "read_bytes acpi_rom 0xe2000 4 = [65, 80, 73, 67]" by (simp add: read_bytes_def upt_rec acpi_rom_def)
  moreover have "\<exists>b. records acpi_rom 0xe2038 0xe202c [(1, 12)] b \<and> \<not> b < 0xe2038" by (simp add: acpi_rom_def)
  moreover have "acpi_rom 0xe000f = 0" by (simp add: acpi_rom_def)
  ultimately show "acpi_tables acpi_rom rom_header 0xe2000 [(1, 12)]"
    using acpi_rom_root_pointer by (simp add: acpi_tables_def rl rt l word_le_nat_alt Let_def) (simp add: rom_header_def)
  have area: "x \<in> area p n \<Longrightarrow> 0xe0000 \<le> unat p \<Longrightarrow> unat p + n \<le> 0xf0000 \<Longrightarrow> 0xe0000 \<le> unat x \<and> unat x < 0xf0000" for p n
    by (auto simp: area_def unat_word_ariths unat_of_nat)
  assume x: "x \<in> acpi_bytes acpi_rom rom_header 0xe2000 [(1, 12)]"
  have "root_address acpi_rom rom_header = 0xe1000" by (simp add: rom_header_def root_address_def r Let_def)
  with x have "x \<in> area 0xe0000 36 \<or> x \<in> area 0xe1000 40 \<or> x \<in> area 0xe2000 4 \<or> x \<in> area 0xe2000 8 \<or> x = 0xe202c \<or> x = 0xe202d"
    by (auto simp: acpi_bytes_def rl rt) (simp_all add: rom_header_def)
  then show "0xe0000 \<le> unat x \<and> unat x < 0xf0000" by (elim disjE) ((erule area; simp), (erule area; simp), (erule area; simp), (erule area; simp), simp_all)
qed

text \<open>Every memory with these bytes in the search areas has the tables.\<close>

lemma acpi_rom_tables:
  assumes "\<And>x. search_area x \<Longrightarrow> m x = acpi_rom x"
  shows "acpi_tables m rom_header 0xe2000 [(1, 12)]" and "acpi_bytes m rom_header 0xe2000 [(1, 12)] = acpi_bytes acpi_rom rom_header 0xe2000 [(1, 12)]"
proof -
  have "\<forall>x \<in> acpi_bytes acpi_rom rom_header 0xe2000 [(1, 12)]. m x = acpi_rom x"
    using acpi_rom_bytes assms by (fastforce simp: search_area_def)
  note same = acpi_tables_same [OF acpi_rom_itself this assms]
  show "acpi_tables m rom_header 0xe2000 [(1, 12)]" by (rule same(1))
  show "acpi_bytes m rom_header 0xe2000 [(1, 12)] = acpi_bytes acpi_rom rom_header 0xe2000 [(1, 12)]" by (rule same(2))
qed

end
