(* ===== verification/Interrupt.thy ===== *)
theory Interrupt
  imports Idt
begin

text \<open>
  From an \<open>int\<close> instruction to the C++ handler: what the processor makes of the table that the kernel has loaded, and the assembly stubs of
  \<open>kernel/system/interruptHandler.S\<close>.
\<close>

section \<open>The processor\<close>

text \<open>The operand of the last \<open>lidt\<close>.\<close>

definition idt_register :: "trace \<Rightarrow> (u16 \<times> u32) option" where
  "idt_register tr = fold (\<lambda>e r. case e of Lidt limit base \<Rightarrow> Some (limit, base) | _ \<Rightarrow> r) tr None"

text \<open>
  The instruction \<open>int n\<close> in ring 0: the entry must be within the limit of the table register and be a present 32-bit interrupt gate for the code segment of the
  kernel; then control goes to the address in it. In every other case the processor raises an exception instead (\<open>None\<close>).
\<close>

definition gate_target :: "memory \<Rightarrow> u32 \<Rightarrow> u32 option" where
  "gate_target m a =
     (let d = interruptDescriptor_at m a; f = gate_flags d in
      if gate_present f = 1 \<and> gate_type f = 0xe \<and> gate_zero f = 0 \<and> segment_selector d = CODE32_KSEGMENT
      then Some (push_bit 16 (ucast (address_high d)) OR ucast (address_low d)) else None)"

definition int_target :: "trace \<Rightarrow> memory \<Rightarrow> u8 \<Rightarrow> u32 option" where
  "int_target tr m vector =
     (case idt_register tr of None \<Rightarrow> None
      | Some (limit, base) \<Rightarrow> if 8 * unat vector + 7 \<le> unat limit then gate_target m (base + 8 * ucast vector) else None)"

section \<open>The stubs\<close>

text \<open>
  The interrupted code: its registers, the three words that the processor pushes, and the word that was on top of its stack.
\<close>

record interrupted =
  int_regs :: pushad_frame
  int_eip :: u32
  int_cs :: u32
  int_eflags :: u32
  int_stack :: u32

text \<open>The vectors whose stubs are made by \<open>CREATE_HANDLER_ERR\<close>: they expect that the processor has pushed an error code.\<close>

definition expects_error_code :: "u8 \<Rightarrow> bool" where
  "expects_error_code v \<longleftrightarrow> v \<in> {8, 10, 11, 12, 13, 14, 17, 21, 29, 30}"

text \<open>
  What the stub \<open>_handler\<close> of the vector \<open>v\<close> leaves on the stack for \<open>interruptHandler\<close> after an \<open>int\<close> instruction, which does not push an error code: the other stubs push
  a dummy one, the ones for the vectors above take the return address for it.
\<close>

definition isr_stub :: "u8 \<Rightarrow> interrupted \<Rightarrow> isr_frame_t" where
  "isr_stub v c =
     (if expects_error_code v
      then \<lparr>pFrame = int_regs c, intNumber = ucast v, errorCode = int_eip c, isr_eip = int_cs c, isr_cs = int_eflags c, isr_eflags = int_stack c\<rparr>
      else \<lparr>pFrame = int_regs c, intNumber = ucast v, errorCode = 0, isr_eip = int_eip c, isr_cs = int_cs c, isr_eflags = int_eflags c\<rparr>)"

section \<open>Interrupts after init\<close>

lemma gate_target_gate: "interrupt_gate m a h 0 \<Longrightarrow> gate_target m a = Some h"
  by (simp add: interrupt_gate_def gate_target_def Let_def)

lemma idt_register_loaded: "idt_register (tr @ pre @ [Cli, Lidt limit base, Sti]) = Some (limit, base)"
  by (simp add: idt_register_def)

text \<open>Every vector is dispatched to the address in its entry of the stub table, as long as its gate is not overwritten.\<close>

lemma idt_init_result:
  assumes "\<not> idt_initialized idt" "idt_init m tr idt stubs = (r, idt', m', tr')"
  shows "idt' = idt" and "tr' = tr @ disablePIC [] @ [Cli, Lidt 0xFFF (IDT_ptr idt), Sti]" and "m' = installAll m idt stubs"
  using assms disablePIC_trace [of tr]
  by (auto simp: idt_init_def loadIDT_def disableInterrupts_def enableInterrupts_def Let_def)

lemma idt_init_dispatch:
  assumes "\<not> idt_initialized idt" "sep (IDT_ptr idt) 0x800 stubs 0x400" "idt_init m tr idt stubs = (r, idt', m', tr')"
    and "\<And>x. x - (IDT_ptr idt + 8 * ucast v) < 8 \<Longrightarrow> m'' x = m' x"
  shows "int_target tr' m'' v = Some (load32 m (stubs + 4 * ucast v))"
proof -
  note res = idt_init_result [OF assms(1,3)]
  let ?v = "ucast v :: u32"
  have v: "unat ?v = unat v" "unat v < 256" using unat_less_2pow [of v] by (simp_all add: unat_ucast_up)
  then have "?v < 256" by (simp add: word_less_nat_alt)
  moreover have "(0 :: u32) \<le> 256" by simp
  ultimately have "interrupt_gate m' (IDT_ptr idt + 8 * ?v) (load32 m (stubs + 4 * ?v)) 0"
    using installAll_loop_gates [OF _ assms(2), of 0 m] by (simp add: res(3) installAll_def)
  then have "interrupt_gate m'' (IDT_ptr idt + 8 * ?v) (load32 m (stubs + 4 * ?v)) 0"
    using interrupt_gate_cong [of m'' "IDT_ptr idt + 8 * ?v" m'] assms(4) by simp
  from gate_target_gate [OF this] v(2) show ?thesis
    by (simp add: int_target_def res(2) idt_register_loaded)
qed

text \<open>Memory outside the table is left alone.\<close>

lemma idt_init_outside:
  assumes "\<not> idt_initialized idt" "sep (IDT_ptr idt) 0x800 stubs 0x400" "idt_init m tr idt stubs = (r, idt', m', tr')" "\<not> x - IDT_ptr idt < 0x800"
  shows "m' x = m x"
proof -
  have "(0 :: u32) \<le> 256" by simp
  with installAll_loop_gates [OF this assms(2)] assms(4) show ?thesis
    by (simp add: idt_init_result(3) [OF assms(1,3)] installAll_def)
qed

section \<open>A set of stubs\<close>

text \<open>The stubs of all vectors one after the other from address \<open>a\<close>, each of 16 bytes, and the bytes of the table of their addresses.\<close>

definition stubs_from :: "u32 \<Rightarrow> u32 \<Rightarrow> u8 option" where
  "stubs_from a x = (if x - a < 0x1000 \<and> (x - a) mod 16 = 0 then Some (ucast ((x - a) div 16)) else None)"

definition stub_table_byte :: "u32 \<Rightarrow> u32 \<Rightarrow> u8" where
  "stub_table_byte a offset = ucast (drop_bit (8 * unat (offset mod 4)) (a + 16 * (offset div 4)))"

end
