(* ===== verification/Kmain.thy ===== *)
theory Kmain
  imports Apic Heap AcpiTables Interrupt
begin

text \<open>
  The start-up code of the kernel, \<open>kmain\<close> of \<open>kernel/kmain.cpp\<close>, which goes through all the kernel's components and
  ends in a test interrupt.
\<close>

section \<open>The main function\<close>

definition MULTIBOOT_CUSTOM_BOOTLOADER_MAGIC :: u32 where
  "MULTIBOOT_CUSTOM_BOOTLOADER_MAGIC = 0x2BADB003"

text \<open>The cursor is passed by the boot loader as one index into the screen.\<close>

definition kmain_cursor :: "framebuffer_terminal \<Rightarrow> u32 \<Rightarrow> framebuffer_terminal" where
  "kmain_cursor t terminalIndex =
     (let row = ucast (terminalIndex div vga_width) :: u8;
          column = ucast (terminalIndex - ucast row * vga_width) :: u8
      in snd (setCursor t row column))"

definition kmain_header :: string where
  "kmain_header = ''Entering RainbowOS 32-bit protected mode kernel.bin'' @ [CHR 10]"

definition no_cpuid_msg :: panic where
  "no_cpuid_msg = ''Error: CPUID is not supported, aborting!''"

definition kmain_end_msg :: panic where
  "kmain_end_msg = ''Shouldn'' @ [CHR 0x27] @ ''t be seeing this!!!''"

text \<open>
  What the hardware and the linker provide are parameters: the end of the binary, the addresses of the constant \<open>APIC\<close>,
  of the interrupt table, of the table of the handler stubs and of the handler's buffer, and the stubs in the binary: \<open>stub_at k a\<close> is the vector of the stub that starts at address \<open>a\<close>.
\<close>

record kernel_image =
  endSymbol :: u32
  apic_name :: u32
  idt_table :: u32
  stub_table :: u32
  tempNum_buf :: u32
  stub_at :: "u32 \<Rightarrow> u8 option"

text \<open>
  The objects that \<open>kmain\<close> has built so far, the model-specific registers, and the trace of the port writes and instructions.
\<close>

record kernel_state =
  k_heap :: "heap_vars option"
  k_acpi :: "acpi_header option"
  k_madt :: "acpi_madt option"
  k_ioapic :: "io_apic option"
  k_lapic :: "l_apic option"
  k_msrs :: msrs
  k_trace :: trace

definition boot_state :: "msrs \<Rightarrow> trace \<Rightarrow> kernel_state" where
  "boot_state s tr = \<lparr>k_heap = None, k_acpi = None, k_madt = None, k_ioapic = None, k_lapic = None, k_msrs = s, k_trace = tr\<rparr>"

text \<open>
  \<open>kmain\<close> does not return. It ends in a panic, or in an exception that the processor raises at the \<open>int\<close> instruction, with the state it has reached; \<open>None\<close> means that
  it runs forever.
\<close>

datatype kernel_end = Panicked panic | Faulted

type_synonym kernel_run = "(kernel_end \<times> kernel_state) option"

text \<open>
  The instruction \<open>int\<close>: through the table that is loaded to a stub, and from there to \<open>interruptHandler\<close>. When the gate or the address in it is
  no good the processor faults.
\<close>

definition kmain_int ::
  "outstream \<Rightarrow> kernel_image \<Rightarrow> u8 \<Rightarrow> kernel_state \<Rightarrow> interrupted \<Rightarrow> framebuffer_terminal \<Rightarrow> memory \<Rightarrow> kernel_run" where
  "kmain_int os k vector st c t m =
     (case int_target (k_trace st) m vector of None \<Rightarrow> Some (Faulted, st) | Some address \<Rightarrow>
      (case stub_at k address of None \<Rightarrow> Some (Faulted, st) | Some v \<Rightarrow>
       (case interruptHandler os m t (tempNum_buf k) (isr_stub v c) of
          None \<Rightarrow> None | Some (Inl e) \<Rightarrow> Some (Panicked e, st) | Some (Inr _) \<Rightarrow> Some (Panicked kmain_end_msg, st))))"

definition kmain_apic ::
  "outstream \<Rightarrow> kernel_image \<Rightarrow> processor \<Rightarrow> kernel_state \<Rightarrow> interrupted \<Rightarrow> framebuffer_terminal \<Rightarrow> memory \<Rightarrow> kernel_run" where
  "kmain_apic os k cpu st c t m =
     (case new_l_apic cpu of Inl e \<Rightarrow> Some (Panicked e, st) | Inr localAPIC \<Rightarrow>
      let (s, m) = l_apic_enable (k_msrs st) m localAPIC;
          st = st\<lparr>k_lapic := Some localAPIC, k_msrs := s\<rparr>;
          (t, m) = out_chain os m t [Str (''Enabled local APIC'' @ [CHR 10])];
          (t, m) = out_chain os m t [Str (''Attempting to enable interrupts'' @ [CHR 10])];
          idt = new_interruptDescriptorTable (idt_table k);
          (r, idt, m, tr) = idt_init m (k_trace st) idt (stub_table k);
          st = st\<lparr>k_trace := tr\<rparr>;
          (t, m) = out_chain os m t [Str (''Are they enabled?...'' @ [CHR 10])]
      in kmain_int os k 0x34 st c t m)"

definition kmain_acpi ::
  "outstream \<Rightarrow> kernel_image \<Rightarrow> processor \<Rightarrow> kernel_state \<Rightarrow> interrupted \<Rightarrow> framebuffer_terminal \<Rightarrow> memory \<Rightarrow> kernel_run" where
  "kmain_acpi os k cpu st c t m =
     (case new_acpi_header m of Inl e \<Rightarrow> Some (Panicked e, st) | Inr acpiHeader \<Rightarrow>
      let st = st\<lparr>k_acpi := Some acpiHeader\<rparr> in
      (case (if getType acpiHeader = 1 then out_chain os m t [Str (''We have a type 1 ACPI table'' @ [CHR 10])]
             else out_chain os m t [Str (''We have a type 2 ACPI table'' @ [CHR 10])]) of (t, m) \<Rightarrow>
       (case new_acpi_madt m (apic_name k) acpiHeader of None \<Rightarrow> None | Some (Inl e) \<Rightarrow> Some (Panicked e, st) | Some (Inr madt) \<Rightarrow>
        let st = st\<lparr>k_madt := Some madt\<rparr> in
        (case getEntry m madt 1 of None \<Rightarrow> None | Some type1 \<Rightarrow>
         (case out_chain os m t [Str ''Found type 1 MADT @ '', Num (uint type1), Str [CHR 10]] of (t, m) \<Rightarrow>
          (case new_io_apic m madt of None \<Rightarrow> None | Some (Inl e) \<Rightarrow> Some (Panicked e, st) | Some (Inr ioAPIC) \<Rightarrow>
           (case out_chain os m t [Str (''IO APIC is good'' @ [CHR 10])] of (t, m) \<Rightarrow>
            kmain_apic os k cpu (st\<lparr>k_ioapic := Some ioAPIC\<rparr>) c t m)))))))"

definition kmain ::
  "outstream \<Rightarrow> kernel_image \<Rightarrow> bool \<Rightarrow> processor \<Rightarrow> msrs \<Rightarrow> trace \<Rightarrow> interrupted \<Rightarrow> memory \<Rightarrow> u32 \<Rightarrow> u32 \<Rightarrow> kernel_run" where
  "kmain os0 k has_cpuid cpu s tr c m multiboot_flag terminalIndex =
     (let initTerminal = new_terminal;
          os = os_hex (os_init os0);
          st = boot_state s tr;
          (t, m) = (if multiboot_flag = MULTIBOOT_CUSTOM_BOOTLOADER_MAGIC then (kmain_cursor initTerminal terminalIndex, m)
                    else (initTerminal, term_clear m initTerminal));
          t = setColor t VGA_COLOR_LIGHT_GREY VGA_COLOR_BLUE;
          (t, m) = out_chain os m t [Str kmain_header];
          t = setColor t VGA_COLOR_LIGHT_GREY VGA_COLOR_BLACK;
          (t, m) = out_chain os m t [Str ''Creating a temporary heap at 0x'', Num (uint (endSymbol k)), Str ('' of size 4k'' @ [CHR 10])];
          (g, m) = heapInitialize m (endSymbol k) (4 * 1024);
          st = st\<lparr>k_heap := Some g\<rparr>
      in if has_cpuid then
           (case out_chain os m t [Str (''CPUID is supported'' @ [CHR 10])] of (t, m) \<Rightarrow> kmain_acpi os k cpu st c t m)
         else Some (Panicked no_cpuid_msg, st))"

section \<open>Memory that the start-up code leaves alone before it reads the ACPI tables\<close>

definition untouched_before_acpi :: "kernel_image \<Rightarrow> u32 \<Rightarrow> bool" where
  "untouched_before_acpi k x \<longleftrightarrow> \<not> x - FRAMEBUFFER_LOCATION < 4000 \<and> \<not> (unat (endSymbol k) \<le> unat x \<and> unat x < unat (endSymbol k) + 4096)"

definition same_tables :: "kernel_image \<Rightarrow> memory \<Rightarrow> memory \<Rightarrow> bool" where
  "same_tables k m m' \<longleftrightarrow> (\<forall>x. untouched_before_acpi k x \<longrightarrow> m' x = m x)"

lemma same_tables_trans [trans]: "same_tables k m m1 \<Longrightarrow> same_tables k m1 m2 \<Longrightarrow> same_tables k m m2"
  by (simp add: same_tables_def)

definition ready :: "framebuffer_terminal \<Rightarrow> bool" where
  "ready t \<longleftrightarrow> term_inv t \<and> t_buffer t = FRAMEBUFFER_LOCATION"

lemma ready_setColor [simp]: "ready (setColor t fg bg) = ready t"
  by (simp add: ready_def setColor_def term_inv_def)

lemma ready_new [simp]: "ready new_terminal"
  by (simp add: ready_def)

lemma ready_kmain_cursor: "ready t \<Longrightarrow> ready (kmain_cursor t i)"
  using setCursor_inv [OF _ prod.collapse [symmetric], of t] by (simp add: ready_def kmain_cursor_def Let_def)

lemma out_chain_tables: "ready t \<Longrightarrow> out_chain os m t xs = (t', m') \<Longrightarrow> ready t' \<and> same_tables k m m'"
  using out_chain_frame [of t os m xs t' m']
  by (auto simp: ready_def same_tables_def untouched_before_acpi_def in_framebuffer_def)

lemma term_clear_tables: "same_tables k m (term_clear m new_terminal)"
  using term_clear_cells [of m new_terminal]
  by (auto simp: same_tables_def untouched_before_acpi_def same_outside_def)

lemma heap_tables:
  assumes "heapInitialize m (endSymbol k) (4 * 1024) = (g, m')" "unat (endSymbol k) + 4096 \<le> 2 ^ 32"
  shows "same_tables k m m'"
proof -
  have "heapInitialize m (of_nat (unat (endSymbol k))) (of_nat 4096) = (g, m')" using assms(1) by simp
  from heapInitialize_only [OF _ _ _ this] assms(2) show ?thesis
    by (auto simp: same_tables_def untouched_before_acpi_def)
qed

section \<open>Reaching the first interrupt\<close>

text \<open>
  The entry for vector \<open>0x34\<close> in the table of the stubs is the address of its stub, and the code does not overwrite it before it is read, nor the gate that is made of it before it is used:
  it is not on the screen, in the temporary heap, or at the offset in a page at which the local APIC is enabled, the table of the stubs and the interrupt table are separate, and the gate is not on the screen.
\<close>

definition test_interrupt_entry :: "kernel_image \<Rightarrow> u32" where
  "test_interrupt_entry k = stub_table k + 4 * 0x34"

definition test_interrupt_safe :: "kernel_image \<Rightarrow> bool" where
  "test_interrupt_safe k \<longleftrightarrow> sep (idt_table k) 0x800 (stub_table k) 0x400 \<and>
     (\<forall>x \<in> area (test_interrupt_entry k) 4. untouched_before_acpi k x \<and> x AND 0xfff \<noteq> 0x3c0 \<and> x AND 0xfff \<noteq> 0x3c1) \<and>
     (\<forall>x. x - (idt_table k + 8 * 0x34) < 8 \<longrightarrow> \<not> x - FRAMEBUFFER_LOCATION < 4000)"

lemma kmain_apic_interrupt:
  assumes "checkApic cpu" "test_interrupt_safe k" "same_tables k m0 m" "ready t"
    and "stub_at k (load32 m0 (test_interrupt_entry k)) = Some 0x34"
  shows "kmain_apic os k cpu st c t m = Some (Panicked ''Interrupt called with vector 34'',
    st\<lparr>k_lapic := Some \<lparr>lapic_reg = fst (cpu 1)\<rparr>, k_msrs := (k_msrs st)(IA32_APIC_BASE_MSR := (fst (cpu 1) AND 0xfffff000, 0)),
       k_trace := k_trace st @ disablePIC [] @ [Cli, Lidt 0xFFF (idt_table k), Sti]\<rparr>)"
proof -
  let ?E = "area (test_interrupt_entry k) 4" and ?l = "\<lparr>lapic_reg = fst (cpu 1)\<rparr>" and ?idt = "new_interruptDescriptorTable (idt_table k)"
  have safe: "sep (IDT_ptr ?idt) 0x800 (stub_table k) 0x400" "\<not> idt_initialized ?idt"
    "\<And>x. x - (IDT_ptr ?idt + 8 * 0x34) < 8 \<Longrightarrow> \<not> x - FRAMEBUFFER_LOCATION < 4000"
    "\<And>x. x \<in> ?E \<Longrightarrow> untouched_before_acpi k x \<and> x AND 0xfff \<noteq> 0x3c0 \<and> x AND 0xfff \<noteq> 0x3c1"
    using assms(2) by (auto simp: test_interrupt_safe_def new_interruptDescriptorTable_def)
  have l: "new_l_apic cpu = Inr ?l" using assms(1) by (auto simp: new_l_apic_def cpuid_def split: prod.splits)
  obtain s1 m1 where e: "l_apic_enable (k_msrs st) m ?l = (s1, m1)" by fastforce
  note e1 = l_apic_enable_only [OF e]
  obtain t2 m2 where o2: "out_chain os m1 t [Str (''Enabled local APIC'' @ [CHR 10])] = (t2, m2)" by fastforce
  obtain t3 m3 where o3: "out_chain os m2 t2 [Str (''Attempting to enable interrupts'' @ [CHR 10])] = (t3, m3)" by fastforce
  obtain r idt m4 tr where i: "idt_init m3 (k_trace st) ?idt (stub_table k) = (r, idt, m4, tr)" by (metis prod_cases4)
  obtain t5 m5 where o5: "out_chain os m4 t3 [Str (''Are they enabled?...'' @ [CHR 10])] = (t5, m5)" by fastforce
  have r2: "ready t2" "same_tables k m1 m2" using out_chain_tables [OF assms(4) o2] by blast+
  have r3: "ready t3" "same_tables k m2 m3" using out_chain_tables [OF r2(1) o3] by blast+
  have "m3 x = m0 x" if "x \<in> ?E" for x
    using safe(4) [OF that] e1(2) [of x] assms(3) r2(2) r3(2) by (simp add: same_tables_def)
  then have word: "load32 m3 (test_interrupt_entry k) = load32 m0 (test_interrupt_entry k)"
    using area_load(1) [of "test_interrupt_entry k" 4 m3 m0 0] by simp
  have gate: "m5 x = m4 x" if "x - (IDT_ptr ?idt + 8 * ucast (0x34 :: u8)) < 8" for x
    using out_chain_frame [OF _ o5] r3(1) safe(3) [of x] that by (auto simp: ready_def in_framebuffer_def)
  have target: "int_target tr m5 0x34 = Some (load32 m0 (test_interrupt_entry k))"
    using idt_init_dispatch [OF safe(2,1) i, of "0x34" m5] gate word by (simp add: test_interrupt_entry_def)
  have tr: "tr = k_trace st @ disablePIC [] @ [Cli, Lidt 0xFFF (idt_table k), Sti]"
    using idt_init_result(2) [OF safe(2) i] by (simp add: new_interruptDescriptorTable_def)
  have "chars_of (take 3 (xtoa_text 0x34 16)) = ''34''"
    by (simp add: xtoa_text_def lsd_digits.simps digit_char_def chars_of_def char_of_def bit_Suc_0_iff)
  then have h: "interruptHandler os m5 t5 (tempNum_buf k) (isr_stub 0x34 c) = Some (Inl ''Interrupt called with vector 34'')"
    using interruptHandler_message [of "isr_stub 0x34 c" os m5 t5 "tempNum_buf k"] by (simp add: isr_stub_def handler_prefix_def)
  show ?thesis
    unfolding kmain_apic_def l sum.case Let_def e o2 o3 prod.case i o5 kernel_state.simps kernel_state.update_convs
    by (simp add: i o5 [simplified] kmain_int_def target assms(5) h e1(1)) (simp add: tr)
qed

text \<open>\<open>acpi_found k m h madt e\<close>: in every memory that agrees with \<open>m\<close> outside the screen and the temporary heap, the ACPI code finds the root pointer, the MADT and
  a record for an I/O APIC.\<close>

definition acpi_found :: "kernel_image \<Rightarrow> memory \<Rightarrow> acpi_header \<Rightarrow> u32 \<Rightarrow> u32 \<Rightarrow> bool" where
  "acpi_found k m h madt e \<longleftrightarrow> e \<noteq> 0 \<and> (\<forall>m'. same_tables k m m' \<longrightarrow>
     new_acpi_header m' = Inr h \<and> new_acpi_madt m' (apic_name k) h = Some (Inr \<lparr>madt_ptr = madt\<rparr>) \<and> getEntry m' \<lparr>madt_ptr = madt\<rparr> 1 = Some e)"

text \<open>The state at the interrupt, with everything that the start-up code has built.\<close>

definition interrupt_state :: "kernel_image \<Rightarrow> processor \<Rightarrow> msrs \<Rightarrow> trace \<Rightarrow> acpi_header \<Rightarrow> u32 \<Rightarrow> u32 \<Rightarrow> kernel_state" where
  "interrupt_state k cpu s tr h madt e =
     \<lparr>k_heap = Some \<lparr>heap = endSymbol k, heapEnd = endSymbol k + 4096 - 8\<rparr>, k_acpi = Some h, k_madt = Some \<lparr>madt_ptr = madt\<rparr>,
      k_ioapic = Some \<lparr>ioapic_entry = e\<rparr>, k_lapic = Some \<lparr>lapic_reg = fst (cpu 1)\<rparr>,
      k_msrs = s(0x1b := (fst (cpu 1) AND 0xfffff000, 0)), k_trace = tr @ disablePIC [] @ [Cli, Lidt 0xFFF (idt_table k), Sti]\<rparr>"

lemma kmain_acpi_interrupt:
  assumes "checkApic cpu" "test_interrupt_safe k" "acpi_found k m0 h madt e" "same_tables k m0 m" "ready t"
    and "stub_at k (load32 m0 (test_interrupt_entry k)) = Some 0x34"
    and "st = (boot_state s tr)\<lparr>k_heap := Some \<lparr>heap = endSymbol k, heapEnd = endSymbol k + 4096 - 8\<rparr>\<rparr>"
  shows "kmain_acpi os k cpu st c t m = Some (Panicked ''Interrupt called with vector 34'', interrupt_state k cpu s tr h madt e)"
proof -
  let ?madt = "\<lparr>madt_ptr = madt\<rparr>"
  have f: "e \<noteq> 0" "\<And>m'. same_tables k m0 m' \<Longrightarrow>
      new_acpi_header m' = Inr h \<and> new_acpi_madt m' (apic_name k) h = Some (Inr ?madt) \<and> getEntry m' ?madt 1 = Some e"
    using assms(3) by (auto simp: acpi_found_def)
  obtain t1 m1 where o1: "(if getType h = 1 then out_chain os m t [Str (''We have a type 1 ACPI table'' @ [CHR 10])]
      else out_chain os m t [Str (''We have a type 2 ACPI table'' @ [CHR 10])]) = (t1, m1)" by fastforce
  have r1: "ready t1" "same_tables k m0 m1"
    using o1 out_chain_tables [OF assms(5)] same_tables_trans [OF assms(4)] by (metis (no_types))+
  obtain t2 m2 where o2: "out_chain os m1 t1 [Str ''Found type 1 MADT @ '', Num (uint e), Str [CHR 10]] = (t2, m2)" by fastforce
  have r2: "ready t2" "same_tables k m0 m2"
    using out_chain_tables [OF r1(1) o2, of k] same_tables_trans [OF r1(2)] by auto
  obtain t3 m3 where o3: "out_chain os m2 t2 [Str (''IO APIC is good'' @ [CHR 10])] = (t3, m3)" by fastforce
  have r3: "ready t3" "same_tables k m0 m3"
    using out_chain_tables [OF r2(1) o3, of k] same_tables_trans [OF r2(2)] by auto
  have io: "new_io_apic m2 ?madt = Some (Inr \<lparr>ioapic_entry = e\<rparr>)" using f(2) [OF r2(2)] f(1) by (simp add: new_io_apic_def)
  show ?thesis
    using f(2) [OF assms(4)] f(2) [OF r1(2)] o1 o2 o3 io kmain_apic_interrupt [OF assms(1,2) r3(2,1) assms(6)]
    by (simp add: kmain_acpi_def assms(7) boot_state_def interrupt_state_def IA32_APIC_BASE_MSR_def)
qed

lemma kmain_interrupt:
  assumes "checkApic cpu" "test_interrupt_safe k" "acpi_found k m h madt e" "unat (endSymbol k) + 4096 \<le> 2 ^ 32"
    and "stub_at k (load32 m (test_interrupt_entry k)) = Some 0x34"
  shows "kmain os0 k True cpu s tr c m flag index = Some (Panicked ''Interrupt called with vector 34'', interrupt_state k cpu s tr h madt e)"
proof -
  let ?os = "os_hex (os_init os0)"
  obtain t m0 where o0: "(if flag = MULTIBOOT_CUSTOM_BOOTLOADER_MAGIC then (kmain_cursor new_terminal index, m)
      else (new_terminal, term_clear m new_terminal)) = (t, m0)" by fastforce
  have r0: "ready t" "same_tables k m m0"
    using o0 ready_kmain_cursor [OF ready_new] term_clear_tables by (auto simp: same_tables_def split: if_splits)
  obtain t1 m1 where o1: "out_chain ?os m0 (setColor t VGA_COLOR_LIGHT_GREY VGA_COLOR_BLUE) [Str kmain_header] = (t1, m1)" by fastforce
  have r1: "ready t1" "same_tables k m m1"
    using out_chain_tables [OF _ o1, of k] r0 same_tables_trans by auto
  obtain t2 m2 where o2: "out_chain ?os m1 (setColor t1 VGA_COLOR_LIGHT_GREY VGA_COLOR_BLACK)
      [Str ''Creating a temporary heap at 0x'', Num (uint (endSymbol k)), Str ('' of size 4k'' @ [CHR 10])] = (t2, m2)" by fastforce
  have r2: "ready t2" "same_tables k m m2"
    using out_chain_tables [OF _ o2, of k] r1 same_tables_trans by auto
  obtain g m3 where h: "heapInitialize m2 (endSymbol k) (4 * 1024) = (g, m3)" by fastforce
  have r3: "same_tables k m m3" using heap_tables [OF h assms(4)] r2(2) same_tables_trans by blast
  have g: "g = \<lparr>heap = endSymbol k, heapEnd = endSymbol k + 4096 - 8\<rparr>"
    using h by (auto simp: heapInitialize_def Let_def heapEntry_headerSize_def)
  obtain t4 m4 where o4: "out_chain ?os m3 t2 [Str (''CPUID is supported'' @ [CHR 10])] = (t4, m4)" by fastforce
  have r4: "ready t4" "same_tables k m m4" using out_chain_tables [OF r2(1) o4, of k] r3 same_tables_trans by auto
  note run = kmain_acpi_interrupt [OF assms(1-3) r4(2,1) assms(5) refl]
  show ?thesis
    unfolding kmain_def Let_def o0 prod.case o1 o2 h if_True o4 g by (rule run)
qed

section \<open>What the start-up code guarantees\<close>

lemma search_area_untouched: "search_area x \<Longrightarrow> 0x100000 \<le> unat (endSymbol k) \<Longrightarrow> untouched_before_acpi k x"
  by (auto simp: search_area_def untouched_before_acpi_def FRAMEBUFFER_LOCATION_def word_less_nat_alt unat_sub_if')

lemma acpi_tables_acpi_found:
  assumes "acpi_tables m h madt es" "cstr m (apic_name k) [65, 80, 73, 67]" "first_type1 (madt + 44) es \<noteq> 0"
    and "\<forall>x \<in> acpi_bytes m h madt es \<union> area (apic_name k) 5. untouched_before_acpi k x" "0x100000 \<le> unat (endSymbol k)"
  shows "acpi_found k m h madt (first_type1 (madt + 44) es)"
  unfolding acpi_found_def
proof (intro conjI allI impI)
  fix m' assume m': "same_tables k m m'"
  have t: "acpi_tables m' h madt es"
    using m' assms(4) search_area_untouched [OF _ assms(5)] by (intro acpi_tables_same [OF assms(1)]) (auto simp: same_tables_def)
  have "cstr m' (apic_name k) [65, 80, 73, 67]"
  proof (rule cstr_area [OF assms(2)])
    have "Suc (length [65, 80, 73, 67 :: u8]) = 5" by simp
    then show "\<forall>x \<in> area (apic_name k) (Suc (length [65, 80, 73, 67 :: u8])). m' x = m x"
      using m' assms(4) by (simp only: same_tables_def) blast
  qed
  note acpi_tables_found [OF t this]
  then show "new_acpi_header m' = Inr h" "new_acpi_madt m' (apic_name k) h = Some (Inr \<lparr>madt_ptr = madt\<rparr>)"
    "getEntry m' \<lparr>madt_ptr = madt\<rparr> 1 = Some (first_type1 (madt + 44) es)" .
qed (rule assms(3))

text \<open>
  C10. On a processor with \<open>cpuid\<close> and an APIC, in a memory that has a valid root pointer, a MADT and in it a record for an I/O APIC, and the address
  of the right stub in entry \<open>0x34\<close> of the stub table, in
  bytes that the start-up code does not overwrite:
  \<open>kmain\<close> builds its heap, its ACPI, I/O APIC and local APIC objects, sets the base register of the APIC, masks the interrupt controllers and loads its interrupt table,
  whatever the boot loader's magic number and cursor were, and the instruction \<open>int $0x34\<close> goes through the gate that it has installed and through the stub to
  the handler, which panics with that vector.
\<close>

theorem kmain_reaches_interrupt:
  assumes "checkApic cpu" "acpi_tables m h madt es" "cstr m (apic_name k) [65, 80, 73, 67]" "first_type1 (madt + 44) es \<noteq> 0"
    and "\<forall>x \<in> acpi_bytes m h madt es \<union> area (apic_name k) 5. untouched_before_acpi k x"
    and "0x100000 \<le> unat (endSymbol k)" "unat (endSymbol k) + 4096 \<le> 2 ^ 32"
    and "stub_at k (load32 m (test_interrupt_entry k)) = Some 0x34" "test_interrupt_safe k"
  shows "kmain os0 k True cpu s tr c m flag index =
    Some (Panicked ''Interrupt called with vector 34'', interrupt_state k cpu s tr h madt (first_type1 (madt + 44) es))"
  by (rule kmain_interrupt [OF assms(1,9) acpi_tables_acpi_found [OF assms(2-6)] assms(7,8)])

text \<open>The tables of \<open>acpi_rom\<close>, the constant \<open>APIC\<close> at \<open>0x4000\<close>, and a table of stubs at \<open>0x9000\<close>.\<close>

definition acpi_machine :: memory where
  "acpi_machine x = (if x - 0x9000 < 0x400 then stub_table_byte 0x20000 (x - 0x9000)
     else (acpi_rom(0x4000 := 65, 0x4001 := 80, 0x4002 := 73, 0x4003 := 67)) x)"

definition tiny_kernel :: kernel_image where
  "tiny_kernel = \<lparr>endSymbol = 0x100000, apic_name = 0x4000, idt_table = 0x8000, stub_table = 0x9000, tempNum_buf = 0x7000, stub_at = stubs_from 0x20000\<rparr>"

lemma acpi_rom_untouched:
  assumes "x \<in> acpi_bytes acpi_rom rom_header 0xe2000 [(1, 12)]" "0x100000 \<le> unat (endSymbol k)"
  shows "untouched_before_acpi k x"
  using acpi_rom_bytes [OF assms(1)] by (intro search_area_untouched [OF _ assms(2)]) (simp add: search_area_def)

lemma area_4: "x \<in> area p 4 \<Longrightarrow> x = p \<or> x = p + 1 \<or> x = p + 2 \<or> x = p + 3"
proof -
  assume "x \<in> area p 4"
  then obtain i where "x = p + of_nat i" "i < 4" by (auto simp: area_def)
  then show ?thesis by (cases i rule: nat.exhaust [case_names 0 S]) (auto simp: less_Suc_eq numeral_eq_Suc)
qed

lemma low_untouched: "unat x < 0xb8000 \<Longrightarrow> 0x100000 \<le> unat (endSymbol k) \<Longrightarrow> untouched_before_acpi k x"
  by (auto simp: untouched_before_acpi_def FRAMEBUFFER_LOCATION_def word_less_nat_alt unat_sub_if')

theorem kmain_reaches_interrupt_witness:
  "\<forall>os0 s tr c. \<exists>st. kmain os0 tiny_kernel True (\<lambda>_. (0x6a0, 0, 0, 0x200)) s tr c acpi_machine 0 0 =
     Some (Panicked ''Interrupt called with vector 34'', st) \<and> k_ioapic st = Some \<lparr>ioapic_entry = 0xe202c\<rparr> \<and> k_msrs st 0x1b = (0, 0)"
proof (intro allI)
  fix os0 s tr c
  have cpu: "checkApic (\<lambda>_. (0x6a0, 0, 0, 0x200))" by (simp add: checkApic_def cpuid_def cpuid_feature_mask_def)
  have rom: "acpi_machine x = acpi_rom x" if "search_area x" for x
    using that by (auto simp: acpi_machine_def search_area_def word_less_nat_alt unat_sub_if')
  have name: "cstr acpi_machine (apic_name tiny_kernel) [65, 80, 73, 67]" by (simp add: acpi_machine_def acpi_rom_def tiny_kernel_def)
  have "untouched_before_acpi tiny_kernel x" if "x \<in> area (apic_name tiny_kernel) 5" for x
    using that by (intro low_untouched) (auto simp: area_def tiny_kernel_def unat_word_ariths unat_of_nat)
  then have bytes: "\<forall>x \<in> acpi_bytes acpi_machine rom_header 0xe2000 [(1, 12)] \<union> area (apic_name tiny_kernel) 5. untouched_before_acpi tiny_kernel x"
    using acpi_rom_untouched [of _ tiny_kernel] acpi_rom_tables(2) [OF rom] by (auto simp: tiny_kernel_def)
  have stub: "stub_at tiny_kernel (load32 acpi_machine (test_interrupt_entry tiny_kernel)) = Some 0x34"
    by (simp add: tiny_kernel_def test_interrupt_entry_def load_defs acpi_machine_def stub_table_byte_def stubs_from_def)
  have safe: "test_interrupt_safe tiny_kernel"
    unfolding test_interrupt_safe_def
  proof (intro conjI ballI allI impI)
    show "sep (idt_table tiny_kernel) 0x800 (stub_table tiny_kernel) 0x400" by (simp add: tiny_kernel_def sep_def word_le_nat_alt)
    fix x assume "x \<in> area (test_interrupt_entry tiny_kernel) 4"
    then have "x = 0x90d0 \<or> x = 0x90d1 \<or> x = 0x90d2 \<or> x = 0x90d3"
      using area_4 [of x "test_interrupt_entry tiny_kernel"] by (simp add: tiny_kernel_def test_interrupt_entry_def)
    then show "untouched_before_acpi tiny_kernel x" "x AND 0xfff \<noteq> 0x3c0" "x AND 0xfff \<noteq> 0x3c1"
      by (auto intro!: low_untouched simp: tiny_kernel_def)
  next
    fix x assume "x - (idt_table tiny_kernel + 8 * 0x34) < 8"
    then show "\<not> x - FRAMEBUFFER_LOCATION < 4000"
      by (auto simp: tiny_kernel_def FRAMEBUFFER_LOCATION_def word_less_nat_alt unat_sub_if' split: if_splits)
  qed
  show "\<exists>st. kmain os0 tiny_kernel True (\<lambda>_. (0x6a0, 0, 0, 0x200)) s tr c acpi_machine 0 0 = Some (Panicked ''Interrupt called with vector 34'', st) \<and>
     k_ioapic st = Some \<lparr>ioapic_entry = 0xe202c\<rparr> \<and> k_msrs st 0x1b = (0, 0)"
    using kmain_reaches_interrupt [OF cpu acpi_rom_tables(1) [OF rom] name _ bytes _ _ stub safe, of os0 s tr c 0 0]
    by (simp add: tiny_kernel_def interrupt_state_def)
qed

end
