(* ===== verification/Boot.thy ===== *)
theory Boot
  imports Stage1 Kmain
begin

text \<open>
  The boot loader with a kernel on the disk: the run of \<open>_stage1Main\<close> composed of the theorems on its steps, from the sectors of the disk to the segments
  in memory, and the hand-over of the screen to the kernel.
\<close>

section \<open>The kernel file\<close>

text \<open>A file is described as a memory \<open>F\<close> that holds it from address 0; in the loader it stands at some address \<open>P\<close>.\<close>

definition file_at :: "memory \<Rightarrow> u32 \<Rightarrow> memory \<Rightarrow> nat \<Rightarrow> bool" where
  "file_at m P F fl \<longleftrightarrow> (\<forall>x. unat x < fl \<longrightarrow> m (P + x) = F x)"

definition phdrs :: "memory \<Rightarrow> elf32_Phdr list" where
  "phdrs F = map (\<lambda>j. phdr_at F (e_phoff (ehdr_at F 0) + 32 * of_nat j)) [0..<unat (e_phnum (ehdr_at F 0))]"

text \<open>A program header that can be loaded from a file of \<open>fl\<close> bytes, to an address above the first megabyte.\<close>

definition fits :: "nat \<Rightarrow> elf32_Phdr \<Rightarrow> bool" where
  "fits fl p \<longleftrightarrow> elf_check_prog_header p \<and> (loads p \<longrightarrow> p_filesz p \<le> p_memsz p \<and> unat (p_offset p) + unat (p_filesz p) \<le> fl \<and>
     0x100000 \<le> unat (p_paddr p) \<and> unat (p_paddr p) + unat (p_memsz p) \<le> 2 ^ 32)"

definition elf_kernel :: "memory \<Rightarrow> nat \<Rightarrow> bool" where
  "elf_kernel F fl \<longleftrightarrow> (let h = ehdr_at F 0; ps = phdrs F in elf_supported h \<and> e_phentsize h = 32 \<and> 52 \<le> fl \<and> 0 < e_phnum h \<and>
     unat (e_phoff h) + 32 * unat (e_phnum h) \<le> fl \<and> (\<forall>p \<in> set ps. fits fl p) \<and> apart ps \<and>
     p_paddr (last ps) + p_memsz (last ps) \<noteq> 0)"

text \<open>The first multiboot header of the file is at offset \<open>4 * k\<close>, in the part that is searched.\<close>

definition first_header :: "memory \<Rightarrow> nat \<Rightarrow> nat \<Rightarrow> bool" where
  "first_header F fl k \<longleftrightarrow> k \<le> 2045 \<and> 4 * k + 12 \<le> fl \<and> valid_header F (4 * of_nat k) \<and> (\<forall>j < k. \<not> valid_header F (4 * of_nat j))"

text \<open>The segments of the file are in place.\<close>

definition kernel_loaded :: "memory \<Rightarrow> memory \<Rightarrow> bool" where
  "kernel_loaded F m \<longleftrightarrow> (\<forall>p \<in> set (phdrs F). loads p \<longrightarrow> (\<forall>k < p_memsz p. m (p_paddr p + k) =
     (if k < p_filesz p then F (p_offset p + k) else 0)))"

section \<open>Reading structures of the file where it stands\<close>

lemma read_bytes_shift: "read_bytes (\<lambda>x. m (P + x)) a n = read_bytes m (P + a) n"
  by (simp add: read_bytes_def add.assoc)

lemma decoders_shift:
  "load16 (\<lambda>x. m (P + x)) a = load16 m (P + a)" "load32 (\<lambda>x. m (P + x)) a = load32 m (P + a)"
  "phdr_at (\<lambda>x. m (P + x)) a = phdr_at m (P + a)" "ehdr_at (\<lambda>x. m (P + x)) a = ehdr_at m (P + a)"
  "multiboot_header_at (\<lambda>x. m (P + x)) a = multiboot_header_at m (P + a)"
  by (simp_all add: phdr_at_def ehdr_at_def multiboot_header_at_def load_defs read_bytes_shift add.assoc)

lemma file_load32:
  assumes "file_at m P F fl" "unat a + 4 \<le> fl" "fl \<le> 2 ^ 32"
  shows "load32 m (P + a) = load32 F a"
proof -
  have "load32 (\<lambda>x. m (P + x)) a = load32 F a"
  proof (rule load32_cong)
    fix k :: u32 assume "k < 4"
    then have "unat (a + k) < fl" using assms(2,3) by (simp add: word_less_nat_alt unat_word_ariths)
    then show "m (P + (a + k)) = F (a + k)" using assms(1) by (simp add: file_at_def)
  qed
  then show ?thesis by (simp add: decoders_shift)
qed

lemma file_ehdr:
  assumes "file_at m P F fl" "52 \<le> fl" "fl \<le> 2 ^ 32"
  shows "ehdr_at m P = ehdr_at F 0"
proof -
  have b: "m (P + x) = F x" if "unat x < 52" for x using assms(1,2) that by (simp add: file_at_def)
  have "read_bytes (\<lambda>x. m (P + x)) 0 16 = read_bytes F 0 16"
    by (rule read_bytes_cong) (use b in \<open>simp add: unat_of_nat\<close>)
  then have "read_bytes m P 16 = read_bytes F 0 16" by (simp add: read_bytes_shift)
  with b [of 0] b show ?thesis by (simp add: ehdr_at_def load_defs add.assoc)
qed

lemma file_phdr:
  assumes "file_at m P F fl" "unat a + 32 \<le> fl" "fl \<le> 2 ^ 32"
  shows "phdr_at m (P + a) = phdr_at F a"
proof -
  have "phdr_at (\<lambda>x. m (P + x)) a = phdr_at F a"
  proof (rule phdr_at_cong)
    fix k :: u32 assume "k < 32"
    then have "unat (a + k) < fl" using assms(2,3) by (simp add: word_less_nat_alt unat_word_ariths)
    then show "m (P + (a + k)) = F (a + k)" using assms(1) by (simp add: file_at_def)
  qed
  then show ?thesis by (simp add: decoders_shift)
qed

lemma file_header:
  assumes "file_at m P F fl" "unat a + 12 \<le> fl" "fl \<le> 2 ^ 32"
  shows "valid_header m (P + a) = valid_header F a" "load32 m (P + a + 4) = load32 F (a + 4)"
proof -
  have u: "unat (a + 4) = unat a + 4" "unat (a + 8) = unat a + 8" using assms(2,3) by (simp_all add: unat_word_ariths)
  note l = file_load32 [OF assms(1), of a] file_load32 [OF assms(1), of "a + 4"] file_load32 [OF assms(1), of "a + 8"]
  then show "load32 m (P + a + 4) = load32 F (a + 4)" using u assms(2,3) by (simp add: add.assoc)
  then show "valid_header m (P + a) = valid_header F a"
    using l u assms(2,3) by (simp add: valid_header_def multiboot_header_at_def Let_def add.assoc)
qed

lemma file_first_header:
  assumes "file_at m P F fl" "first_header F fl k" "fl \<le> 2 ^ 32" "unat P + 8192 \<le> 2 ^ 32"
  shows "multibootHeaderSearch m P n = Some (P + 4 * of_nat k)"
proof -
  have h: "valid_header m (P + 4 * of_nat j) = valid_header F (4 * of_nat j)" if "j \<le> k" for j
    using file_header(1) [OF assms(1), of "4 * of_nat j"] that assms(2,3)
    by (simp add: first_header_def unat_word_ariths unat_of_nat)
  show ?thesis
    using search_found [of m P k 0 n] h assms(2,4) by (simp add: multibootHeaderSearch_def first_header_def)
qed

section \<open>Loading the file\<close>

lemma low_not_framebuffer:
  "t_buffer t = FRAMEBUFFER_LOCATION \<Longrightarrow> unat x < 0xb8000 \<or> 0x100000 \<le> unat x \<Longrightarrow> \<not> in_framebuffer t x"
  using unat_less_2pow [of x]
  by (auto simp: in_framebuffer_def FRAMEBUFFER_LOCATION_def word_less_nat_alt unat_sub_if' split: if_splits)

lemma free_high_screen: "free_high x \<Longrightarrow> t_buffer t = FRAMEBUFFER_LOCATION \<Longrightarrow> \<not> in_framebuffer t x"
  by (simp add: free_high_def in_framebuffer_def)

text \<open>Memory that the loader leaves alone: above its own data, not on the screen, and not in a segment of the kernel.\<close>

definition spared :: "memory \<Rightarrow> u32 \<Rightarrow> bool" where
  "spared F x \<longleftrightarrow> free_high x \<and> (\<forall>p \<in> set (phdrs F). loads p \<longrightarrow> \<not> in_dest p x)"

lemma out_chain_low:
  assumes "term_inv t" "t_buffer t = FRAMEBUFFER_LOCATION" "out_chain os m t xs = (t', m')"
  shows "term_inv t'" "t_buffer t' = FRAMEBUFFER_LOCATION" "unat x < 0xb8000 \<or> 0x100000 \<le> unat x \<Longrightarrow> m' x = m x"
    and "free_high x \<Longrightarrow> m' x = m x"
  using out_chain_frame [OF assms(1,3)] assms(2) low_not_framebuffer free_high_screen by auto

lemma in_dest_high:
  assumes "0x100000 \<le> unat (p_paddr p)" "unat (p_paddr p) + unat (p_memsz p) \<le> 2 ^ 32" "in_dest p x"
  shows "0x100000 \<le> unat x"
  using assms by (auto simp: in_dest_def word_less_nat_alt unat_sub_if' split: if_splits)

lemma file_addr:
  fixes P x :: u32
  assumes "unat P + fl \<le> 0xb8000" "unat x < fl"
  shows "unat (P + x) = unat P + unat x"
  using assms by (simp add: unat_word_ariths)

lemma elf_loads_file:
  assumes "file_at m P F fl" "elf_kernel F fl" "term_inv t" "t_buffer t = FRAMEBUFFER_LOCATION" "unat P + fl \<le> 0xb8000"
  shows "\<exists>t' m'. elf32_load os m t P = Some (p_paddr (last (phdrs F)) + p_memsz (last (phdrs F)), t', m') \<and> kernel_loaded F m' \<and>
    (\<forall>x. unat x < 0xb8000 \<or> spared F x \<longrightarrow> m' x = m x) \<and> term_inv t' \<and> t_buffer t' = FRAMEBUFFER_LOCATION"
proof -
  let ?h = "ehdr_at F 0" and ?fl = "of_nat fl :: u32"
  let ?n = "unat (e_phnum ?h)" and ?ph = "P + e_phoff ?h"
  have k: "e_phentsize ?h = 32" "52 \<le> fl" "0 < ?n" "unat (e_phoff ?h) + 32 * ?n \<le> fl" "\<forall>p \<in> set (phdrs F). fits fl p" "apart (phdrs F)"
    using assms(2) by (auto simp: elf_kernel_def Let_def word_less_nat_alt)
  have fl: "fl < 2 ^ 32" "unat ?fl = fl" using assms(5) by (simp_all add: unat_of_nat)
  have eh: "ehdr_at m P = ?h" using file_ehdr [OF assms(1) k(2)] fl by simp
  have inf: "in_file P ?fl (P + x) \<longleftrightarrow> unat x < fl" for x by (simp add: in_file_def word_less_nat_alt fl)
  have infD: "unat x < 0xb8000" if "in_file P ?fl x" for x
    using inf [of "x - P"] that file_addr [OF assms(5), of "x - P"] assms(5) by simp
  have off: "unat (e_phoff ?h + 32 * of_nat j + x) = unat (e_phoff ?h) + 32 * j + unat x" if "j < ?n" "unat x \<le> 32" for j x
    using that k(4) fl(1) by (simp add: unat_word_ariths unat_of_nat)
  have ps: "phdrs F = map (\<lambda>j. phdr_at m (?ph + 32 * of_nat j)) [0..<?n]"
    unfolding phdrs_def
  proof (rule map_cong [OF refl])
    fix j assume "j \<in> set [0..<?n]"
    then have "unat (e_phoff ?h + 32 * of_nat j) + 32 \<le> fl" using off [of j 0] k(4) by simp
    from file_phdr [OF assms(1) this] fl(1) show "phdr_at F (e_phoff ?h + 32 * of_nat j) = phdr_at m (?ph + 32 * of_nat j)"
      by (simp add: add.assoc)
  qed
  have good: "good_phdr P ?fl t p" if "p \<in> set (phdrs F)" for p
  proof -
    have f: "elf_check_prog_header p" and l: "p_filesz p \<le> p_memsz p" "unat (p_offset p) + unat (p_filesz p) \<le> fl"
        "0x100000 \<le> unat (p_paddr p)" "unat (p_paddr p) + unat (p_memsz p) \<le> 2 ^ 32" if "loads p"
      using k(5) \<open>p \<in> set (phdrs F)\<close> that by (auto simp: fits_def)
    have "elf_check_prog_header p" using k(5) that by (auto simp: fits_def)
    moreover have "in_file P ?fl (P + p_offset p + x)" if "loads p" "x < p_filesz p" for x
      using inf [of "p_offset p + x"] l(2) [OF that(1)] that(2) fl(1)
      by (simp add: add.assoc word_less_nat_alt unat_word_ariths)
    moreover have "\<not> in_file P ?fl x \<and> \<not> in_framebuffer t x" if "loads p" "in_dest p x" for x
      using in_dest_high [OF l(3,4) that(2)] that(1) infD [of x] low_not_framebuffer [OF assms(4), of x] by fastforce
    ultimately show ?thesis using l(1) by (simp add: good_phdr_def)
  qed
  have "unat ?ph = unat P + unat (e_phoff ?h)" using k(3,4) file_addr [OF assms(5), of "e_phoff ?h"] by simp
  then have ub: "unat ?ph + 32 * ?n < 2 ^ 32" using k(4) assms(5) by simp
  have "in_file P ?fl (?ph + 32 * of_nat j + x)" if "j < ?n" "x < 32" for j x
    using inf [of "e_phoff ?h + 32 * of_nat j + x"] off [of j x] that k(4) by (simp add: add.assoc word_less_nat_alt)
  moreover have "in_file P ?fl (P + x)" if "x < 52" for x using inf that k(2) by (simp add: word_less_nat_alt)
  moreover have "\<not> in_framebuffer t x" if "in_file P ?fl x" for x using infD [OF that] low_not_framebuffer [OF assms(4)] by blast
  ultimately obtain t' m' where r: "elf32_load os m t P = Some (p_paddr (last (phdrs F)) + p_memsz (last (phdrs F)), t', m')"
    "\<forall>p \<in> set (phdrs F). loads p \<longrightarrow> seg_content m P p m'"
    "\<forall>x. \<not> in_framebuffer t x \<and> (\<forall>p \<in> set (phdrs F). loads p \<longrightarrow> \<not> in_dest p x) \<longrightarrow> m' x = m x" "term_inv t'" "t_buffer t' = t_buffer t"
    using elf32_load_loads [of t P ?fl m ?n ?ph "phdrs F" os] assms(3) eh k ub ps good by auto
  have "kernel_loaded F m'"
    unfolding kernel_loaded_def
  proof (intro ballI impI allI)
    fix p x assume p: "p \<in> set (phdrs F)" "loads p" "x < p_memsz p"
    have "unat (p_offset p) + unat (p_filesz p) \<le> fl" using k(5) p(1,2) by (auto simp: fits_def)
    then have "m (P + p_offset p + x) = F (p_offset p + x)" if "x < p_filesz p"
      using assms(1) [unfolded file_at_def, rule_format, of "p_offset p + x"] that fl(1)
      by (simp add: add.assoc word_less_nat_alt unat_word_ariths)
    then show "m' (p_paddr p + x) = (if x < p_filesz p then F (p_offset p + x) else 0)"
      using r(2) p by (simp add: seg_content_def)
  qed
  moreover have "m' x = m x" if "spared F x" for x
    using r(3) that free_high_screen [OF _ assms(4)] by (simp add: spared_def)
  moreover have "m' x = m x" if "unat x < 0xb8000" for x
  proof -
    have "\<not> in_dest p x" if "p \<in> set (phdrs F)" "loads p" for p
      using in_dest_high [of p x] k(5) that \<open>unat x < 0xb8000\<close> by (fastforce simp: fits_def)
    then show ?thesis using r(3) low_not_framebuffer [OF assms(4)] that by blast
  qed
  ultimately show ?thesis using r(1,4,5) assms(4) by auto
qed

section \<open>The information structure\<close>

text \<open>What the kernel finds at the address of the information structure: the answers to the flags \<open>f\<close> of its header.\<close>

definition info_ready :: "memory \<Rightarrow> u32 \<Rightarrow> u32 \<Rightarrow> u16 \<Rightarrow> u32 \<Rightarrow> e820 list \<Rightarrow> bool" where
  "info_ready m ret f low dev T \<longleftrightarrow> (let info = multiboot_info_at m ret in ret \<noteq> 0 \<and> mbi_flags info = info_flags f \<and>
     (f AND 1 \<noteq> 0 \<longrightarrow> mem_lower info = ucast low \<and> mem_upper info = 0 \<and> mmap_length info = 24 * of_nat (length T) \<and>
        (\<forall>k < length T. e820_at m (mmap_addr info + 28 * of_nat k) = T ! k)) \<and>
     (f AND 2 \<noteq> 0 \<longrightarrow> boot_device info = dev))"

definition low_same :: "memory \<Rightarrow> memory \<Rightarrow> bool" where
  "low_same m m' \<longleftrightarrow> (\<forall>x. unat x < 0xb8000 \<longrightarrow> m' x = m x)"

lemma low_same_block: "low_same m m' \<Longrightarrow> p + n \<le> 0xb8000 \<Longrightarrow> same_block (p, n) m m'"
  by (auto simp: low_same_def same_block_def unat_of_nat)

lemma info_ready_low:
  assumes "low_same m m'" "unat ret + 120 \<le> 0xb8000" "unat (load32 m (ret + 48)) + 2800 \<le> 0xb8000 \<or> f AND 1 = 0" "length T < 100"
    and "info_ready m ret f low dev T"
  shows "info_ready m' ret f low dev T"
proof -
  have i: "multiboot_info_at m' ret = multiboot_info_at m ret"
  proof (rule multiboot_info_cong)
    fix k :: u32 assume "k < 120"
    then have "unat k < 120" by (simp add: word_less_nat_alt)
    then have "unat (ret + k) < 0xb8000" using assms(2) by (simp add: unat_word_ariths)
    then show "m' (ret + k) = m (ret + k)" using assms(1) by (simp add: low_same_def)
  qed
  have "e820_at m' (load32 m (ret + 48) + 28 * of_nat k) = e820_at m (load32 m (ret + 48) + 28 * of_nat k)"
    if "f AND 1 \<noteq> 0" "k < length T" for k
    using e820_at_same_block [OF low_same_block [OF assms(1)], of "load32 m (ret + 48)" k] that assms(3,4) by simp
  then show ?thesis
    using assms(5) i by (auto simp: info_ready_def Let_def multiboot_info_at_def)
qed

section \<open>From the file to the hand-over\<close>

lemma file_at_block:
  assumes "file_at m P F fl" "same_block (unat P, sz) m m'" "fl \<le> sz"
  shows "file_at m' P F fl"
  using assms same_block_byte [OF assms(2)] by (simp add: file_at_def)

text \<open>Up to the check of the file: the header is found and the information structure is built.\<close>

lemma stage1_load_builds:
  assumes "arena (unat (heap g)) len m L 2952" "unat (heap g) + len \<le> 0x70000" "(unat kf, 12) \<in> L" "P = load32 m (kf + 8)"
    and "(unat P, sz) \<in> L" "fl \<le> sz" "file_at m P F fl" "first_header F fl k"
    and "f = mbh_flags (multiboot_header_at F (4 * of_nat k))" "term_inv t" "t_buffer t = FRAMEBUFFER_LOCATION"
    and "bios_map b15 cont T" "T \<noteq> []" "length T < 100" "e820_type (T ! 0) \<noteq> 0" "low \<noteq> 0"
  shows "\<exists>t1 m2 ret. term_inv t1 \<and> t_buffer t1 = FRAMEBUFFER_LOCATION \<and> file_at m2 P F fl \<and>
    info_ready m2 ret f low (ucast disk) T \<and> unat ret + 120 \<le> 0xb8000 \<and>
    (unat (load32 m2 (ret + 48)) + 2800 \<le> 0xb8000 \<or> f AND 1 = 0) \<and>
    stage1_load (False, low) b15 os g disk t m kf = stage1_elf os t1 m2 P (if f AND 0xfffc = 0 then ret else 0) \<and>
    (\<forall>x. free_high x \<longrightarrow> m2 x = m x)"
proof -
  let ?a = "unat (heap g)"
  have P: "?a + 8 \<le> unat P" "unat P + sz + 8 \<le> ?a + len" using arena_inside [OF assms(1,5)] by simp_all
  have fl: "fl \<le> 2 ^ 32" "unat P + fl \<le> 0xb8000" "unat P + 8192 \<le> 2 ^ 32" using P assms(2,6) by simp_all
  have k: "k \<le> 2045" "4 * k + 12 \<le> fl" using assms(8) by (simp_all add: first_header_def)
  let ?H = "P + 4 * of_nat k"
  have u4: "unat (4 * of_nat k :: u32) = 4 * k" using k(1) by (simp add: unat_word_ariths unat_of_nat)
  have uH: "unat ?H = unat P + 4 * k" using file_addr [OF fl(2), of "4 * of_nat k"] u4 k(2) by simp
  have H0: "?H \<noteq> 0" using uH P(1) by auto
  have search: "multibootHeaderSearch m (load32 m (kf + 8)) (load32 m (kf + 4)) = Some ?H"
    using file_first_header [OF assms(7,8) fl(1,3)] assms(4) by simp
  obtain t1 m1 where c1: "out_chain os m t [Str ''mbHeader = '', Num (uint ?H), Str [CHR 10]] = (t1, m1)" by fastforce
  note o1 = out_chain_low [OF assms(10,11) c1]
  have heap_low: "m1 (of_nat x) = m (of_nat x)" if "?a \<le> x" "x < ?a + len" for x
    using o1(3) [of "of_nat x"] that assms(2) by (simp add: unat_of_nat)
  have ar1: "arena ?a len m1 L 2952" using arena_agree [OF assms(1)] heap_low by blast
  have f1: "file_at m1 P F fl"
    using assms(7) o1(3) file_addr [OF fl(2)] fl(2) by (simp add: file_at_def)
  have flags: "f = load32 m1 (?H + 4)"
    using file_header(2) [OF f1, of "4 * of_nat k"] k(2) fl(1) u4 assms(9) by (simp add: multiboot_header_at_def)
  have len20: "?a + len \<le> 2 ^ 20" using assms(2) by simp
  have inH: "unat P \<le> unat ?H" "unat ?H + 8 \<le> unat P + sz" using uH k(2) assms(6) by simp_all
  obtain ret m2 where b: "buildMultibootInfo (False, low) b15 g m1 ?H (ucast disk) = Some (Inr (if f AND 0xfffc = 0 then ret else 0, m2))"
      "ret \<noteq> 0" "load32 m2 ret = info_flags f"
      "f AND 1 \<noteq> 0 \<longrightarrow> load32 m2 (ret + 4) = ucast low \<and> load32 m2 (ret + 8) = 0 \<and> load32 m2 (ret + 44) = 24 * of_nat (length T)"
      "f AND 2 \<noteq> 0 \<longrightarrow> load32 m2 (ret + 12) = ucast disk" "\<forall>b \<in> L. same_block b m1 m2" "inside_heap g len (unat ret, 120)"
      "f AND 1 \<noteq> 0 \<longrightarrow> map_copied m2 ret T \<and> inside_heap g len (unat (load32 m2 (ret + 48)), 2800)"
      "heap_only ?a len m1 m2"
    using build_info [OF assms(12-16) ar1 len20 assms(5) inH flags, of "ucast disk"] by blast
  have ir: "info_ready m2 ret f low (ucast disk) T"
    using b(2-5,8) by (auto simp: info_ready_def Let_def multiboot_info_at_def map_copied_def)
  have kfs: "unat kf + 12 \<le> 0x70000" using arena_inside [OF assms(1,3)] assms(2) by simp
  then have "unat (kf + 8) = unat kf + 8" by (simp add: unat_word_ariths)
  then have "load32 m2 (kf + 8) = load32 m1 (kf + 8)"
    using load32_same_block [OF bspec [OF b(6) assms(3)], of "kf + 8"] by simp
  also have "\<dots> = P"
    using load32_same_block [OF low_same_block [of m m1 "unat kf" 12], of "kf + 8"] o1(3) kfs \<open>unat (kf + 8) = unat kf + 8\<close> assms(4)
    by (simp add: low_same_def)
  finally have ptr: "load32 m2 (kf + 8) = P" .
  have f2: "file_at m2 P F fl" using file_at_block [OF f1 bspec [OF b(6) assms(5)] assms(6)] .
  have "unat ret + 120 \<le> 0xb8000" "unat (load32 m2 (ret + 48)) + 2800 \<le> 0xb8000 \<or> f AND 1 = 0"
    using b(7,8) assms(2) by (auto simp: inside_heap_def)
  moreover have "stage1_load (False, low) b15 os g disk t m kf = stage1_elf os t1 m2 P (if f AND 0xfffc = 0 then ret else 0)"
    unfolding stage1_load_def search option.case c1 prod.case b(1) sum.case ptr Let_def by (simp only: H0 if_False)
  moreover have "m2 x = m x" if "free_high x" for x
  proof -
    have "m2 (of_nat (unat x)) = m1 (of_nat (unat x))"
      using b(9) that assms(2) unat_less_2pow [of x] unfolding heap_only_def free_high_def by auto
    then show ?thesis using o1(4) [OF that] by simp
  qed
  ultimately show ?thesis using o1(1,2) f2 ir by blast
qed

lemma stage1_load_boots:
  assumes "arena (unat (heap g)) len m L 2952" "unat (heap g) + len \<le> 0x70000" "(unat kf, 12) \<in> L" "P = load32 m (kf + 8)"
    and "(unat P, sz) \<in> L" "fl \<le> sz" "file_at m P F fl" "first_header F fl k"
    and "f = mbh_flags (multiboot_header_at F (4 * of_nat k))" "term_inv t" "t_buffer t = FRAMEBUFFER_LOCATION"
    and "bios_map b15 cont T" "T \<noteq> []" "length T < 100" "e820_type (T ! 0) \<noteq> 0" "low \<noteq> 0"
    and "elf_kernel F fl"
  shows "\<exists>h t' m'. stage1_load (False, low) b15 os g disk t m kf = Some (Inr (h, t', m')) \<and> initAddr h = e_entry (ehdr_at F 0) \<and>
    kernel_loaded F m' \<and> termIndex h = terminal_index t' \<and> term_inv t' \<and>
    (if f AND 0xfffc = 0 then info_ready m' (mbInfo_ptr h) f low (ucast disk) T else mbInfo_ptr h = 0) \<and>
    (\<forall>x. spared F x \<longrightarrow> m' x = m x)"
proof -
  have fl: "fl \<le> 2 ^ 32" "unat P + fl \<le> 0xb8000" "P \<noteq> 0"
    using arena_inside [OF assms(1,5)] assms(2,6) by auto
  obtain t1 m2 ret where o1: "term_inv t1" "t_buffer t1 = FRAMEBUFFER_LOCATION" and f2: "file_at m2 P F fl"
    and ir: "info_ready m2 ret f low (ucast disk) T" and rl: "unat ret + 120 \<le> 0xb8000"
      "unat (load32 m2 (ret + 48)) + 2800 \<le> 0xb8000 \<or> f AND 1 = 0"
    and run: "stage1_load (False, low) b15 os g disk t m kf = stage1_elf os t1 m2 P (if f AND 0xfffc = 0 then ret else 0)"
    and high: "\<forall>x. free_high x \<longrightarrow> m2 x = m x"
    using stage1_load_builds [OF assms(1-16), of disk os] by (elim exE conjE) (rule that)
  have e: "elf_supported (ehdr_at F 0)" "52 \<le> fl" "p_paddr (last (phdrs F)) + p_memsz (last (phdrs F)) \<noteq> 0"
    using assms(17) by (auto simp: elf_kernel_def Let_def)
  have chk: "elf_check_file m2 P" using fl(3) e(1) file_ehdr [OF f2 e(2) fl(1)] by (simp add: elf_check_file_iff)
  obtain t3 m3 where l: "elf32_load os m2 t1 P = Some (p_paddr (last (phdrs F)) + p_memsz (last (phdrs F)), t3, m3)" "kernel_loaded F m3"
      "low_same m2 m3" "term_inv t3" "t_buffer t3 = FRAMEBUFFER_LOCATION" "\<forall>x. spared F x \<longrightarrow> m3 x = m2 x"
    using elf_loads_file [OF f2 assms(17) o1 fl(2), of os] by (auto simp: low_same_def)
  obtain t4 m4 where c4: "out_chain os m3 t3 [Str (''Everything seems to be good, jumping to init'' @ [CHR 10])] = (t4, m4)" by fastforce
  note o4 = out_chain_low [OF l(4,5) c4]
  have low24: "low_same m2 m4" using l(3) o4(3) by (simp add: low_same_def)
  have "file_at m4 P F fl"
    using f2 low24 file_addr [OF fl(2)] fl(2) by (simp add: file_at_def low_same_def)
  then have eh4: "ehdr_at m4 P = ehdr_at F 0" using file_ehdr e(2) fl(1) by blast
  have kl4: "kernel_loaded F m4"
    unfolding kernel_loaded_def
  proof (intro ballI impI allI)
    fix p x assume p: "p \<in> set (phdrs F)" "loads p" "x < p_memsz p"
    have "0x100000 \<le> unat (p_paddr p)" "unat (p_paddr p) + unat (p_memsz p) \<le> 2 ^ 32"
      using p(1,2) assms(17) by (auto simp: elf_kernel_def fits_def Let_def)
    then have "0x100000 \<le> unat (p_paddr p + x)" using in_dest_high [of p "p_paddr p + x"] p(3) by (simp add: in_dest_def)
    then show "m4 (p_paddr p + x) = (if x < p_filesz p then F (p_offset p + x) else 0)"
      using o4(3) l(2) p by (simp add: kernel_loaded_def)
  qed
  have ir4: "info_ready m4 ret f low (ucast disk) T" using info_ready_low [OF low24 rl assms(14) ir] .
  let ?h = "\<lparr>initAddr = e_entry (ehdr_at F 0), mbInfo_ptr = (if f AND 0xfffc = 0 then ret else 0), termIndex = terminal_index t4\<rparr>"
  have "stage1_load (False, low) b15 os g disk t m kf = Some (Inr (?h, t4, m4))"
    unfolding run stage1_elf_def l(1) option.case prod.case c4 using chk e(3) eh4 by simp
  moreover have "\<forall>x. spared F x \<longrightarrow> m4 x = m x"
    using o4(4) l(6) high by (simp add: spared_def)
  ultimately show ?thesis using kl4 ir4 o4(1) by (intro exI [of _ ?h] exI [of _ t4] exI [of _ m4]) simp
qed

section \<open>From the disk to the file in memory\<close>

fun disk_chain :: "image \<Rightarrow> u32 \<Rightarrow> u32 \<Rightarrow> u32 list \<Rightarrow> bool" where
  "disk_chain D LBA c [] \<longleftrightarrow> isClusterEnd c"
| "disk_chain D LBA c (d # ds) \<longleftrightarrow> d = c \<and> \<not> isClusterEnd c \<and> 4 * unat c + 4 \<le> 512 * unat (sectorsPerFAT (disk_bpd D LBA)) \<and>
     disk_chain D LBA (disk_FAT D LBA c) ds"

lemma disk_chain_chain:
  assumes "\<forall>c. 4 * unat c + 4 \<le> n \<longrightarrow> FAT_entry f m c = disk_FAT D LBA c" "n = 512 * unat (sectorsPerFAT (disk_bpd D LBA))"
  shows "disk_chain D LBA c cs \<Longrightarrow> chain f m n c cs"
  using assms by (induction cs arbitrary: c) auto

text \<open>The first sectors of the clusters \<open>cs\<close>, one after the other.\<close>

definition disk_file :: "image \<Rightarrow> u32 \<Rightarrow> u32 list \<Rightarrow> memory" where
  "disk_file D LBA cs = (\<lambda>x. D (512 * unat (disk_cluster_LBA D LBA (cs ! (unat x div 512))) + unat x mod 512))"

text \<open>Entry \<open>i\<close> of the root directory of the volume is the first with the given name, and its data are in the clusters \<open>cs\<close>.\<close>

definition kernel_on_disk :: "image \<Rightarrow> u32 \<Rightarrow> nat \<Rightarrow> nat \<Rightarrow> u8 list \<Rightarrow> nat \<Rightarrow> fat32_dirEntry \<Rightarrow> u32 list \<Rightarrow> bool" where
  "kernel_on_disk D LBA off N name i e cs \<longleftrightarrow> disk_volume D LBA off N \<and> i < N \<and>
     (\<forall>j < i. 0 \<notin> set (entry_name D (off + 32 * j)) \<and> entry_name D (off + 32 * j) \<noteq> name) \<and>
     entry_name D (off + 32 * i) = name \<and> e = disk_entry D (off + 32 * i) \<and>
     disk_chain D LBA (entry_cluster e) cs \<and> 512 * length cs \<le> buffer_size e"

text \<open>The bytes of heap that the loader uses: volume, directory, names, file, result structures and information structure.\<close>

definition boot_heap :: "fat32_BPD \<Rightarrow> nat \<Rightarrow> fat32_dirEntry \<Rightarrow> nat" where
  "boot_heap b i e = 3573 + 512 * unat (sectorsPerFAT b) + cluster_bytes b + 21 * i + buffer_size e"

lemma stage1_finds:
  assumes "bios_reads b13 (ucast dx) D" "getPartitionLBA m = Inr LBA" "kernel_on_disk D LBA off N name i e cs"
    and "0x1010 \<le> unat stop" "unat stop + boot_heap (disk_bpd D LBA) i e \<le> 0x70000"
    and "own_literal stop m lfn [76, 70, 78]" "own_literal stop m kernel_bin name"
  shows "\<exists>g m2 t L kf P. unat (heap g) = unat stop \<and> term_inv t \<and> t_buffer t = FRAMEBUFFER_LOCATION \<and>
    arena (unat (heap g)) (0x70000 - unat stop) m2 L 2952 \<and> (unat kf, 12) \<in> L \<and> P = load32 m2 (kf + 8) \<and>
    (unat P, buffer_size e) \<in> L \<and> load32 m2 (kf + 4) = file_size e \<and> file_at m2 P (disk_file D LBA cs) (512 * length cs) \<and>
    stage1Main b12 b13 b15 lfn kernel_bin os0 f0 m dx stop cursor = stage1_load b12 b15 (os_hex (os_init os0)) g (ucast dx) t m2 kf \<and>
    (\<forall>x. free_high x \<longrightarrow> m2 x = m x)"
proof -
  let ?b = "disk_bpd D LBA" and ?k = "cluster_bytes (disk_bpd D LBA) + 77 + 21 * i + buffer_size e + 2952"
  have d: "disk_volume D LBA off N" "i < N" "\<forall>j < i. 0 \<notin> set (entry_name D (off + 32 * j)) \<and> entry_name D (off + 32 * j) \<noteq> name"
    "entry_name D (off + 32 * i) = name" "e = disk_entry D (off + 32 * i)" "disk_chain D LBA (entry_cluster e) cs" "512 * length cs \<le> buffer_size e"
    using assms(3) unfolding kernel_on_disk_def by blast+
  have st: "unat stop < 0x70000" and budget: "unat stop + 544 + 512 * unat (sectorsPerFAT ?b) + ?k \<le> 0x70000"
    and bs: "buffer_size e < 2 ^ 32"
    using assms(5) by (simp_all add: boot_heap_def)
  from stage1_opens [OF assms(1,2) d(1) assms(4) st budget assms(6,7), of b12 b15 os0 f0 cursor] obtain g f m1 t L
    where s: "unat (heap g) = unat stop" "term_inv t" "t_buffer t = FRAMEBUFFER_LOCATION"
      "arena (unat (heap g)) (0x70000 - unat stop) m1 L ?k" "vbr_bpd (vbr_at m1 (vbr f)) = ?b" "partitionLBA f = LBA"
      "\<forall>c. 4 * unat c + 4 \<le> 512 * unat (sectorsPerFAT ?b) \<longrightarrow> FAT_entry f m1 c = disk_FAT D LBA c"
      "root_ready g (0x70000 - unat stop) m1 L f (512 * unat (sectorsPerFAT ?b)) D off N"
      "literal (unat (heap g)) (0x70000 - unat stop) m1 lfn [76, 70, 78]" "literal (unat (heap g)) (0x70000 - unat stop) m1 kernel_bin name"
      "stage1Main b12 b13 b15 lfn kernel_bin os0 f0 m dx stop cursor =
        (case getRootFile (diskReadFunc b13 (ucast dx)) lfn g m1 f kernel_bin of None \<Rightarrow> None | Some (Inl e) \<Rightarrow> Some (Inl e)
         | Some (Inr (kernelFile, m2)) \<Rightarrow> if load32 m2 kernelFile = 1 then Some (Inl no_kernel_msg)
             else stage1_load b12 b15 (os_hex (os_init os0)) g (ucast dx) t m2 kernelFile)"
      "\<forall>x. free_high x \<longrightarrow> m1 x = m x"
    by (elim exE conjE) (rule that)
  have ch: "chain f m1 (512 * unat (sectorsPerFAT ?b)) (entry_cluster e) cs" using disk_chain_chain [OF s(7) refl d(6)] .
  obtain kf m2 where r: "getRootFile (diskReadFunc b13 (ucast dx)) lfn g m1 f kernel_bin = Some (Inr (kf, m2))" "load32 m2 kf = 0"
      "load32 m2 (kf + 4) = file_size e"
      "\<forall>j < length cs. \<forall>t < 512. m2 (load32 m2 (kf + 8) + of_nat (512 * j + t)) = D (512 * unat (cluster_LBA f ?b (cs ! j)) + t)"
      "file_owned (unat (heap g)) (0x70000 - unat stop) m2 kf (buffer_size e) 2952"
      "\<forall>x. fixed (unat (heap g)) (0x70000 - unat stop) x \<longrightarrow> m2 x = m1 x"
    using bios_disk.getRootFile_finds [of "(b13, ucast dx)" D, OF _ s(8) s(5) [symmetric] s(4) d(2) s(9,10) d(3-5) bs ch d(7)] assms(1) by auto
  have cl: "cluster_LBA f ?b c = disk_cluster_LBA D LBA c" for c
    by (simp add: cluster_LBA_def disk_cluster_LBA_def s(6))
  have "m2 (load32 m2 (kf + 8) + x) = disk_file D LBA cs x" if "unat x < 512 * length cs" for x
  proof -
    have "unat x div 512 < length cs" using that by (simp add: less_mult_imp_div_less mult.commute)
    from r(4) [rule_format, OF this, of "unat x mod 512"]
    have "m2 (load32 m2 (kf + 8) + of_nat (512 * (unat x div 512) + unat x mod 512)) = disk_file D LBA cs x"
      by (simp only: cl disk_file_def mod_less_divisor zero_less_numeral)
    then show ?thesis by (simp only: mult_div_mod_eq of_nat_unat ucast_id)
  qed
  then have fa: "file_at m2 (load32 m2 (kf + 8)) (disk_file D LBA cs) (512 * length cs)" by (simp add: file_at_def)
  have run: "stage1Main b12 b13 b15 lfn kernel_bin os0 f0 m dx stop cursor = stage1_load b12 b15 (os_hex (os_init os0)) g (ucast dx) t m2 kf"
    by (simp add: s(11) r(1,2))
  obtain L2 where "arena (unat (heap g)) (0x70000 - unat stop) m2 L2 2952" "(unat kf, 12) \<in> L2"
    "(unat (load32 m2 (kf + 8)), buffer_size e) \<in> L2"
    using r(5) by (auto simp: file_owned_def)
  moreover have "\<forall>x. free_high x \<longrightarrow> m2 x = m x"
    using free_high_fixed [of _ "unat (heap g)" "0x70000 - unat stop"] s(1,12) r(6) st by simp
  ultimately show ?thesis using s(1-3) r(3) fa run by blast
qed

text \<open>The whole run of the loader, with what the kernel receives and what is left alone.\<close>

lemma stage1_boots:
  assumes "bios_reads b13 (ucast dx) D" "getPartitionLBA m = Inr LBA" "kernel_on_disk D LBA off N name i e cs"
    and "0x1010 \<le> unat stop" "unat stop + boot_heap (disk_bpd D LBA) i e \<le> 0x70000"
    and "own_literal stop m lfn [76, 70, 78]" "own_literal stop m kernel_bin name"
    and "F = disk_file D LBA cs" "elf_kernel F (512 * length cs)" "first_header F (512 * length cs) k"
    and "f = mbh_flags (multiboot_header_at F (4 * of_nat k))"
    and "bios_map b15 cont T" "T \<noteq> []" "length T < 100" "e820_type (T ! 0) \<noteq> 0" "low \<noteq> 0"
  shows "\<exists>h t m'. stage1Main (False, low) b13 b15 lfn kernel_bin os0 f0 m dx stop cursor = Some (Inr (h, t, m')) \<and>
    initAddr h = e_entry (ehdr_at F 0) \<and> kernel_loaded F m' \<and>
    (if f AND 0xfffc = 0 then info_ready m' (mbInfo_ptr h) f low (ucast (ucast dx :: u8)) T else mbInfo_ptr h = 0) \<and>
    termIndex h = terminal_index t \<and> term_inv t \<and> (\<forall>x. spared F x \<longrightarrow> m' x = m x)"
proof -
  obtain g m2 t L kf P where s: "unat (heap g) = unat stop" "term_inv t" "t_buffer t = FRAMEBUFFER_LOCATION"
      "arena (unat (heap g)) (0x70000 - unat stop) m2 L 2952" "(unat kf, 12) \<in> L" "P = load32 m2 (kf + 8)"
      "(unat P, buffer_size e) \<in> L" "file_at m2 P F (512 * length cs)"
      "stage1Main (False, low) b13 b15 lfn kernel_bin os0 f0 m dx stop cursor = stage1_load (False, low) b15 (os_hex (os_init os0)) g (ucast dx) t m2 kf"
      "\<forall>x. free_high x \<longrightarrow> m2 x = m x"
    using stage1_finds [OF assms(1-7), of "(False, low)" b15 os0 f0 cursor] assms(8) by auto
  have top: "unat (heap g) + (0x70000 - unat stop) \<le> 0x70000" using s(1) assms(5) by simp
  have fl: "512 * length cs \<le> buffer_size e" using assms(3) unfolding kernel_on_disk_def by blast
  obtain h t' m' where r: "stage1_load (False, low) b15 (os_hex (os_init os0)) g (ucast dx) t m2 kf = Some (Inr (h, t', m'))"
      "initAddr h = e_entry (ehdr_at F 0)" "kernel_loaded F m'" "termIndex h = terminal_index t'" "term_inv t'"
      "if f AND 0xfffc = 0 then info_ready m' (mbInfo_ptr h) f low (ucast (ucast dx :: u8)) T else mbInfo_ptr h = 0"
      "\<forall>x. spared F x \<longrightarrow> m' x = m2 x"
    using stage1_load_boots [OF s(4) top s(5-7) fl s(8) assms(10,11) s(2,3) assms(12-16,9)] by blast
  have "\<forall>x. spared F x \<longrightarrow> m' x = m x" using r(7) s(10) by (simp add: spared_def)
  with r(1-6) s(9) show ?thesis by auto
qed

section \<open>What the kernel finds\<close>

text \<open>The value that the segments of the file give to a byte of memory.\<close>

definition segment_byte :: "memory \<Rightarrow> u32 \<Rightarrow> u8 \<Rightarrow> bool" where
  "segment_byte F x b \<longleftrightarrow> (\<exists>p \<in> set (phdrs F). loads p \<and> in_dest p x \<and>
     b = (if x - p_paddr p < p_filesz p then F (p_offset p + (x - p_paddr p)) else 0))"

lemma segment_byte_loaded: "segment_byte F x b \<Longrightarrow> kernel_loaded F m \<Longrightarrow> m x = b"
  unfolding segment_byte_def kernel_loaded_def in_dest_def by fastforce

definition segment_cstr :: "memory \<Rightarrow> u32 \<Rightarrow> u8 list \<Rightarrow> bool" where
  "segment_cstr F a xs \<longleftrightarrow> 0 \<notin> set xs \<and> (\<forall>k < length xs. segment_byte F (a + of_nat k) (xs ! k)) \<and> segment_byte F (a + of_nat (length xs)) 0"

lemma segment_cstr_loaded: "segment_cstr F a xs \<Longrightarrow> kernel_loaded F m \<Longrightarrow> cstr m a xs"
  using segment_byte_loaded by (fastforce simp: segment_cstr_def cstr_nth in_set_conv_nth)

text \<open>A word in the segments, from its bytes.\<close>

definition segment_word :: "memory \<Rightarrow> u32 \<Rightarrow> u32 \<Rightarrow> bool" where
  "segment_word F a w \<longleftrightarrow> segment_byte F a (ucast w) \<and> segment_byte F (a + 1) (ucast (drop_bit 8 w)) \<and>
     segment_byte F (a + 2) (ucast (drop_bit 16 w)) \<and> segment_byte F (a + 3) (ucast (drop_bit 24 w))"

lemma segment_word_loaded:
  assumes "segment_word F a w" "kernel_loaded F m"
  shows "load32 m a = w"
proof -
  have b: "m a = ucast w" "m (a + 1) = ucast (drop_bit 8 w)" "m (a + 2) = ucast (drop_bit 16 w)" "m (a + 3) = ucast (drop_bit 24 w)"
    using assms segment_byte_loaded by (auto simp: segment_word_def)
  have u: "(ucast (ucast w :: u16) :: u8) = ucast w" "(ucast (drop_bit 8 (ucast w :: u16)) :: u8) = ucast (drop_bit 8 w)"
    "(ucast (ucast (drop_bit 16 w) :: u16) :: u8) = ucast (drop_bit 16 w)"
    "(ucast (drop_bit 8 (ucast (drop_bit 16 w) :: u16)) :: u8) = ucast (drop_bit 24 w)"
    by (rule bit_word_eqI; auto simp: bit_simps)+
  have "load32 m a = load32 (store32 m a w) a"
  proof (rule load32_cong)
    fix k :: u32 assume "k < 4"
    then have "k = 0 \<or> k = 1 \<or> k = 2 \<or> k = 3" by (auto simp: word_less_nat_alt word_unat_eq_iff)
    then show "m (a + k) = store32 m a w (a + k)" using b by (auto simp: store_defs u)
  qed
  then show ?thesis by (simp add: load32_store32)
qed

lemma search_area_spared:
  assumes "elf_kernel F fl" "search_area x"
  shows "spared F x"
proof -
  have "\<not> in_dest p x" if "p \<in> set (phdrs F)" "loads p" for p
  proof
    assume "in_dest p x"
    then have "0x100000 \<le> unat x" using in_dest_high [of p x] assms(1) that by (auto simp: elf_kernel_def fits_def Let_def)
    with assms(2) show False by (auto simp: search_area_def)
  qed
  moreover have "free_high x" using assms(2)
    by (auto simp: search_area_def free_high_def FRAMEBUFFER_LOCATION_def word_less_nat_alt unat_sub_if')
  ultimately show ?thesis by (simp add: spared_def)
qed

text \<open>
  A machine on which the kernel of the file can start: the memory has ACPI tables with an I/O APIC that neither loading nor the start of the kernel touches,
  the image holds the constant \<open>APIC\<close> and, in entry \<open>0x34\<close> of its table of stubs, the address of the stub for that vector, its temporary heap is above the first megabyte, and the bytes \<open>stack\<close> that
  the entry code of the kernel writes before it calls \<open>kmain\<close> are apart from these.
\<close>

definition kernel_machine :: "memory \<Rightarrow> memory \<Rightarrow> kernel_image \<Rightarrow> u32 set \<Rightarrow> acpi_header \<Rightarrow> u32 \<Rightarrow> (u8 \<times> u8) list \<Rightarrow> u32 \<Rightarrow> bool" where
  "kernel_machine F m img stack h madt es stub \<longleftrightarrow> acpi_tables m h madt es \<and> first_type1 (madt + 44) es \<noteq> 0 \<and>
     segment_cstr F (apic_name img) [65, 80, 73, 67] \<and> (\<forall>x \<in> acpi_bytes m h madt es. spared F x) \<and>
     (\<forall>x \<in> acpi_bytes m h madt es \<union> area (apic_name img) 5. untouched_before_acpi img x \<and> x \<notin> stack) \<and>
     segment_word F (test_interrupt_entry img) stub \<and> stub_at img stub = Some 0x34 \<and> test_interrupt_safe img \<and>
     (\<forall>x \<in> area (test_interrupt_entry img) 4. x \<notin> stack) \<and>
     0x100000 \<le> unat (endSymbol img) \<and> unat (endSymbol img) + 4096 \<le> 2 ^ 32 \<and> (\<forall>x \<in> stack. 0x100000 \<le> unat x)"

lemma kernel_machine_found:
  assumes "kernel_machine F m img stack h madt es stub" "elf_kernel F fl" "kernel_loaded F m1" "\<forall>x. spared F x \<longrightarrow> m1 x = m x"
    and "\<forall>x. x \<notin> stack \<longrightarrow> m2 x = m1 x"
  shows "acpi_found img m2 h madt (first_type1 (madt + 44) es)" and "stub_at img (load32 m2 (test_interrupt_entry img)) = Some 0x34"
proof -
  note k = assms(1) [unfolded kernel_machine_def]
  have "m2 x = m x" if "x \<in> acpi_bytes m h madt es" for x using k that assms(4,5) by auto
  moreover have "m2 x = m x" if "search_area x" for x
  proof -
    have "x \<notin> stack" using k that by (auto simp: search_area_def)
    then show ?thesis using assms(4,5) search_area_spared [OF assms(2) that] by auto
  qed
  ultimately have t: "acpi_tables m2 h madt es" "acpi_bytes m2 h madt es = acpi_bytes m h madt es"
    using acpi_tables_same [of m h madt es m2] k by blast+
  have "cstr m1 (apic_name img) [65, 80, 73, 67]" using segment_cstr_loaded [OF _ assms(3)] k by blast
  then have c: "cstr m2 (apic_name img) [65, 80, 73, 67]"
  proof (rule cstr_area)
    have "Suc (length [65, 80, 73, 67 :: u8]) = 5" by simp
    then show "\<forall>x \<in> area (apic_name img) (Suc (length [65, 80, 73, 67 :: u8])). m2 x = m1 x"
      using k assms(5) by (simp only:) blast
  qed
  show "acpi_found img m2 h madt (first_type1 (madt + 44) es)" by (rule acpi_tables_acpi_found [OF t(1) c]) (use k t(2) in auto)
  have "\<forall>x \<in> area (test_interrupt_entry img) 4. m2 x = m1 x" using k assms(5) by blast
  then have "load32 m2 (test_interrupt_entry img) = load32 m1 (test_interrupt_entry img)"
    using area_load(1) [of "test_interrupt_entry img" 4 m2 m1 0] by simp
  also have "\<dots> = stub" using segment_word_loaded [OF _ assms(3)] k by blast
  finally show "stub_at img (load32 m2 (test_interrupt_entry img)) = Some 0x34" using k by simp
qed

section \<open>Files that are refused\<close>

definition no_header :: "memory \<Rightarrow> nat \<Rightarrow> bool" where
  "no_header F fl \<longleftrightarrow> 8192 \<le> fl \<and> (\<forall>j < 2046. \<not> valid_header F (4 * of_nat j))"

lemma stage1_load_no_header:
  assumes "arena (unat (heap g)) len m L k" "unat (heap g) + len \<le> 0x70000" "P = load32 m (kf + 8)" "(unat P, buffer_size e) \<in> L"
    and "load32 m (kf + 4) = file_size e" "8184 < unat (file_size e)" "file_at m P F fl" "fl \<le> buffer_size e" "no_header F fl"
  shows "stage1_load b12 b15 os g disk t m kf = Some (Inl no_mbHeader_msg)"
proof -
  have P: "unat P + buffer_size e \<le> 0x70000" using arena_inside [OF assms(1,4)] assms(2) by simp
  have "unat (file_size e) < buffer_size e" by (simp add: buffer_size_def)
  then have n: "unat P + unat (file_size e) < 2 ^ 32" "unat P + 8192 \<le> 2 ^ 32" using P by simp_all
  have "\<not> valid_header m (P + 4 * of_nat j)" if "j < 2046" for j
    using file_header(1) [OF assms(7), of "4 * of_nat j"] that assms(8,9) P
    by (simp add: no_header_def unat_word_ariths unat_of_nat)
  then have "multibootHeaderSearch m P (file_size e) = Some 0"
    using search_not_found [OF _ n(2) _ n(1) assms(6), of m 0] by (simp add: multibootHeaderSearch_def)
  then show ?thesis using assms(3,5) by (simp add: stage1_load_def split: prod.split)
qed

lemma first_header_ehdr:
  assumes "first_header F (512 * n) k" "file_at m P F (512 * n)" "512 * n \<le> 2 ^ 32" "\<not> elf_supported (ehdr_at F 0)"
  shows "\<not> elf_check_file m P"
proof -
  have "52 \<le> 512 * n" using assms(1) by (cases n) (auto simp: first_header_def)
  then show ?thesis using file_ehdr [OF assms(2) _ assms(3)] assms(4) by (simp add: elf_check_file_iff)
qed

section \<open>Handing over the screen\<close>

lemma handoff_cursor:
  assumes "term_inv t"
  shows "t_row (kmain_cursor new_terminal (terminal_index t)) = t_row t"
    and "t_column (kmain_cursor new_terminal (terminal_index t)) = t_column t"
proof -
  let ?r = "unat (t_row t)" and ?c = "unat (t_column t)" and ?i = "terminal_index t"
  have b: "?r < 25" "?c < 80" using assms by (auto simp: term_inv_def)
  have i: "unat ?i = 80 * ?r + ?c"
    using b by (simp add: terminal_index_def unat_word_ariths unat_ucast_up mult.commute)
  let ?row = "ucast (?i div vga_width) :: u8"
  have row: "unat ?row = ?r"
  proof -
    have "unat (?i div vga_width) = ?r" using i b by (simp add: unat_div)
    then show ?thesis using b by (simp add: unat_ucast_small)
  qed
  let ?col = "ucast (?i - ucast ?row * vga_width) :: u8"
  have col: "unat ?col = ?c"
  proof -
    have "unat (ucast ?row * vga_width :: u32) = 80 * ?r"
      using row b by (simp add: unat_word_ariths unat_ucast_up mult.commute)
    then have "unat (?i - ucast ?row * vga_width) = ?c" using i by (simp add: unat_sub_if')
    then show ?thesis using b by (simp add: unat_ucast_small)
  qed
  have "\<not> vga_height \<le> ucast ?row" "\<not> vga_width \<le> ucast ?col"
    using row col b by (simp_all add: word_le_nat_alt unat_ucast_up)
  moreover have "ucast ?row = t_row t" "ucast ?col = t_column t"
    using row col by (simp_all add: word_unat_eq_iff unat_ucast_up)
  ultimately have "kmain_cursor new_terminal ?i = new_terminal\<lparr>t_row := t_row t, t_column := t_column t\<rparr>"
    by (simp add: kmain_cursor_def setCursor_def Let_def)
  then show "t_row (kmain_cursor new_terminal ?i) = t_row t" "t_column (kmain_cursor new_terminal ?i) = t_column t" by simp_all
qed

section \<open>A small disk with a kernel\<close>

text \<open>A volume at sector 0 with the file \<open>KERNEL.BIN\<close> in the clusters 3 to 5: an ELF file whose one segment is the whole file, for address \<open>0x100000\<close>, and zeros after it. It has a multiboot
  header at offset 84 that asks for memory information and the boot device, code at 100, the constant \<open>APIC\<close> at 104 and
  from 512 on the table of the stubs, which start at \<open>0x101000\<close>. The first byte of the file is \<open>b\<close>, which is \<open>0x7F\<close> in an ELF file.\<close>

definition boot_disk :: "u8 \<Rightarrow> image" where
  "boot_disk b x =
     (if x < 512 then ((\<lambda>_. 0)(12 := 2, 13 := 1, 14 := 1, 16 := 1, 36 := 1, 44 := 2)) x
      else if x < 1024 then ((\<lambda>_. 0)(520 := 0xFF, 521 := 0xFF, 522 := 0xFF, 523 := 0x0F, 524 := 4, 528 := 5,
        532 := 0xFF, 533 := 0xFF, 534 := 0xFF, 535 := 0x0F)) x
      else if x < 1536 then ((\<lambda>_. 0)(1024 := 75, 1025 := 69, 1026 := 82, 1027 := 78, 1028 := 69, 1029 := 76, 1030 := 32, 1031 := 32,
        1032 := 66, 1033 := 73, 1034 := 78, 1035 := 0x20, 1050 := 3, 1053 := 6)) x
      else if x < 1552 then ((\<lambda>_. 0)(1536 := b, 1537 := 0x45, 1538 := 0x4C, 1539 := 0x46, 1540 := 1, 1541 := 1, 1542 := 1)) x
      else if x < 1588 then ((\<lambda>_. 0)(1552 := 2, 1554 := 3, 1560 := 0x64, 1562 := 0x10, 1564 := 52, 1578 := 32, 1580 := 1)) x
      else if x < 1620 then ((\<lambda>_. 0)(1588 := 1, 1602 := 0x10, 1605 := 6, 1609 := 0x20)) x
      else if x < 2048 then ((\<lambda>_. 0)(1620 := 0x02, 1621 := 0xB0, 1622 := 0xAD, 1623 := 0x1B, 1624 := 3, 1628 := 0xFB, 1629 := 0x4F, 1630 := 0x52,
        1631 := 0xE4, 1636 := 0xFA, 1637 := 0xF4, 1638 := 0xEB, 1639 := 0xFD, 1640 := 65, 1641 := 80, 1642 := 73, 1643 := 67)) x
      else if x < 3072 then stub_table_byte 0x101000 (of_nat (x - 2048))
      else 0)"

text \<open>The machine: the boot record with its active partition, the constants of the loader, and the ACPI tables of \<open>acpi_rom\<close>.\<close>

definition boot_memory :: memory where
  "boot_memory = acpi_rom(0x9be := 0x80, 0x2000 := 76, 0x2001 := 70, 0x2002 := 78,
     0x2010 := 75, 0x2011 := 69, 0x2012 := 82, 0x2013 := 78, 0x2014 := 69, 0x2015 := 76, 0x2016 := 46, 0x2017 := 66, 0x2018 := 73, 0x2019 := 78)"

definition kernel_name :: "u8 list" where
  "kernel_name = [75, 69, 82, 78, 69, 76, 46, 66, 73, 78]"

definition boot_file :: "u8 \<Rightarrow> memory" where
  "boot_file b = disk_file (boot_disk b) 0 [3, 4, 5]"

lemma boot_bpd:
  "bytesPerSector (disk_bpd (boot_disk b) 0) = 512" "sectorsPerCluster (disk_bpd (boot_disk b) 0) = 1" "reservedSectors (disk_bpd (boot_disk b) 0) = 1"
  "numberOfFATs (disk_bpd (boot_disk b) 0) = 1" "sectorsPerFAT (disk_bpd (boot_disk b) 0) = 1" "clusterNumberRoot (disk_bpd (boot_disk b) 0) = 2"
  by (simp_all add: disk_bpd_def vbr_at_def bpd_at_def load_defs disk_mem_def boot_disk_def)

lemma boot_FAT: "disk_FAT (boot_disk b) 0 2 = 0xFFFFFFF" "disk_FAT (boot_disk b) 0 3 = 4" "disk_FAT (boot_disk b) 0 4 = 5"
  "disk_FAT (boot_disk b) 0 5 = 0xFFFFFFF"
  unfolding disk_FAT_def boot_bpd by (simp_all add: load_defs disk_mem_def boot_disk_def clusterMask_def)

lemma boot_entry:
  "entry_name (boot_disk b) 1024 = kernel_name" "entry_cluster (disk_entry (boot_disk b) 1024) = 3" "file_size (disk_entry (boot_disk b) 1024) = 1536"
  by (simp_all add: entry_name_def fat_name_def read_bytes_def upt_rec disk_mem_def boot_disk_def kernel_name_def
      entry_cluster_def disk_entry_def dirEntry_at_def load_defs)

lemma boot_kernel: "kernel_on_disk (boot_disk b) 0 1024 1 kernel_name 0 (disk_entry (boot_disk b) 1024) [3, 4, 5]"
proof -
  have "disk_dir (boot_disk b) 1024 512 1" by (simp add: disk_dir_def boot_disk_def)
  then have "disk_volume (boot_disk b) 0 1024 1"
    by (simp add: disk_volume_def Let_def boot_bpd boot_FAT disk_cluster_LBA_def firstDataSector_def isClusterEnd_def cluster_bytes_def)
  then show ?thesis
    by (simp add: kernel_on_disk_def boot_entry boot_FAT boot_bpd buffer_size_def isClusterEnd_def)
qed

lemma boot_file_byte:
  assumes "unat x < 1536"
  shows "boot_file b x = boot_disk b (1536 + unat x)"
proof -
  have l: "disk_cluster_LBA (boot_disk b) 0 c = c" for c
    by (simp add: disk_cluster_LBA_def boot_bpd firstDataSector_def)
  have "unat x div 512 < 3" using assms by simp
  then have "unat x div 512 = 0 \<or> unat x div 512 = 1 \<or> unat x div 512 = 2" by linarith
  then have "unat ([3, 4, 5 :: u32] ! (unat x div 512)) = 3 + unat x div 512" by (elim disjE) simp_all
  moreover have "512 * (3 + unat x div 512) + unat x mod 512 = 1536 + unat x" by simp
  ultimately show ?thesis by (simp add: boot_file_def disk_file_def l add.commute)
qed

lemma boot_file_elf: "elf_kernel (boot_file 0x7F) 1536" "e_entry (ehdr_at (boot_file 0x7F) 0) = 0x100064"
  "phdrs (boot_file 0x7F) = [\<lparr>p_type = 1, p_offset = 0, p_vaddr = 0, p_paddr = 0x100000, p_filesz = 0x600, p_memsz = 0x2000, p_flags = 0, p_align = 0\<rparr>]"
proof -
  let ?p = "\<lparr>p_type = 1, p_offset = 0, p_vaddr = 0, p_paddr = 0x100000, p_filesz = 0x600, p_memsz = 0x2000, p_flags = 0, p_align = 0\<rparr>"
  have h: "e_phoff (ehdr_at (boot_file 0x7F) 0) = 52" "e_phnum (ehdr_at (boot_file 0x7F) 0) = 1" "e_phentsize (ehdr_at (boot_file 0x7F) 0) = 32"
    by (simp_all add: ehdr_at_def load_defs boot_file_byte boot_disk_def)
  have "phdr_at (boot_file 0x7F) 52 = ?p" by (simp add: phdr_at_def load_defs boot_file_byte boot_disk_def)
  then show p: "phdrs (boot_file 0x7F) = [?p]" by (simp add: phdrs_def h)
  have "elf_supported (ehdr_at (boot_file 0x7F) 0)"
    by (simp add: elf_supported_def ehdr_at_def load_defs read_bytes_def upt_rec boot_file_byte boot_disk_def ELFMAG_def)
  then show "elf_kernel (boot_file 0x7F) 1536"
    by (simp add: elf_kernel_def h p Let_def fits_def elf_check_prog_header_def loads_def)
  show "e_entry (ehdr_at (boot_file 0x7F) 0) = 0x100064" by (simp add: ehdr_at_def load_defs boot_file_byte boot_disk_def)
qed

lemma valid_header_byte:
  assumes "valid_header F a"
  shows "F (a + 1) = 0xB0"
proof -
  have "F (a + 1) = ucast (drop_bit 8 (load32 F a))"
    by (rule bit_word_eqI) (auto simp: load_defs bit_simps dest: bit_imp_le_length)
  also have "\<dots> = 0xB0" using assms by (simp add: valid_header_def Let_def multiboot_header_at_def MULTIBOOT_MAGIC_def)
  finally show ?thesis .
qed

lemma boot_file_header:
  assumes "b \<in> {0, 0x7F}"
  shows "first_header (boot_file b) 1536 21" "mbh_flags (multiboot_header_at (boot_file b) 84) = 3"
proof -
  have "\<forall>j < 21. boot_file b (4 * of_nat j + 1) \<noteq> 0xB0"
    by (simp add: numeral_eq_Suc All_less_Suc) (simp add: boot_file_byte boot_disk_def)
  then have "\<forall>j < 21. \<not> valid_header (boot_file b) (4 * of_nat j)" using valid_header_byte by blast
  moreover have "valid_header (boot_file b) 84"
    by (simp add: valid_header_def multiboot_header_at_def load_defs boot_file_byte boot_disk_def MULTIBOOT_MAGIC_def Let_def)
  ultimately show "first_header (boot_file b) 1536 21" by (simp add: first_header_def)
  show "mbh_flags (multiboot_header_at (boot_file b) 84) = 3" by (simp add: multiboot_header_at_def load_defs boot_file_byte boot_disk_def)
qed

definition boot_image :: kernel_image where
  "boot_image = \<lparr>endSymbol = 0x107000, apic_name = 0x100068, idt_table = 0x102000, stub_table = 0x100200, tempNum_buf = 0x102800,
     stub_at = stubs_from 0x101000\<rparr>"

definition boot_stack :: "u32 set" where
  "boot_stack = {x. 0x103000 \<le> unat x \<and> unat x < 0x107000}"

lemma boot_stubs:
  "segment_word (boot_file 0x7F) (test_interrupt_entry boot_image) 0x101340" "stub_at boot_image 0x101340 = Some 0x34" "test_interrupt_safe boot_image"
  "x \<in> area (test_interrupt_entry boot_image) 4 \<Longrightarrow> x \<notin> boot_stack"
proof -
  have e: "test_interrupt_entry boot_image = 0x1002d0" by (simp add: test_interrupt_entry_def boot_image_def)
  have seg: "segment_byte (boot_file 0x7F) x (boot_file 0x7F (x - 0x100000))" if "x - 0x100000 < 0x600" for x
  proof -
    have "x - 0x100000 < 0x2000" using that by (auto dest: order_less_trans [of _ "0x600" "0x2000"])
    then show ?thesis using that by (simp add: segment_byte_def boot_file_elf(3) loads_def in_dest_def)
  qed
  show "segment_word (boot_file 0x7F) (test_interrupt_entry boot_image) 0x101340"
    using seg [of "0x1002d0"] seg [of "0x1002d1"] seg [of "0x1002d2"] seg [of "0x1002d3"]
    by (simp add: segment_word_def e boot_file_byte boot_disk_def stub_table_byte_def)
  show "stub_at boot_image 0x101340 = Some 0x34" by (simp add: boot_image_def stubs_from_def)
  have a: "x = 0x1002d0 \<or> x = 0x1002d1 \<or> x = 0x1002d2 \<or> x = 0x1002d3" if "x \<in> area (test_interrupt_entry boot_image) 4" for x
    using area_4 [OF that] by (simp add: e)
  show "x \<notin> boot_stack" if "x \<in> area (test_interrupt_entry boot_image) 4" using a [OF that] by (auto simp: boot_stack_def)
  show "test_interrupt_safe boot_image"
    unfolding test_interrupt_safe_def
  proof (intro conjI ballI allI impI)
    show "sep (idt_table boot_image) 0x800 (stub_table boot_image) 0x400" by (simp add: boot_image_def sep_def word_le_nat_alt)
    fix x assume "x \<in> area (test_interrupt_entry boot_image) 4"
    from a [OF this] show "untouched_before_acpi boot_image x" "x AND 0xfff \<noteq> 0x3c0" "x AND 0xfff \<noteq> 0x3c1"
      by (auto simp: untouched_before_acpi_def boot_image_def FRAMEBUFFER_LOCATION_def)
  next
    fix x assume "x - (idt_table boot_image + 8 * 0x34) < 8"
    then show "\<not> x - FRAMEBUFFER_LOCATION < 4000"
      by (auto simp: boot_image_def FRAMEBUFFER_LOCATION_def word_less_nat_alt unat_sub_if' split: if_splits)
  qed
qed

lemma boot_machine: "kernel_machine (boot_file 0x7F) boot_memory boot_image boot_stack rom_header 0xe2000 [(1, 12)] 0x101340"
proof -
  let ?F = "boot_file 0x7F" and ?b = "acpi_bytes boot_memory rom_header 0xe2000 [(1, 12)]"
  have "boot_memory x = acpi_rom x" if "search_area x" for x using that by (auto simp: boot_memory_def search_area_def)
  note rom = acpi_rom_tables [OF this]
  have bytes: "search_area x" "untouched_before_acpi boot_image x" "x \<notin> boot_stack" if "x \<in> ?b" for x
    using acpi_rom_bytes [of x] acpi_rom_untouched [of x boot_image] that rom(2)
    by (auto simp: search_area_def boot_image_def boot_stack_def)
  have name: "untouched_before_acpi boot_image x \<and> x \<notin> boot_stack" if "x \<in> area (apic_name boot_image) 5" for x
    using that by (auto simp: area_def untouched_before_acpi_def boot_image_def boot_stack_def FRAMEBUFFER_LOCATION_def
        word_less_nat_alt unat_sub_if' unat_word_ariths unat_of_nat)
  have seg: "\<And>x. x - 0x100000 < 0x600 \<Longrightarrow> x - 0x100000 < 0x2000 \<Longrightarrow> segment_byte ?F x (?F (x - 0x100000))"
    by (simp add: segment_byte_def boot_file_elf(3) loads_def in_dest_def)
  have "segment_byte ?F 0x100068 65" "segment_byte ?F 0x100069 80" "segment_byte ?F 0x10006a 73" "segment_byte ?F 0x10006b 67" "segment_byte ?F 0x10006c 0"
    using seg [of "0x100068"] seg [of "0x100069"] seg [of "0x10006a"] seg [of "0x10006b"] seg [of "0x10006c"] by (simp_all add: boot_file_byte boot_disk_def)
  then have "segment_cstr ?F (apic_name boot_image) [65, 80, 73, 67]"
    by (auto simp: segment_cstr_def boot_image_def less_Suc_eq)
  moreover have "spared ?F x" if "x \<in> ?b" for x using search_area_spared [OF boot_file_elf(1) bytes(1) [OF that]] .
  moreover have "first_type1 (0xe2000 + 44) [(1, 12)] \<noteq> 0" by simp
  moreover have "0x100000 \<le> unat (endSymbol boot_image)" "unat (endSymbol boot_image) + 4096 \<le> 2 ^ 32" "\<forall>x \<in> boot_stack. 0x100000 \<le> unat x"
    by (auto simp: boot_image_def boot_stack_def)
  ultimately show ?thesis
    using rom(1) bytes(2,3) name boot_stubs unfolding kernel_machine_def by blast
qed

lemma bad_file: "\<not> elf_supported (ehdr_at (boot_file 0) 0)"
  by (simp add: elf_supported_def ehdr_at_def read_bytes_def upt_rec boot_file_byte boot_disk_def ELFMAG_def)

lemma boot_room: "unat (0x8000 :: u32) + boot_heap (disk_bpd (boot_disk b) 0) 0 (disk_entry (boot_disk b) 1024) \<le> 0x70000"
  by (simp add: boot_heap_def boot_bpd boot_entry buffer_size_def cluster_bytes_def)

lemma boot_names: "own_literal 0x8000 boot_memory 0x2000 [76, 70, 78]" "own_literal 0x8000 boot_memory 0x2010 kernel_name"
  by (auto simp: own_literal_def boot_memory_def acpi_rom_def own_data_def kernel_name_def le_Suc_eq)

lemma boot_partition: "getPartitionLBA boot_memory = Inr 0"
  by (simp add: getPartitionLBA_def final_mbr_address_def getPartitionLBA_loop.simps partition_at_def boot_memory_def acpi_rom_def load_defs)

lemma one_region_map: "bios_map one_region_bios (\<lambda>k. if k = 0 then 0 else 1) [one_region]"
  by (simp add: bios_map_def one_region_bios_def)

text \<open>A volume like this one whose file, in the clusters 3 to 18, is 8192 zeros.\<close>

definition zero_disk :: image where
  "zero_disk x =
     (if x < 512 then ((\<lambda>_. 0)(12 := 2, 13 := 1, 14 := 1, 16 := 1, 36 := 1, 44 := 2)) x
      else if x < 1024 then
        (if 524 \<le> x \<and> x < 584 \<and> x mod 4 = 0 then of_nat (x div 4 - 127)
         else ((\<lambda>_. 0)(520 := 0xFF, 521 := 0xFF, 522 := 0xFF, 523 := 0x0F, 584 := 0xFF, 585 := 0xFF, 586 := 0xFF, 587 := 0x0F)) x)
      else if x < 1536 then ((\<lambda>_. 0)(1024 := 75, 1025 := 69, 1026 := 82, 1027 := 78, 1028 := 69, 1029 := 76, 1030 := 32, 1031 := 32,
        1032 := 66, 1033 := 73, 1034 := 78, 1035 := 0x20, 1050 := 3, 1053 := 0x20)) x
      else 0)"

definition zero_clusters :: "u32 list" where
  "zero_clusters = [3, 4, 5, 6, 7, 8, 9, 10, 11, 12, 13, 14, 15, 16, 17, 18]"

lemma zero_bpd:
  "bytesPerSector (disk_bpd zero_disk 0) = 512" "sectorsPerCluster (disk_bpd zero_disk 0) = 1" "reservedSectors (disk_bpd zero_disk 0) = 1"
  "numberOfFATs (disk_bpd zero_disk 0) = 1" "sectorsPerFAT (disk_bpd zero_disk 0) = 1" "clusterNumberRoot (disk_bpd zero_disk 0) = 2"
  by (simp_all add: disk_bpd_def vbr_at_def bpd_at_def load_defs disk_mem_def zero_disk_def)

lemma zero_FAT:
  "disk_FAT zero_disk 0 2 = 0xFFFFFFF" "disk_FAT zero_disk 0 3 = 4" "disk_FAT zero_disk 0 4 = 5" "disk_FAT zero_disk 0 5 = 6"
  "disk_FAT zero_disk 0 6 = 7" "disk_FAT zero_disk 0 7 = 8" "disk_FAT zero_disk 0 8 = 9" "disk_FAT zero_disk 0 9 = 10"
  "disk_FAT zero_disk 0 10 = 11" "disk_FAT zero_disk 0 11 = 12" "disk_FAT zero_disk 0 12 = 13" "disk_FAT zero_disk 0 13 = 14"
  "disk_FAT zero_disk 0 14 = 15" "disk_FAT zero_disk 0 15 = 16" "disk_FAT zero_disk 0 16 = 17" "disk_FAT zero_disk 0 17 = 18"
  "disk_FAT zero_disk 0 18 = 0xFFFFFFF"
  unfolding disk_FAT_def zero_bpd by (simp_all add: load_defs disk_mem_def zero_disk_def clusterMask_def)

lemma zero_entry:
  "entry_name zero_disk 1024 = kernel_name" "entry_cluster (disk_entry zero_disk 1024) = 3" "file_size (disk_entry zero_disk 1024) = 8192"
  by (simp_all add: entry_name_def fat_name_def read_bytes_def upt_rec disk_mem_def zero_disk_def kernel_name_def
      entry_cluster_def disk_entry_def dirEntry_at_def load_defs)

lemma zero_kernel: "kernel_on_disk zero_disk 0 1024 1 kernel_name 0 (disk_entry zero_disk 1024) zero_clusters"
proof -
  have "disk_dir zero_disk 1024 512 1" by (simp add: disk_dir_def zero_disk_def)
  then have "disk_volume zero_disk 0 1024 1"
    by (simp add: disk_volume_def Let_def zero_bpd zero_FAT disk_cluster_LBA_def firstDataSector_def isClusterEnd_def cluster_bytes_def)
  then show ?thesis
    by (simp add: kernel_on_disk_def zero_entry zero_FAT zero_bpd buffer_size_def isClusterEnd_def zero_clusters_def)
qed

lemma zero_no_header: "no_header (disk_file zero_disk 0 zero_clusters) (512 * length zero_clusters)"
proof -
  have l: "disk_cluster_LBA zero_disk 0 c = c" for c by (simp add: disk_cluster_LBA_def zero_bpd firstDataSector_def)
  have "\<forall>c \<in> set zero_clusters. 3 \<le> unat c" by (simp add: zero_clusters_def)
  moreover have "length zero_clusters = 16" by (simp add: zero_clusters_def)
  ultimately have c: "3 \<le> unat (zero_clusters ! i)" if "i < 16" for i using that by simp
  have z: "zero_disk n = 0" if "1536 \<le> n" for n using that by (simp add: zero_disk_def)
  have byte: "disk_file zero_disk 0 zero_clusters x = 0" if "unat x < 8192" for x
  proof -
    have "unat x div 512 < 16" using that by simp
    from c [OF this] have "1536 \<le> 512 * unat (zero_clusters ! (unat x div 512)) + unat x mod 512" by linarith
    from z [OF this] show ?thesis by (simp only: disk_file_def l)
  qed
  have "\<not> valid_header (disk_file zero_disk 0 zero_clusters) (4 * of_nat j)" if "j < 2046" for j
  proof
    assume "valid_header (disk_file zero_disk 0 zero_clusters) (4 * of_nat j)"
    from valid_header_byte [OF this] byte [of "4 * of_nat j + 1"] that show False by (simp add: unat_word_ariths unat_of_nat)
  qed
  then show ?thesis by (simp add: no_header_def zero_clusters_def)
qed

lemma zero_room: "unat (0x8000 :: u32) + boot_heap (disk_bpd zero_disk 0) 0 (disk_entry zero_disk 1024) \<le> 0x70000"
  by (simp add: boot_heap_def zero_bpd zero_entry buffer_size_def cluster_bytes_def)

end
