(* ===== verification/Cells.thy ===== *)
theory Cells
  imports Terminal
begin

text \<open>
  What is on the screen: every cell holds a character that \<open>putchar\<close> accepts, in colours that were set. The sixteen colours
  are an instance of the class \<open>enum\<close>, so statements about all colours are checked by evaluation.
\<close>

section \<open>The colours\<close>

instantiation vga_color :: enum
begin

definition enum_vga_color :: "vga_color list" where
  "enum_vga_color = [VGA_COLOR_BLACK, VGA_COLOR_BLUE, VGA_COLOR_GREEN, VGA_COLOR_CYAN, VGA_COLOR_RED, VGA_COLOR_MAGENTA, VGA_COLOR_BROWN,
     VGA_COLOR_LIGHT_GREY, VGA_COLOR_DARK_GREY, VGA_COLOR_LIGHT_BLUE, VGA_COLOR_LIGHT_GREEN, VGA_COLOR_LIGHT_CYAN, VGA_COLOR_LIGHT_RED,
     VGA_COLOR_LIGHT_MAGENTA, VGA_COLOR_LIGHT_BROWN, VGA_COLOR_WHITE]"

definition enum_all_vga_color :: "(vga_color \<Rightarrow> bool) \<Rightarrow> bool" where
  "enum_all_vga_color P \<longleftrightarrow> list_all P enum_class.enum"

definition enum_ex_vga_color :: "(vga_color \<Rightarrow> bool) \<Rightarrow> bool" where
  "enum_ex_vga_color P \<longleftrightarrow> list_ex P enum_class.enum"

instance
proof
  show all: "UNIV = set (enum_class.enum :: vga_color list)"
  proof -
    have "c \<in> set enum_class.enum" for c :: vga_color by (cases c) (simp_all add: enum_vga_color_def)
    then show ?thesis by blast
  qed
  show "distinct (enum_class.enum :: vga_color list)" by (simp add: enum_vga_color_def)
  show "enum_class.enum_all P \<longleftrightarrow> Ball UNIV P" for P :: "vga_color \<Rightarrow> bool"
    by (simp add: enum_all_vga_color_def list_all_iff all)
  show "enum_class.enum_ex P \<longleftrightarrow> Bex UNIV P" for P :: "vga_color \<Rightarrow> bool"
    by (simp add: enum_ex_vga_color_def list_ex_iff all)
qed

end

lemma vga_code_less: "vga_code c < 16"
  by (cases c) simp_all

lemma vga_code_inject [simp]: "vga_code c = vga_code d \<longleftrightarrow> c = d"
proof -
  have "distinct (map vga_code enum_class.enum)" by (simp add: enum_vga_color_def)
  then have "inj_on vga_code (set enum_class.enum)" by (simp add: distinct_map)
  then have "inj vga_code" by (simp add: UNIV_enum)
  then show ?thesis by (simp add: inj_eq)
qed

text \<open>The colour byte and the cell can be taken apart again.\<close>

lemma vga_entry_color_parts:
  "take_bit 4 (vga_entry_color fg bg) = vga_code fg" "drop_bit 4 (vga_entry_color fg bg) = vga_code bg"
  by (cases fg; cases bg; simp add: vga_entry_color_def)+

lemma vga_entry_parts: "ucast (vga_entry c a) = c" "ucast (drop_bit 8 (vga_entry c a)) = a"
  by (rule bit_word_eqI, auto simp: vga_entry_def bit_simps dest: bit_imp_le_length)+

lemma vga_entry_inject [simp]:
  "vga_entry c (vga_entry_color fg bg) = vga_entry c' (vga_entry_color fg' bg') \<longleftrightarrow> c = c' \<and> fg = fg' \<and> bg = bg'"
  by (metis vga_entry_parts vga_entry_color_parts vga_code_inject)

section \<open>Typing of the screen\<close>

text \<open>The colours that a call sets; \<open>reset\<close> sets light grey on black.\<close>

fun call_colors :: "term_call \<Rightarrow> (vga_color \<times> vga_color) set" where
  "call_colors (Call_setColor fg bg) = {(fg, bg)}"
| "call_colors Call_reset = {(VGA_COLOR_LIGHT_GREY, VGA_COLOR_BLACK)}"
| "call_colors c = {}"

definition color_typed :: "(vga_color \<times> vga_color) set \<Rightarrow> u8 \<Rightarrow> bool" where
  "color_typed C a \<longleftrightarrow> (\<exists>(fg, bg) \<in> C. a = vga_entry_color fg bg)"

definition cell_typed :: "(vga_color \<times> vga_color) set \<Rightarrow> u16 \<Rightarrow> bool" where
  "cell_typed C c \<longleftrightarrow> (\<exists>ch a. printable ch \<and> color_typed C a \<and> c = vga_entry ch a)"

definition screen_typed :: "(vga_color \<times> vga_color) set \<Rightarrow> screen \<Rightarrow> bool" where
  "screen_typed C s \<longleftrightarrow> (\<forall>c \<in> set (scr_cells s). cell_typed C c) \<and> color_typed C (scr_color s)"

lemma color_typed_mono: "color_typed C a \<Longrightarrow> C \<subseteq> C' \<Longrightarrow> color_typed C' a"
  by (auto simp: color_typed_def)

lemma screen_typed_mono: "screen_typed C s \<Longrightarrow> C \<subseteq> C' \<Longrightarrow> screen_typed C' s"
  unfolding screen_typed_def cell_typed_def using color_typed_mono by metis

lemma blank_typed: "screen_typed C s \<Longrightarrow> cell_typed C (blank s)"
  unfolding screen_typed_def cell_typed_def blank_def
  by (intro exI [of _ 32] exI [of _ "scr_color s"]) (simp add: printable_def)

lemma scroll_spec_typed: "screen_typed C s \<Longrightarrow> screen_typed C (scroll_spec n s)"
  using blank_typed by (auto simp: scroll_spec_def screen_typed_def dest: in_set_dropD)

lemma next_row_spec_typed: "screen_typed C s \<Longrightarrow> screen_typed C (next_row_spec s)"
  using scroll_spec_typed by (auto simp: next_row_spec_def screen_typed_def)

lemma putchar_spec_typed:
  assumes "screen_typed C s"
  shows "screen_typed C (snd (putchar_spec s c))"
proof -
  have cursor: "screen_typed C (s\<lparr>scr_col := n\<rparr>)" "screen_typed C (s\<lparr>scr_full := b\<rparr>)" for n b
    using assms by (simp_all add: screen_typed_def)
  show ?thesis
  proof (cases "c = 10 \<or> \<not> printable c")
    case True
    then show ?thesis using cursor next_row_spec_typed [OF cursor(1)] by (auto simp: putchar_spec_def)
  next
    case False
    then have "cell_typed C (vga_entry c (scr_color s))" using assms unfolding screen_typed_def cell_typed_def by blast
    then have "screen_typed C r" if "scr_cells r = (scr_cells s)[k := vga_entry c (scr_color s)]" "scr_color r = scr_color s" for r k
      using assms set_update_subset_insert [of "scr_cells s" k] that by (auto simp: screen_typed_def)
    note written = this next_row_spec_typed [OF this]
    show ?thesis
      using False by (auto simp: putchar_spec_def Let_def intro!: written)
  qed
qed

section \<open>Preservation\<close>

lemma term_step_typed:
  assumes "term_step (t, m) c (t', m')" "term_inv t" "t_buffer t = FRAMEBUFFER_LOCATION" "screen_typed C (term_abs m t)"
  shows "screen_typed (C \<union> call_colors c) (term_abs m' t')"
proof (cases c)
  case (Call_putchar x)
  with assms(1) obtain r where "putchar m t x = (r, t', m')" by auto
  with putchar_refines [OF assms(2) this] have "term_abs m' t' = snd (putchar_spec (term_abs m t) x)" by (metis snd_conv)
  then show ?thesis using putchar_spec_typed [OF assms(4)] Call_putchar by simp
next
  case (Call_scroll l)
  with assms(1) have t: "t' = t" "m' = snd (scroll m t l)" by auto
  show ?thesis
  proof (cases "l < 25")
    case True
    have "term_abs m' t' = scroll_spec (unat l) (term_abs m t)"
      using scroll_cells [of t l m] True assms(2) t by (simp add: term_abs_def scroll_spec_def blank_def term_inv_def)
    then show ?thesis using scroll_spec_typed [OF assms(4)] Call_scroll by simp
  next
    case False
    then have "m' = m" using t(2) by (simp add: scroll_def not_less)
    then show ?thesis using assms(4) t(1) Call_scroll by simp
  qed
next
  case Call_clear
  with assms(1) have "term_abs m' t' = (term_abs m t)\<lparr>scr_cells := replicate 2000 (blank (term_abs m t))\<rparr>"
    using term_clear_cells [of m t] by (auto simp: term_abs_def blank_def)
  then show ?thesis using blank_typed [OF assms(4)] assms(4) Call_clear by (simp add: screen_typed_def)
next
  case Call_reset
  with assms(1,3) have "term_abs m' t' = (term_abs m t)\<lparr>scr_row := 0, scr_col := 0, scr_full := False,
      scr_color := vga_entry_color VGA_COLOR_LIGHT_GREY VGA_COLOR_BLACK\<rparr>"
    by (simp add: term_reset_def setColor_def term_abs_def)
  then show ?thesis using screen_typed_mono [OF assms(4), of "C \<union> call_colors c"] Call_reset
    by (auto simp: screen_typed_def color_typed_def)
next
  case (Call_setColor fg bg)
  with assms(1) have "term_abs m' t' = (term_abs m t)\<lparr>scr_color := vga_entry_color fg bg\<rparr>"
    by (simp add: setColor_def term_abs_def)
  then show ?thesis using screen_typed_mono [OF assms(4), of "C \<union> call_colors c"] Call_setColor
    by (auto simp: screen_typed_def color_typed_def)
next
  case (Call_setCursor row col)
  with assms(1) have "term_abs m' t' = (term_abs m t)\<lparr>scr_row := unat (t_row t'), scr_col := unat (t_column t')\<rparr>"
    by (auto simp: setCursor_def term_abs_def split: if_splits)
  then show ?thesis using assms(4) Call_setCursor by (simp add: screen_typed_def)
qed

lemma term_run_typed:
  assumes "term_run s cs s'" "term_inv (fst s)" "t_buffer (fst s) = FRAMEBUFFER_LOCATION" "screen_typed C (term_abs (snd s) (fst s))"
  shows "screen_typed (C \<union> (\<Union>c \<in> set cs. call_colors c)) (term_abs (snd s') (fst s'))"
  using assms
proof (induction rule: term_run.induct)
  case (run_snoc s cs s' c s'')
  let ?C = "C \<union> (\<Union>c \<in> set cs. call_colors c)"
  have "screen_typed ?C (term_abs (snd s') (fst s'))" using run_snoc.IH run_snoc.prems by blast
  moreover have "term_step (fst s', snd s') c (fst s'', snd s'')" using run_snoc.hyps(2) by simp
  ultimately have "screen_typed (?C \<union> call_colors c) (term_abs (snd s'') (fst s''))"
    using term_step_typed term_run_inv [OF run_snoc.hyps(1) run_snoc.prems(1,2)] by blast
  moreover have "?C \<union> call_colors c = C \<union> (\<Union>c \<in> set (cs @ [c]). call_colors c)" by auto
  ultimately show ?case by simp
qed simp

text \<open>A run taken apart at its front.\<close>

inductive_cases term_run_snocE: "term_run s (cs @ [c]) s''"

lemma term_run_Nil [simp]: "term_run s [] s' \<longleftrightarrow> s' = s"
  by (auto elim: term_run.cases intro: run_Nil)

lemma term_run_Cons:
  "term_run s (c # cs) s'' \<Longrightarrow> \<exists>s'. term_step s c s' \<and> term_run s' cs s''"
proof (induction cs arbitrary: s'' rule: rev_induct)
  case Nil
  then have "term_run s ([] @ [c]) s''" by simp
  then show ?case by (elim term_run_snocE) (cases s'', simp)
next
  case (snoc d cs)
  then have "term_run s ((c # cs) @ [d]) s''" by simp
  then show ?case by (elim term_run_snocE) (use snoc.IH run_snoc in \<open>fastforce\<close>)
qed

section \<open>What the screen shows\<close>

text \<open>
  C39. After the screen of a new terminal has been cleared, whatever calls follow, every cell of the framebuffer is a character that \<open>putchar\<close>
  accepts together with a foreground and a background colour that were set by one of the calls, or light grey on black;
  the three can be read back from the cell.
\<close>

theorem terminal_cells_typed:
  assumes "term_run (new_terminal, m) (Call_clear # cs) (t', m')" "i < 2000"
  shows "\<exists>ch fg bg. load16 m' (FRAMEBUFFER_LOCATION + 2 * of_nat i) = vga_entry ch (vga_entry_color fg bg) \<and> printable ch \<and>
    (fg, bg) \<in> {(VGA_COLOR_LIGHT_GREY, VGA_COLOR_BLACK)} \<union> (\<Union>c \<in> set cs. call_colors c)"
proof -
  let ?C = "{(VGA_COLOR_LIGHT_GREY, VGA_COLOR_BLACK)}"
  have "term_run (new_terminal, term_clear m new_terminal) cs (t', m')"
    using assms(1) by (auto dest: term_run_Cons)
  moreover have "screen_typed ?C (term_abs (term_clear m new_terminal) new_terminal)"
  proof -
    have "color_typed ?C 7" by (simp add: color_typed_def vga_entry_color_def)
    then have "screen_typed ?C ((term_abs m new_terminal)\<lparr>scr_cells := []\<rparr>)"
      by (simp add: screen_typed_def term_abs_def new_terminal_def)
    from blank_typed [OF this] \<open>color_typed ?C 7\<close> term_clear_cells [of m new_terminal] show ?thesis
      by (simp add: screen_typed_def blank_def term_abs_def new_terminal_def)
  qed
  ultimately have t: "screen_typed (?C \<union> (\<Union>c \<in> set cs. call_colors c)) (term_abs m' t')" "t_buffer t' = FRAMEBUFFER_LOCATION"
    using term_run_typed term_run_inv by fastforce+
  have "load16 m' (FRAMEBUFFER_LOCATION + 2 * of_nat i) \<in> set (scr_cells (term_abs m' t'))"
    using assms(2) t(2) cells_nth [of i m' FRAMEBUFFER_LOCATION] nth_mem [of i "cells m' FRAMEBUFFER_LOCATION"] by (simp add: term_abs_def)
  with t(1) obtain ch a where "printable ch" "color_typed (?C \<union> (\<Union>c \<in> set cs. call_colors c)) a"
    "load16 m' (FRAMEBUFFER_LOCATION + 2 * of_nat i) = vga_entry ch a"
    unfolding screen_typed_def cell_typed_def by blast
  then show ?thesis unfolding color_typed_def by blast
qed

theorem terminal_cells_typed_witness:
  "\<exists>t' m'. term_run (new_terminal, \<lambda>_. 0) [Call_clear, Call_setColor VGA_COLOR_WHITE VGA_COLOR_BLUE, Call_putchar 65] (t', m') \<and>
     (\<exists>ch fg bg. load16 m' (FRAMEBUFFER_LOCATION + 2 * of_nat 7) = vga_entry ch (vga_entry_color fg bg) \<and> printable ch \<and> fg \<noteq> VGA_COLOR_RED)"
proof -
  let ?m = "term_clear (\<lambda>_. 0) new_terminal" and ?t = "setColor new_terminal VGA_COLOR_WHITE VGA_COLOR_BLUE"
  obtain r t' m' where "putchar ?m ?t 65 = (r, t', m')" by (metis prod_cases3)
  then have "term_run (new_terminal, \<lambda>_. 0) ((([] @ [Call_clear]) @ [Call_setColor VGA_COLOR_WHITE VGA_COLOR_BLUE]) @ [Call_putchar 65]) (t', m')"
    by (intro run_snoc [OF run_snoc [OF run_snoc [OF run_Nil]]]) auto
  then have run: "term_run (new_terminal, \<lambda>_. 0) [Call_clear, Call_setColor VGA_COLOR_WHITE VGA_COLOR_BLUE, Call_putchar 65] (t', m')" by simp
  with terminal_cells_typed [OF run, of 7] show ?thesis by (fastforce simp del: vga_entry_inject)
qed

end
