(* ===== verification/RealMode.thy ===== *)
theory RealMode
  imports Outstream
begin

text \<open>
  The class \<open>realMode_terminal\<close> of \<open>include/devices/BIOSVideoIO.hpp\<close>: a terminal for 16-bit code, which prints through the video
  service of the BIOS, interrupt \<open>0x10\<close>. Its state is the sequence of calls of the service, with the registers that the inline assembly sets; memory is not touched.
  It is a second back end of the output stream: the contract \<open>char_sink\<close> holds for it too.
\<close>

section \<open>Operations\<close>

text \<open>A call of the service: \<open>eax\<close>, and the other registers where the code sets them.\<close>

record int10 =
  r10_ax :: u32
  r10_bx :: "u32 option"
  r10_cx :: "u32 option"
  r10_dx :: "u32 option"

type_synonym realMode_terminal = "int10 list"

definition rm_reset :: "realMode_terminal \<Rightarrow> realMode_terminal" where
  "rm_reset t = t @ [\<lparr>r10_ax = 0x0003, r10_bx = None, r10_cx = None, r10_dx = None\<rparr>]"

definition rm_clear :: "realMode_terminal \<Rightarrow> realMode_terminal" where
  "rm_clear t = t @ [\<lparr>r10_ax = 0x0600, r10_bx = Some 0x0800, r10_cx = Some 0, r10_dx = Some 0x184f\<rparr>]"

definition rm_scroll :: "realMode_terminal \<Rightarrow> u32 \<Rightarrow> int \<times> realMode_terminal" where
  "rm_scroll t lines =
     (if lines = 0 then (1, t)
      else (0, t @ [\<lparr>r10_ax = 0x0600 OR ucast (ucast lines :: u8), r10_bx = Some 0x0800, r10_cx = Some 0, r10_dx = Some 0x184f\<rparr>]))"

text \<open>The character is a signed \<open>char\<close>, so it is sign-extended before it is combined with the function number.\<close>

definition rm_putchar :: "memory \<Rightarrow> realMode_terminal \<Rightarrow> u8 \<Rightarrow> int \<times> realMode_terminal \<times> memory" where
  "rm_putchar m t c = (0, t @ [\<lparr>r10_ax = 0x0e00 OR scast c, r10_bx = Some 0, r10_cx = None, r10_dx = None\<rparr>], m)"

interpretation rm: char_sink rm_putchar "\<lambda>_. True" "\<lambda>_ _. False"
  by unfold_locales (auto simp: rm_putchar_def)

section \<open>The service that is called\<close>

text \<open>The function number is in \<open>ah\<close>, its argument in \<open>al\<close>.\<close>

definition r10_ah :: "int10 \<Rightarrow> u8" where
  "r10_ah r = ucast (drop_bit 8 (r10_ax r))"

definition r10_al :: "int10 \<Rightarrow> u8" where
  "r10_al r = ucast (r10_ax r)"

lemma byte_parts:
  fixes w :: u8
  shows "ucast (ucast w :: u32) = w" "drop_bit 8 (ucast w :: u32) = 0" "ucast (scast w :: u32) = w"
    "ucast (drop_bit 8 (scast w :: u32)) = (if bit w 7 then - 1 else 0 :: u8)"
proof -
  show "ucast (ucast w :: u32) = w" "drop_bit 8 (ucast w :: u32) = 0"
    by (rule bit_word_eqI, auto simp: bit_simps dest: bit_imp_le_length)+
  show "ucast (scast w :: u32) = w"
    by (rule bit_word_eqI) (auto simp: bit_simps)
  show "ucast (drop_bit 8 (scast w :: u32)) = (if bit w 7 then - 1 else 0 :: u8)"
    by (rule bit_word_eqI) (auto simp: bit_simps)
qed

lemma bit7: "bit c 7 \<longleftrightarrow> \<not> c < 128" for c :: u8
proof -
  have "unat c < 256" using unat_less_2pow [of c] by simp
  then have "odd (unat c div 128) \<longleftrightarrow> 128 \<le> unat c" by (cases "unat c < 128") (auto simp: div_if)
  moreover have "bit c 7 \<longleftrightarrow> bit (unat c) 7" by (simp add: bit_simps)
  ultimately show ?thesis by (simp add: bit_iff_odd word_less_nat_alt not_less)
qed

lemma function_number: "(0x0600 :: u8) = 0" "(0x0e00 :: u8) = 0"
  by simp_all

lemma rm_scroll_call:
  "lines \<noteq> 0 \<Longrightarrow> \<exists>r. rm_scroll t lines = (0, t @ [r]) \<and> r10_ah r = 0x06 \<and> r10_al r = ucast lines"
  by (simp add: rm_scroll_def r10_ah_def r10_al_def unsigned_or_eq byte_parts function_number)

lemma rm_putchar_call:
  "\<exists>r. rm_putchar m t c = (0, t @ [r], m) \<and> r10_al r = c \<and> r10_ah r = (if bit c 7 then 0xFF else 0x0E)"
  by (simp add: rm_putchar_def r10_ah_def r10_al_def unsigned_or_eq drop_bit_or byte_parts function_number)

section \<open>What the terminal prints\<close>

lemma rm_put_all:
  "put_all rm_putchar m t cs = (t @ map (\<lambda>c. \<lparr>r10_ax = 0x0e00 OR scast c, r10_bx = Some 0, r10_cx = None, r10_dx = None\<rparr>) cs, m)"
  by (induction cs arbitrary: t) (simp_all add: rm_putchar_def)

text \<open>
  C40. Printing a C string on the real-mode terminal makes one call of the video service for each character, in order, and leaves memory alone. The
  character is the argument of the call, and the function is the teletype function \<open>0x0E\<close> exactly for the characters below 128; for
  the others the sign extension of the signed character sets the function number to \<open>0xFF\<close>.
\<close>

theorem rm_writeString_calls:
  assumes "cstr m str cs"
  shows "\<exists>rs. writeString rm_putchar m t str = Some (of_nat (length cs), t @ rs, m) \<and> map r10_al rs = cs \<and>
    map r10_ah rs = map (\<lambda>c. if c < 128 then 0x0E else 0xFF) cs"
proof -
  let ?call = "\<lambda>c :: u8. \<lparr>r10_ax = 0x0e00 OR scast c, r10_bx = Some 0, r10_cx = None, r10_dx = None\<rparr>"
  have "writeString rm_putchar m t str = Some (of_nat (length cs), t @ map ?call cs, m)"
    using rm.writeString_cstr [OF _ assms, of t] by (simp add: rm_put_all)
  moreover have "r10_al (?call c) = c \<and> r10_ah (?call c) = (if c < 128 then 0x0E else 0xFF)" for c
    using rm_putchar_call [of m t c] bit7 [of c] by (auto simp: rm_putchar_def)
  ultimately show ?thesis by (intro exI [of _ "map ?call cs"]) (simp add: o_def)
qed

theorem rm_writeString_calls_witness:
  "\<exists>rs. writeString rm_putchar ((\<lambda>_. 0)(0x100 := 72, 0x101 := 0xE9)) [] 0x100 = Some (2, rs, (\<lambda>_. 0)(0x100 := 72, 0x101 := 0xE9)) \<and>
     map r10_al rs = [72, 0xE9] \<and> map r10_ah rs = [0x0E, 0xFF]"
proof -
  have "cstr ((\<lambda>_. 0)(0x100 := 72, 0x101 := 0xE9)) 0x100 [72, 0xE9]" by simp
  from rm_writeString_calls [OF this, of "[]"] show ?thesis by simp
qed

end
