(* ===== verification/Fat32List.thy ===== *)
theory Fat32List
  imports Fat32File
begin

text \<open>
  Listing the root directory of a FAT32 volume: what \<open>getInternalDirectoryList\<close> returns, in terms of the bytes of the disk. The local
  arrays of the source are on the stack, outside the heap.
\<close>

section \<open>Buffers outside the heap\<close>

definition off_heap :: "nat \<Rightarrow> nat \<Rightarrow> u32 \<Rightarrow> nat \<Rightarrow> bool" where
  "off_heap a len p n \<longleftrightarrow> unat p + n \<le> a \<or> a + len \<le> unat p \<and> unat p + n \<le> 2 ^ 32"

lemma off_heap_sep:
  assumes "off_heap a len p (unat n)" "a \<le> unat q" "unat q + unat k \<le> a + len" "a + len \<le> 2 ^ 32" "0 < unat k" "0 < unat n"
  shows "sep p n q k"
  using assms unat_less_2pow [of p] unat_less_2pow [of q]
  by (auto simp: off_heap_def sep_def word_le_nat_alt unat_sub_if')

lemma off_heap_write:
  assumes "off_heap a len p n" "length xs \<le> n" "a \<le> x" "x < a + len" "a + len \<le> 2 ^ 32"
  shows "write_bytes m p xs (of_nat x) = m (of_nat x)"
proof (rule write_bytes_outside)
  have "unat (of_nat x :: u32) = x" using assms(4,5) by (simp add: unat_of_nat)
  then show "\<not> unat (of_nat x - p) < length xs"
    using assms unat_less_2pow [of p] by (auto simp: off_heap_def unat_sub_if')
qed

lemma off_heap_arena:
  assumes "off_heap a len p n" "length xs \<le> n" "arena a len m L k" "(q, s) \<in> L"
  shows "arena a len (write_bytes m p xs) L k" and "same_block (q, s) m (write_bytes m p xs)"
proof -
  have "a + len \<le> 2 ^ 32" "a \<le> q" "q + s \<le> a + len" using arena_inside [OF assms(3,4)] by auto
  note w = off_heap_write [OF assms(1,2) _ _ this(1)]
  show "arena a len (write_bytes m p xs) L k" by (rule arena_agree [OF assms(3)]) (rule w)
  show "same_block (q, s) m (write_bytes m p xs)"
    using w \<open>a \<le> q\<close> \<open>q + s \<le> a + len\<close> by (auto simp: same_block_def)
qed

text \<open>Bytes of an off-heap buffer survive every change that is confined to the heap.\<close>

lemma off_heap_unat:
  assumes "off_heap a len p n" "j < n" "a + len \<le> 2 ^ 32"
  shows "unat (p + of_nat j) = unat p + j" and "unat p + j < a \<or> a + len \<le> unat p + j"
  using assms unat_less_2pow [of p] by (auto simp: off_heap_def unat_word_ariths unat_of_nat)

lemma heap_only_off_heap:
  assumes "heap_only a len m m'" "off_heap a len p n" "j < n" "a + len \<le> 2 ^ 32"
  shows "m' (p + of_nat j) = m (p + of_nat j)"
proof -
  note u = off_heap_unat [OF assms(2-4)]
  have "m' (of_nat (unat (p + of_nat j))) = m (of_nat (unat (p + of_nat j)))"
    using assms(1) u unat_less_2pow [of "p + of_nat j"] unfolding heap_only_def by (auto simp del: of_nat_unat)
  then show ?thesis by simp
qed

section \<open>The list under construction\<close>

text \<open>
  The fixed part of the state of the loop: the blocks of the directory, of the result and of the two arrays are at different
  places, and the result points to the array of attributes.
\<close>

record list_blocks =
  lb_dir :: u32
  lb_dirp :: u32
  lb_size :: nat
  lb_ret :: u32
  lb_names :: u32
  lb_attrs :: u32
  lb_count :: nat

definition list_base :: "list_blocks \<Rightarrow> (nat \<times> nat) set" where
  "list_base b = {(unat (lb_dir b), 12), (unat (lb_dirp b), lb_size b), (unat (lb_ret b), 16),
     (unat (lb_names b), 4 * lb_count b), (unat (lb_attrs b), 4 * lb_count b)}"

definition list_ready :: "nat \<Rightarrow> nat \<Rightarrow> (nat \<times> nat) set \<Rightarrow> memory \<Rightarrow> list_blocks \<Rightarrow> image \<Rightarrow> nat \<Rightarrow> nat \<Rightarrow> bool" where
  "list_ready a len L m b D off k \<longleftrightarrow> arena a len m L k \<and> list_base b \<subseteq> L \<and>
     dir_ready (list_base b) m (lb_dir b) (lb_dirp b) (lb_size b) D off (lb_count b) \<and>
     load32 m (lb_ret b + 12) = lb_attrs b \<and>
     distinct [lb_names b, lb_attrs b, lb_dir b, lb_dirp b, lb_ret b]"

text \<open>Entry \<open>j\<close> of the list: the attributes as on the disk, and a name in a block of its own, except that all long-name
  entries share the address \<open>lfn_str\<close> of a local array.\<close>

definition listed :: "(nat \<times> nat) set \<Rightarrow> memory \<Rightarrow> list_blocks \<Rightarrow> image \<Rightarrow> nat \<Rightarrow> u32 \<Rightarrow> nat \<Rightarrow> bool" where
  "listed L m b D off lfn_str j \<longleftrightarrow>
     load32 m (lb_attrs b + 4 * of_nat j) = ucast (D (off + 32 * j + 11)) \<and>
     (let p = load32 m (lb_names b + 4 * of_nat j); name = entry_name D (off + 32 * j) in
      if D (off + 32 * j + 11) = attribute_code LFN then p = lfn_str
      else cstr m p name \<and> (unat p, Suc (length name)) \<in> L \<and> unat p \<notin> fst ` list_base b)"

lemma load32_block:
  assumes "same_block (unat r, n) m m'" "unat r + n \<le> 2 ^ 32" "i + 4 \<le> n" "c = of_nat i"
  shows "load32 m' (r + c) = load32 m (r + c)"
proof -
  have "unat (r + c) = unat r + i" using assms(2-4) by (simp add: unat_word_ariths unat_of_nat)
  then show ?thesis using load32_same_block [OF assms(1), of "r + c"] assms(3) by simp
qed

lemma cstr_block:
  assumes "same_block (unat p, Suc (length xs)) m m'" "cstr m p xs" "length xs < 2 ^ 32 - 1"
  shows "cstr m' p xs"
proof -
  have "m' (p + of_nat j) = m (p + of_nat j)" if "j \<le> length xs" for j
    using same_block_byte [OF assms(1), of "of_nat j"] that assms(3) by (simp add: unat_of_nat)
  then show ?thesis using assms(2) by (simp add: cstr_nth)
qed

lemma entry_name_length: "length (entry_name D off) \<le> 12"
proof -
  have "length (takeWhile (\<lambda>c. c \<noteq> 32) (read_bytes m 0 8)) \<le> 8" for m
    using length_takeWhile_le [of _ "read_bytes m 0 8"] by simp
  from this [of "disk_mem D off"] show ?thesis by (simp add: entry_name_def fat_name_def)
qed

lemma list_blocks_in:
  assumes "list_ready a len L m b D off k"
  shows "arena a len m L k" "list_base b \<subseteq> L" "(unat (lb_dir b), 12) \<in> L" "(unat (lb_dirp b), lb_size b) \<in> L" "(unat (lb_ret b), 16) \<in> L"
    "(unat (lb_names b), 4 * lb_count b) \<in> L" "(unat (lb_attrs b), 4 * lb_count b) \<in> L"
    and "dir_ready L m (lb_dir b) (lb_dirp b) (lb_size b) D off (lb_count b)"
  using assms by (auto simp: list_ready_def list_base_def dir_ready_def)

text \<open>The loop does not write to the directory nor, before its end, to the result.\<close>

lemma list_ready_same:
  assumes "list_ready a len L m b D off k" "arena a len m' L' k'" "L \<subseteq> L'"
    and "\<And>d. d \<in> {(unat (lb_dir b), 12), (unat (lb_dirp b), lb_size b), (unat (lb_ret b), 16)} \<Longrightarrow> same_block d m m'"
  shows "list_ready a len L' m' b D off k'"
proof -
  note r = list_blocks_in [OF assms(1)]
  have top: "unat (lb_dirp b) + lb_size b \<le> 2 ^ 32" "unat (lb_dir b) + 12 \<le> 2 ^ 32" "unat (lb_ret b) + 16 \<le> 2 ^ 32"
    using arena_inside [OF r(1,3)] arena_inside [OF r(1,4)] arena_inside [OF r(1,5)] by simp_all
  have "m' (lb_dirp b + of_nat j) = m (lb_dirp b + of_nat j)" if "j < lb_size b" for j
    using same_block_byte [OF assms(4) [of "(unat (lb_dirp b), lb_size b)"], of "of_nat j"] that top(1)
    by (cases "j < 2 ^ 32") (simp_all add: unat_of_nat)
  moreover have "load32 m' (lb_dir b + 4) = load32 m (lb_dir b + 4)" "load32 m' (lb_dir b + 8) = load32 m (lb_dir b + 8)"
    "load32 m' (lb_ret b + 12) = load32 m (lb_ret b + 12)"
    by (rule load32_block [OF assms(4) top(2), of 4] load32_block [OF assms(4) top(2), of 8] load32_block [OF assms(4) top(3), of 12]; simp)+
  ultimately show ?thesis
    using assms(1-3) by (auto simp: list_ready_def dir_ready_def)
qed

lemma listed_same:
  assumes "listed L m b D off lfn_str j" "L \<subseteq> L'"
    and "load32 m' (lb_attrs b + 4 * of_nat j) = load32 m (lb_attrs b + 4 * of_nat j)"
    and "load32 m' (lb_names b + 4 * of_nat j) = load32 m (lb_names b + 4 * of_nat j)"
    and "\<And>d. d \<in> L \<Longrightarrow> fst d \<notin> fst ` list_base b \<Longrightarrow> same_block d m m'"
  shows "listed L' m' b D off lfn_str j"
proof -
  let ?name = "entry_name D (off + 32 * j)"
  have "cstr m' p ?name" if "cstr m p ?name" "(unat p, Suc (length ?name)) \<in> L" "unat p \<notin> fst ` list_base b" for p
    using cstr_block [OF assms(5) [OF that(2)] that(1)] that(3) entry_name_length [of D "off + 32 * j"] by simp
  then show ?thesis using assms(1-4) by (auto simp: listed_def Let_def)
qed

lemma listed_kept:
  assumes "arena a len m0 L k" "list_base b \<subseteq> L" "\<And>d. d \<in> L \<Longrightarrow> same_block d m m'" "listed L m b D off lfn_str j" "j < lb_count b" "L \<subseteq> L'"
  shows "listed L' m' b D off lfn_str j"
proof -
  have nb: "(unat (lb_names b), 4 * lb_count b) \<in> L" "(unat (lb_attrs b), 4 * lb_count b) \<in> L"
    using assms(2) by (auto simp: list_base_def)
  have top: "unat (lb_names b) + 4 * lb_count b \<le> 2 ^ 32" "unat (lb_attrs b) + 4 * lb_count b \<le> 2 ^ 32"
    using arena_inside [OF assms(1) nb(1)] arena_inside [OF assms(1) nb(2)] by simp_all
  show ?thesis
    by (rule listed_same [OF assms(4,6) load32_block [OF assms(3) [OF nb(2)] top(2), of "4 * j"]
          load32_block [OF assms(3) [OF nb(1)] top(1), of "4 * j"] assms(3)]) (use assms(5) in auto)
qed

section \<open>One entry\<close>

text \<open>Entering a word in one of the two arrays changes that word only.\<close>

lemma list_store:
  assumes "list_ready a len L m b D off k" "arr \<in> {lb_names b, lb_attrs b}" "i < lb_count b" "m' = store32 m (arr + 4 * of_nat i) v"
  shows "list_ready a len L m' b D off k" and "load32 m' (arr + 4 * of_nat i) = v"
    and "j < lb_count b \<Longrightarrow> j \<noteq> i \<or> arr' \<noteq> arr \<Longrightarrow> arr' \<in> {lb_names b, lb_attrs b} \<Longrightarrow>
      load32 m' (arr' + 4 * of_nat j) = load32 m (arr' + 4 * of_nat j)"
    and "d \<in> L \<Longrightarrow> fst d \<noteq> unat arr \<Longrightarrow> same_block d m m'"
    and "off_heap a len p n \<Longrightarrow> j < n \<Longrightarrow> m' (p + of_nat j) = m (p + of_nat j)"
proof -
  note r = list_blocks_in [OF assms(1)]
  have arr: "(unat arr, 4 * lb_count b) \<in> L" and le: "4 * i + 4 \<le> 4 * lb_count b" using r(6,7) assms(2,3) by auto
  have m': "m' = store32 m (arr + of_nat (4 * i)) v" using assms(4) by simp
  have top: "a + 8 \<le> unat arr" "unat arr + 4 * lb_count b + 8 \<le> a + len" "a + len \<le> 2 ^ 32"
    using arena_inside [OF r(1) arr] by auto
  note st = owner_store32 [OF r(1) arr le, where v = v, folded m']
  show blocks: "same_block d m m'" if "d \<in> L" "fst d \<noteq> unat arr" for d
    using st(2) [OF that(1)] that(2) by force
  have dist: "lb_dir b \<noteq> arr" "lb_dirp b \<noteq> arr" "lb_ret b \<noteq> arr" "lb_names b \<noteq> lb_attrs b"
    using assms(1,2) by (auto simp: list_ready_def)
  show "list_ready a len L m' b D off k"
    by (rule list_ready_same [OF assms(1) st(1) subset_refl]) (use blocks r(3-5) dist in \<open>auto simp: word_unat_eq_iff\<close>)
  show "load32 m' (arr + 4 * of_nat i) = v" using assms(4) by (simp add: mem_simps)
  show "load32 m' (arr' + 4 * of_nat j) = load32 m (arr' + 4 * of_nat j)"
    if "j < lb_count b" "j \<noteq> i \<or> arr' \<noteq> arr" "arr' \<in> {lb_names b, lb_attrs b}"
  proof (cases "arr' = arr")
    case True
    have lt: "4 * i + 4 < 2 ^ 32" "4 * j + 4 < 2 ^ 32" using top le that(1) by auto
    then have "unat (4 * of_nat i :: u32) = 4 * i" "unat (4 * of_nat j :: u32) = 4 * j"
      by (simp_all add: unat_word_ariths unat_of_nat)
    then have "sep (arr + 4 * of_nat i) 4 (arr + 4 * of_nat j) 4"
      using lt that(2) True by (auto simp: sep_def word_le_nat_alt unat_sub_if')
    then show ?thesis using True assms(4) by (simp add: mem_simps)
  next
    case False
    have arr': "(unat arr', 4 * lb_count b) \<in> L" using r(6,7) that(3) by auto
    then have "same_block (unat arr', 4 * lb_count b) m m'" "unat arr' + 4 * lb_count b \<le> 2 ^ 32"
      using blocks [OF arr'] False arena_inside [OF r(1) arr'] by (auto simp: word_unat_eq_iff)
    from load32_block [OF this, of "4 * j"] that(1) show ?thesis by simp
  qed
  show "m' (p + of_nat j) = m (p + of_nat j)" if "off_heap a len p n" "j < n"
    unfolding m'
  proof (rule store32_other)
    note u = off_heap_unat [OF that top(3)]
    show "\<not> p + of_nat j - (arr + of_nat (4 * i)) < 4"
      using of_nat_outside [of "unat (p + of_nat j)" "unat arr + 4 * i" 4, unfolded of_nat_add of_nat_unat] u top le
        unat_less_2pow [of "p + of_nat j"] by auto
  qed
qed

text \<open>Entering name and attribute of entry \<open>i\<close>: the entries before stay as they are.\<close>

lemma list_enter:
  assumes "list_ready a len L m b D off k" "i < lb_count b" "M \<subseteq> L" "\<forall>j < i. listed M m b D off lfn_str j"
    and "m1 = store32 m (lb_names b + 4 * of_nat i) p"
  shows "list_ready a len L m1 b D off k" and "load32 m1 (lb_names b + 4 * of_nat i) = p" and "\<forall>j < i. listed M m1 b D off lfn_str j"
proof -
  note st = list_store [OF assms(1) _ assms(2,5)]
  show "list_ready a len L m1 b D off k" "load32 m1 (lb_names b + 4 * of_nat i) = p" using st(1,2) by simp_all
  have d: "lb_names b \<noteq> lb_attrs b" using assms(1) by (simp add: list_ready_def)
  show "\<forall>j < i. listed M m1 b D off lfn_str j"
  proof (intro allI impI)
    fix j assume "j < i"
    then show "listed M m1 b D off lfn_str j"
      by (intro listed_same [OF assms(4) [rule_format] subset_refl] st(3,4)) (use assms(2,3) d in \<open>auto simp: list_base_def\<close>)
  qed
qed

lemma list_attribute:
  assumes "list_ready a len L m b D off k" "i < lb_count b" "\<forall>j < i. listed L m b D off lfn_str j"
    and "m1 = store32 m (lb_attrs b + 4 * of_nat i) (ucast (D (off + 32 * i + 11)))" "load32 m (lb_names b + 4 * of_nat i) = p"
    and "if D (off + 32 * i + 11) = attribute_code LFN then p = lfn_str
      else cstr m p (entry_name D (off + 32 * i)) \<and> (unat p, Suc (length (entry_name D (off + 32 * i)))) \<in> L \<and> unat p \<notin> fst ` list_base b"
  shows "list_ready a len L m1 b D off k" and "\<forall>j < Suc i. listed L m1 b D off lfn_str j"
proof -
  note st = list_store [OF assms(1) _ assms(2,4)]
  show "list_ready a len L m1 b D off k" using st(1) by simp
  have d: "lb_names b \<noteq> lb_attrs b" using assms(1) by (simp add: list_ready_def)
  show "\<forall>j < Suc i. listed L m1 b D off lfn_str j"
  proof (intro allI impI)
    fix j assume "j < Suc i"
    then consider "j < i" | "j = i" by linarith
    then show "listed L m1 b D off lfn_str j"
    proof cases
      case 1
      then show ?thesis
        by (intro listed_same [OF assms(3) [rule_format] subset_refl] st(3,4)) (use assms(2) d in \<open>auto simp: list_base_def\<close>)
    next
      case 2
      let ?name = "entry_name D (off + 32 * i)"
      have "load32 m1 (lb_names b + 4 * of_nat i) = p" using st(3) [of i "lb_names b"] assms(2,5) d by simp
      moreover have "cstr m1 p ?name"
        if "cstr m p ?name" "(unat p, Suc (length ?name)) \<in> L" "unat p \<notin> fst ` list_base b"
        using cstr_block [OF st(4) [OF _ that(2)] that(1)] that(3) entry_name_length [of D "off + 32 * i"] by (simp add: list_base_def)
      ultimately show ?thesis using 2 st(2) assms(6) by (auto simp: listed_def Let_def)
    qed
  qed
qed

text \<open>Writing to a buffer on the stack changes none of this.\<close>

lemma list_stack:
  assumes "list_ready a len L m b D off k" "off_heap a len p n" "length xs \<le> n" "\<forall>j < i. listed L m b D off lfn_str j" "i \<le> lb_count b"
  shows "list_ready a len L (write_bytes m p xs) b D off k" and "\<forall>j < i. listed L (write_bytes m p xs) b D off lfn_str j"
proof -
  note r = list_blocks_in [OF assms(1)]
  have same: "same_block d m (write_bytes m p xs)" if "d \<in> L" for d
    using off_heap_arena(2) [OF assms(2,3) r(1), of "fst d" "snd d"] that by simp
  show "list_ready a len L (write_bytes m p xs) b D off k"
    by (rule list_ready_same [OF assms(1) off_heap_arena(1) [OF assms(2,3) r(1,3)] subset_refl]) (use same r(3-5) in auto)
  show "\<forall>j < i. listed L (write_bytes m p xs) b D off lfn_str j"
    using listed_kept [OF r(1,2) same _ _ subset_refl] assms(4,5) by (metis less_le_trans)
qed

lemma list_entry:
  assumes "list_ready a len L m b D off k" "i < lb_count b" "lb_count b < 2 ^ 32"
  shows "of_nat i < load32 m (lb_dir b + 4)" and "load32 m (lb_dir b + 8) = lb_dirp b" and "load32 m (lb_ret b + 12) = lb_attrs b"
    and "m (lb_dirp b + 32 * of_nat i + 11) = D (off + 32 * i + 11)"
    and "D (off + 32 * i + 11) \<noteq> attribute_code LFN \<Longrightarrow> fat_name m (lb_dirp b + 32 * of_nat i) = entry_name D (off + 32 * i)"
    and "unat (lb_dirp b + 32 * of_nat i) = unat (lb_dirp b) + 32 * i" and "32 * i + 32 \<le> lb_size b"
proof -
  note r = list_blocks_in [OF assms(1)] and e = entry_bytes [OF list_blocks_in(8,1) [OF assms(1)] assms(2)]
  show "of_nat i < load32 m (lb_dir b + 4)" "load32 m (lb_dir b + 8) = lb_dirp b" "load32 m (lb_ret b + 12) = lb_attrs b"
    using assms r(8) by (auto simp: dir_ready_def list_ready_def word_less_nat_alt unat_of_nat)
  show "m (lb_dirp b + 32 * of_nat i + 11) = D (off + 32 * i + 11)" using e(3) [of 11] by (simp add: disk_mem_def)
  show "fat_name m (lb_dirp b + 32 * of_nat i) = entry_name D (off + 32 * i)" if "D (off + 32 * i + 11) \<noteq> attribute_code LFN"
    using entry_on_disk(1) [of m "lb_dirp b + 32 * of_nat i" "disk_mem D (off + 32 * i)"] e(3) that by (simp add: entry_name_def)
  show "unat (lb_dirp b + 32 * of_nat i) = unat (lb_dirp b) + 32 * i" "32 * i + 32 \<le> lb_size b" using e(1,2) by simp_all
qed

lemma lfn_step:
  assumes "list_ready a len L m b D off k" "i < lb_count b" "lb_count b < 2 ^ 32" "D (off + 32 * i + 11) = attribute_code LFN"
    and "off_heap a len lfn_str 4" "\<forall>j < i. listed L m b D off lfn_str j"
  shows "\<exists>m1. dirList_loop g lfn_str str m (lb_dir b) (lb_names b) (lb_ret b) (of_nat i) =
      dirList_loop g lfn_str str m1 (lb_dir b) (lb_names b) (lb_ret b) (of_nat (Suc i)) \<and>
    list_ready a len L m1 b D off k \<and> (\<forall>j < Suc i. listed L m1 b D off lfn_str j)"
proof -
  define m1 where "m1 = write_bytes m lfn_str [76, 70, 78, 0]"
  define m2 where "m2 = store32 m1 (lb_names b + 4 * of_nat i) lfn_str"
  define m3 where "m3 = store32 m2 (lb_attrs b + 4 * of_nat i) (ucast (attribute_code LFN))"
  note s1 = list_stack [OF assms(1,5) _ assms(6), of "[76, 70, 78, 0]", folded m1_def]
  note s2 = list_enter [OF s1(1) assms(2) subset_refl s1(2) m2_def]
  have m3': "m3 = store32 m2 (lb_attrs b + 4 * of_nat i) (ucast (D (off + 32 * i + 11)))" unfolding m3_def assms(4) ..
  note s3 = list_attribute [OF s2(1) assms(2) s2(3) m3' s2(2)]
  note e = list_entry [OF assms(1-3)]
  have at: "load32 m2 (lb_ret b + 12) = lb_attrs b" using list_entry(3) [OF s2(1) assms(2,3)] assms(2) by simp
  have "dirList_loop g lfn_str str m (lb_dir b) (lb_names b) (lb_ret b) (of_nat i) =
      dirList_loop g lfn_str str m3 (lb_dir b) (lb_names b) (lb_ret b) (of_nat i + 1)"
    by (subst dirList_loop.simps)
      (simp only: Let_def e(1,2,4) assms(4) if_True simp_thms m1_def [symmetric] m2_def [symmetric] at m3_def [symmetric])
  moreover have "of_nat i + 1 = (of_nat (Suc i) :: u32)" by simp
  ultimately show ?thesis using s3 assms(2,4) by (intro exI [of _ m3]) simp
qed

lemma named_step:
  assumes "list_ready (unat (heap g)) len L m b D off (21 + k)" "i < lb_count b" "lb_count b < 2 ^ 32" "D (off + 32 * i + 11) \<noteq> attribute_code LFN"
    and "off_heap (unat (heap g)) len str 13" "\<forall>j < i. listed L m b D off lfn_str j" "0 \<notin> set (entry_name D (off + 32 * i))"
  shows "\<exists>m1 L1. dirList_loop g lfn_str str m (lb_dir b) (lb_names b) (lb_ret b) (of_nat i) =
      dirList_loop g lfn_str str m1 (lb_dir b) (lb_names b) (lb_ret b) (of_nat (Suc i)) \<and>
    list_ready (unat (heap g)) len L1 m1 b D off k \<and> (\<forall>j < Suc i. listed L1 m1 b D off lfn_str j)"
proof -
  let ?a = "unat (heap g)" and ?ptr = "lb_dirp b + 32 * of_nat i" and ?name = "entry_name D (off + 32 * i)"
  note r = list_blocks_in [OF assms(1)] and e = list_entry [OF assms(1-3)]
  have top: "?a + len \<le> 2 ^ 32" "?a + 8 \<le> unat (lb_dirp b)" "unat (lb_dirp b) + lb_size b + 8 \<le> ?a + len"
    using arena_inside [OF r(1,4)] by auto
  have len: "length ?name \<le> 12" by (rule entry_name_length)
  have ptr32: "unat (32 :: u32) = 32" "unat (13 :: u32) = 13" by simp_all
  have "off_heap ?a len str (unat (13 :: u32))" using assms(5) ptr32 by simp
  then have sp: "sep str 13 ?ptr 32"
    by (rule off_heap_sep) (use e(6,7) top ptr32 in auto)
  define m1 where "m1 = write_bytes m str (?name @ [0])"
  have written: "(case name_loop m ?ptr str 0 of (i, m) \<Rightarrow>
     (case (if m (?ptr + 11) \<noteq> attribute_code SUBDIRECTORY then ext_loop (m(str + i := 46)) ?ptr str 0 (i + 1) else (i, m)) of
        (i, m) \<Rightarrow> m(str + i := 0))) = m1"
    using name_text(1) [OF sp] e(5) [OF assms(4)] m1_def by simp
  note s1 = list_stack [OF assms(1,5) _ assms(6), of "?name @ [0]", folded m1_def]
  have s1': "list_ready ?a len L m1 b D off (21 + k)" "\<forall>j < i. listed L m1 b D off lfn_str j"
    using s1 len assms(2) by auto
  have str1: "cstr m1 str ?name" unfolding m1_def using assms(7) len by (intro cstr_write_bytes) auto
  have "arena ?a len m1 L (Suc (length ?name) + 8 + k)" by (rule arena_mono [OF list_blocks_in(1) [OF s1'(1)]]) (use len in simp)
  then obtain p m2 where p: "kalloc g m1 (of_nat (Suc (length ?name))) = Some (p, m2)"
    "arena ?a len m2 (insert (unat p, Suc (length ?name)) L) k" "unat p \<notin> fst ` L" "\<forall>d \<in> L. same_block d m1 m2" "heap_only ?a len m1 m2"
    using arena_kalloc [of g len m1 L "Suc (length ?name)" k] len by auto
  let ?L = "insert (unat p, Suc (length ?name)) L"
  have s2: "list_ready ?a len ?L m2 b D off k" "\<forall>j < i. listed L m2 b D off lfn_str j"
  proof -
    note r1 = list_blocks_in [OF s1'(1)]
    show "list_ready ?a len ?L m2 b D off k"
      by (rule list_ready_same [OF s1'(1) p(2)]) (use p(4) r1(3-5) in auto)
    show "\<forall>j < i. listed L m2 b D off lfn_str j"
      using listed_kept [OF r1(1,2) _ _ _ subset_refl, of m1 m2] p(4) s1'(2) assms(2) by simp
  qed
  define m3 where "m3 = store32 m2 (lb_names b + 4 * of_nat i) p"
  note s3 = list_enter [OF s2(1) assms(2) subset_insertI s2(2) m3_def]
  note r3 = list_blocks_in [OF s3(1)]
  have "m3 (str + of_nat j) = m1 (str + of_nat j)" if "j < 13" for j
    using list_store(5) [OF s2(1) _ assms(2) m3_def assms(5) that] heap_only_off_heap [OF p(5) assms(5) that top(1)] by simp
  then have str3: "cstr m3 str ?name" using str1 len by (simp add: cstr_nth)
  have pin: "(unat p, Suc (length ?name)) \<in> ?L" by simp
  have ptop: "?a + 8 \<le> unat p" "unat p + Suc (length ?name) + 8 \<le> ?a + len" using arena_inside [OF p(2) pin] by auto
  define n :: u32 where "n = of_nat (length ?name) + 1"
  have n: "unat n = Suc (length ?name)" using len by (simp add: n_def unat_word_ariths unat_of_nat)
  have "off_heap ?a len str (unat n)" using assms(5) len n by (auto simp: off_heap_def)
  then have "sep str n p n" by (rule off_heap_sep) (use n ptop top(1) in auto)
  then have "sep p n str n" by (simp add: sep_sym)
  from strcpy_correct [OF str3 _ n_def this] len obtain m4 where m4: "strcpy m3 p str = Some m4" "cstr m4 p ?name"
    "\<And>x. \<not> x - p < n \<Longrightarrow> m4 x = m3 x" by auto
  have out: "m4 (of_nat x) = m3 (of_nat x)" if "?a \<le> x" "x < ?a + len" "\<not> (unat p \<le> x \<and> x < unat p + Suc (length ?name))" for x
  proof (rule m4(3))
    show "\<not> of_nat x - p < n"
      using of_nat_outside [of x "unat p" "unat n", unfolded of_nat_unat] n that ptop top(1) by auto
  qed
  note w = owner_write [OF r3(1) pin out]
  have base: "unat p \<notin> fst ` list_base b" using p(3) r(2) by blast
  have s4: "list_ready ?a len ?L m4 b D off k" "\<forall>j < i. listed ?L m4 b D off lfn_str j" "load32 m4 (lb_names b + 4 * of_nat i) = p"
  proof -
    have blocks: "same_block d m3 m4" if "d \<in> L" for d using w(2) that p(3) by (metis fst_conv imageI insertI2)
    show "list_ready ?a len ?L m4 b D off k"
      by (rule list_ready_same [OF s3(1) w(1) subset_refl]) (use blocks r(3-5) in auto)
    show "\<forall>j < i. listed ?L m4 b D off lfn_str j"
      using listed_kept [OF r(1,2) blocks _ _ subset_insertI] s3(3) assms(2) by simp
    show "load32 m4 (lb_names b + 4 * of_nat i) = p"
      using load32_block [OF blocks [OF r(6)], of "4 * i"] arena_inside [OF r(1,6)] assms(2) s3(2) by simp
  qed
  define m5 where "m5 = store32 m4 (lb_attrs b + 4 * of_nat i) (ucast (D (off + 32 * i + 11)))"
  note s5 = list_attribute [OF s4(1) assms(2) s4(2) m5_def s4(3)]
  note e4 = list_entry [OF s4(1) assms(2,3)]
  have "dirList_loop g lfn_str str m (lb_dir b) (lb_names b) (lb_ret b) (of_nat i) =
      dirList_loop g lfn_str str m5 (lb_dir b) (lb_names b) (lb_ret b) (of_nat i + 1)"
  proof -
    obtain j1 ma where na: "name_loop m ?ptr str 0 = (j1, ma)" by fastforce
    obtain j2 mb where ex: "(if ma (?ptr + 11) \<noteq> attribute_code SUBDIRECTORY then ext_loop (ma(str + j1 := 46)) ?ptr str 0 (j1 + 1) else (j1, ma)) = (j2, mb)"
      by fastforce
    have m1: "mb(str + j2 := 0) = m1" using written unfolding na prod.case ex .
    have al: "kalloc g m1 (of_nat (length ?name) + 1) = Some (p, m2)" using p(1) by (simp add: add.commute)
    show ?thesis
      by (subst dirList_loop.simps)
        (simp only: Let_def e(1,2,4) assms(4) if_True if_False prod.case option.case na ex m1 strlen_cstr [OF str1] al m3_def [symmetric] m4(1)
          e4(3,4) m5_def [symmetric])
  qed
  moreover have "of_nat i + 1 = (of_nat (Suc i) :: u32)" by simp
  ultimately show ?thesis using s5 assms(2,4) m4(2) base pin by (intro exI [of _ m5] exI [of _ ?L]) simp
qed

section \<open>The whole list\<close>

lemma list_loop:
  assumes "list_ready (unat (heap g)) len L m b D off (21 * d + k)" "i + d = lb_count b" "lb_count b < 2 ^ 32"
    and "off_heap (unat (heap g)) len lfn_str 4" "off_heap (unat (heap g)) len str 13" "\<forall>j < i. listed L m b D off lfn_str j"
    and "\<forall>j < lb_count b. 0 \<notin> set (entry_name D (off + 32 * j))"
  shows "\<exists>m1 L1. dirList_loop g lfn_str str m (lb_dir b) (lb_names b) (lb_ret b) (of_nat i) = Some m1 \<and>
    list_ready (unat (heap g)) len L1 m1 b D off k \<and> (\<forall>j < lb_count b. listed L1 m1 b D off lfn_str j)"
  using assms(1,2,6)
proof (induction d arbitrary: i m L)
  case 0
  then have "dir_ready L m (lb_dir b) (lb_dirp b) (lb_size b) D off (lb_count b)" using list_blocks_in(8) by blast
  then have "\<not> of_nat i < load32 m (lb_dir b + 4)" using 0 by (simp add: dir_ready_def)
  then have "dirList_loop g lfn_str str m (lb_dir b) (lb_names b) (lb_ret b) (of_nat i) = Some m" by (subst dirList_loop.simps) simp
  with 0 show ?case by auto
next
  case (Suc d)
  have ready: "list_ready (unat (heap g)) len L m b D off (21 + (21 * d + k))" using Suc.prems(1) by (simp add: add.assoc)
  have i: "i < lb_count b" "Suc i + d = lb_count b" using Suc.prems(2) by auto
  obtain m1 L1 where s: "dirList_loop g lfn_str str m (lb_dir b) (lb_names b) (lb_ret b) (of_nat i) =
      dirList_loop g lfn_str str m1 (lb_dir b) (lb_names b) (lb_ret b) (of_nat (Suc i))"
    "list_ready (unat (heap g)) len L1 m1 b D off (21 * d + k)" "\<forall>j < Suc i. listed L1 m1 b D off lfn_str j"
  proof (cases "D (off + 32 * i + 11) = attribute_code LFN")
    case True
    have "list_ready (unat (heap g)) len L m b D off (21 * d + k)"
      using ready arena_mono [of _ _ _ _ "21 + (21 * d + k)" "21 * d + k"] by (auto simp: list_ready_def)
    from lfn_step [OF this i(1) assms(3) True assms(4) Suc.prems(3)] that show ?thesis by blast
  next
    case False
    from named_step [OF ready i(1) assms(3) False assms(5) Suc.prems(3)] assms(7) i(1) that show ?thesis by blast
  qed
  from Suc.IH [OF s(2) i(2) s(3)] s(1) show ?case by simp
qed

text \<open>The last stores fill in the result.\<close>

lemma list_result:
  assumes "list_ready a len L m b D off k" "\<forall>j < lb_count b. listed L m b D off lfn_str j"
    and "m1 = store32 m (lb_ret b + 8) (lb_names b)" "m' = store32 (store32 m1 (lb_ret b + 4) (load32 m1 (lb_dir b + 4))) (lb_ret b) 0"
  shows "load32 m' (lb_ret b) = 0 \<and> load32 m' (lb_ret b + 4) = of_nat (lb_count b) \<and> load32 m' (lb_ret b + 8) = lb_names b \<and>
    load32 m' (lb_ret b + 12) = lb_attrs b \<and> (\<forall>j < lb_count b. listed L m' b D off lfn_str j)"
proof -
  note r = list_blocks_in [OF assms(1)]
  have le: "8 + 4 \<le> (16 :: nat)" "4 + 4 \<le> (16 :: nat)" "0 + 4 \<le> (16 :: nat)" by simp_all
  let ?m1 = "store32 m (lb_ret b + of_nat 8) (lb_names b)"
  let ?m2 = "store32 ?m1 (lb_ret b + of_nat 4) (load32 m1 (lb_dir b + 4))"
  have m: "m1 = ?m1" "m' = store32 ?m2 (lb_ret b + of_nat 0) 0" using assms(3,4) by simp_all
  note a1 = owner_store32(1) [OF r(1,5) le(1), of "lb_names b"]
  note a2 = owner_store32(1) [OF a1 r(5) le(2), of "load32 m1 (lb_dir b + 4)"]
  have blocks: "same_block d m m1" "same_block d m m'" if "d \<in> L" "fst d \<noteq> unat (lb_ret b)" for d
  proof -
    have d: "d \<noteq> (unat (lb_ret b), 16)" using that(2) by auto
    note st = owner_store32(2) [OF r(1,5) le(1) that(1) d] owner_store32(2) [OF a1 r(5) le(2) that(1) d]
      owner_store32(2) [OF a2 r(5) le(3) that(1) d]
    show "same_block d m m1" unfolding m(1) by (rule st(1))
    show "same_block d m m'" unfolding m(2) by (intro same_block_trans [OF same_block_trans [OF st(1,2)] st(3)])
  qed
  have dist: "lb_dir b \<noteq> lb_ret b" "lb_names b \<noteq> lb_ret b" "lb_attrs b \<noteq> lb_ret b" using assms(1) by (auto simp: list_ready_def)
  have "load32 m1 (lb_dir b + 4) = load32 m (lb_dir b + 4)"
    by (rule load32_block [of _ 12 _ _ 4]) (use blocks(1) [OF r(3)] dist arena_inside [OF r(1,3)] in \<open>auto simp: word_unat_eq_iff\<close>)
  then have n: "load32 m1 (lb_dir b + 4) = of_nat (lb_count b)" using r(8) by (simp add: dir_ready_def)
  have "listed L m' b D off lfn_str j" if "j < lb_count b" for j
  proof (rule listed_same [OF assms(2) [rule_format, OF that] subset_refl])
    show "load32 m' (lb_attrs b + 4 * of_nat j) = load32 m (lb_attrs b + 4 * of_nat j)"
      by (rule load32_block [of _ "4 * lb_count b" _ _ "4 * j"])
        (use blocks(2) [OF r(7)] dist that arena_inside [OF r(1,7)] in \<open>auto simp: word_unat_eq_iff\<close>)
    show "load32 m' (lb_names b + 4 * of_nat j) = load32 m (lb_names b + 4 * of_nat j)"
      by (rule load32_block [of _ "4 * lb_count b" _ _ "4 * j"])
        (use blocks(2) [OF r(6)] dist that arena_inside [OF r(1,6)] in \<open>auto simp: word_unat_eq_iff\<close>)
  qed (use blocks(2) in \<open>auto simp: list_base_def\<close>)
  then show ?thesis using assms(1,3,4) n by (auto simp: mem_simps sep_def word_le_nat_alt list_ready_def)
qed

context sector_reader
begin

lemma list_reads:
  assumes "medium dev D" "root_ready g len m L f n D off N" "b = vbr_bpd (vbr_at m (vbr f))"
    and "arena (unat (heap g)) len m L (cluster_bytes b + 68 + 29 * N)"
    and "off_heap (unat (heap g)) len lfn_str 4" "off_heap (unat (heap g)) len str 13"
    and "\<forall>j < N. 0 \<notin> set (entry_name D (off + 32 * j))"
  shows "\<exists>bl L' m'. getInternalDirectoryList (readf dev) lfn_str str g m f = Some (Inr (lb_ret bl, m')) \<and> lb_count bl = N \<and>
    load32 m' (lb_ret bl) = 0 \<and> load32 m' (lb_ret bl + 4) = of_nat N \<and> load32 m' (lb_ret bl + 8) = lb_names bl \<and>
    load32 m' (lb_ret bl + 12) = lb_attrs bl \<and> (\<forall>j < N. listed L' m' bl D off lfn_str j)"
proof -
  let ?a = "unat (heap g)" and ?r = "clusterNumberRoot b"
  have h: "clear_of_scratch ?a len" "volume_in f n L" "8 \<le> FAT_entry f m ?r AND 0xF" "bytesPerSector b = 512"
    "unat (sectorsPerCluster b) mod 127 \<noteq> 0" "unat (cluster_LBA f b ?r) + unat (sectorsPerCluster b) \<le> 2 ^ 32"
    "disk_dir D (512 * unat (cluster_LBA f b ?r)) (cluster_bytes b) N" "off = 512 * unat (cluster_LBA f b ?r)"
    using assms(2,3) FAT_end_low [of f m ?r] by (auto simp: root_ready_def Let_def)
  have N: "4 * N < 2 ^ 32" "N < 2 ^ 32" using h(7) unat_less_2pow [of "sectorsPerCluster b"] by (auto simp: disk_dir_def cluster_bytes_def)
  have "arena ?a len m L (cluster_bytes b + 8 + (12 + 8 + (16 + 8 + (4 * N + 8 + (4 * N + 8 + 21 * N)))))" using assms(4) by (simp add: add_ac)
  from readDir_reads [OF assms(1) h(1,2) assms(3) h(3) this h(4-7)] obtain dir dirp m1 L1
    where d: "readDir (readf dev) g m f ?r = Some (Inr (dir, m1))" "dir_ready L1 m1 dir dirp (cluster_bytes b) D off N"
      "arena ?a len m1 L1 (16 + 8 + (4 * N + 8 + (4 * N + 8 + 21 * N)))"
    using h(8) by auto
  obtain ret m2 where r: "kalloc g m1 (of_nat 16) = Some (ret, m2)" "arena ?a len m2 (insert (unat ret, 16) L1) (4 * N + 8 + (4 * N + 8 + 21 * N))"
    "unat ret \<notin> fst ` L1" "kept ?a len L1 m1 m2"
    using kalloc_kept [OF d(3)] by auto
  let ?L2 = "insert (unat ret, 16) L1"
  obtain names m3 where nm: "kalloc g m2 (of_nat (4 * N)) = Some (names, m3)" "arena ?a len m3 (insert (unat names, 4 * N) ?L2) (4 * N + 8 + 21 * N)"
    "unat names \<notin> fst ` ?L2" "kept ?a len ?L2 m2 m3"
    using kalloc_kept [OF r(2) N(1)] by auto
  let ?L3 = "insert (unat names, 4 * N) ?L2"
  obtain attrs m4 where at: "kalloc g m3 (of_nat (4 * N)) = Some (attrs, m4)" "arena ?a len m4 (insert (unat attrs, 4 * N) ?L3) (21 * N)"
    "unat attrs \<notin> fst ` ?L3" "kept ?a len ?L3 m3 m4"
    using kalloc_kept [OF nm(2) N(1)] by auto
  let ?L4 = "insert (unat attrs, 4 * N) ?L3"
  have rin: "(unat ret, 16) \<in> ?L4" "12 + 4 \<le> (16 :: nat)" by simp_all
  define m5 where "m5 = store32 m4 (ret + of_nat 12) attrs"
  note st = owner_store32 [OF at(2) rin, where v = attrs, folded m5_def]
  have "kept ?a len L1 m1 m4" using kept_trans [OF kept_trans [OF r(4) nm(4) subset_insertI] at(4)] by blast
  moreover have "kept ?a len L1 m4 m5"
    unfolding kept_def
  proof (intro conjI allI impI ballI)
    fix d assume "d \<in> L1"
    then show "same_block d m4 m5" using st(2) [of d] r(3) by force
  next
    fix x assume "fixed ?a len x"
    then show "m5 x = m4 x" unfolding m5_def by (rule owner_store32_fixed [OF at(2) rin])
  qed
  ultimately have "kept ?a len L1 m1 m5" by (rule kept_trans) simp
  from dir_ready_kept [OF d(2) this d(3) subset_refl] have dr: "dir_ready L1 m5 dir dirp (cluster_bytes b) D off N" .
  define bl where "bl = \<lparr>lb_dir = dir, lb_dirp = dirp, lb_size = cluster_bytes b, lb_ret = ret, lb_names = names, lb_attrs = attrs, lb_count = N\<rparr>"
  have bl: "lb_dir bl = dir" "lb_dirp bl = dirp" "lb_size bl = cluster_bytes b" "lb_ret bl = ret" "lb_names bl = names" "lb_attrs bl = attrs" "lb_count bl = N"
    by (simp_all add: bl_def)
  have din: "(unat dir, 12) \<in> L1" "(unat dirp, cluster_bytes b) \<in> L1" using d(2) by (auto simp: dir_ready_def)
  have "cluster_bytes b \<noteq> 12 \<and> 0 < cluster_bytes b" using h(7) by (auto simp: disk_dir_def cluster_bytes_def)
  then have "dir \<noteq> dirp" using arena_apart [OF d(3) din] by auto
  then have dist: "distinct [names, attrs, dir, dirp, ret]"
    using din r(3) nm(3) at(3) by (auto simp: word_unat_eq_iff image_iff)
  have "arena ?a len m5 ?L4 (21 * N + 0)" using st(1) by simp
  then have ready: "list_ready ?a len ?L4 m5 bl D off (21 * N + 0)"
    using dr din dist m5_def by (auto simp: list_ready_def list_base_def dir_ready_def bl mem_simps)
  obtain m6 L6 where m6: "dirList_loop g lfn_str str m5 dir names ret 0 = Some m6" "list_ready ?a len L6 m6 bl D off 0"
    "\<forall>j < lb_count bl. listed L6 m6 bl D off lfn_str j"
    using list_loop [OF ready _ _ assms(5,6), where i = 0] assms(7) N(2) by (auto simp: bl)
  have cnt: "load32 m2 (dir + 4) = of_nat N" "load32 m3 (dir + 4) = of_nat N" "load32 m1 (dir + 4) = of_nat N"
    using d(2) kept_load32 [OF r(4) d(3) din(1), of 4] kept_load32 [OF nm(4) r(2) insertI2 [OF din(1)], of 4]
    by (simp_all add: dir_ready_def)
  show ?thesis
    using list_result [OF m6(2,3) refl refl] d(1) r(1) nm(1) at(1) cnt m6(1) assms(3) m5_def
    by (intro exI [of _ bl] exI [of _ L6]) (simp add: getInternalDirectoryList_def Let_def bl)
qed

end

text \<open>
  C14. On an open volume whose root directory is one cluster, \<open>getInternalDirectoryList\<close> returns a list with code 0 and one element
  for each entry up to the end mark: the attributes are those on the disk, and the name is a C string equal to the name of the entry, its extension
  included unless it is a subdirectory. The name of a long-name entry is not a string of the list: it is the address of the local array of the call, which
  no longer exists when the list is read. The list needs at most 29 bytes of the heap per entry.
\<close>

theorem getInternalDirectoryList_lists:
  assumes "bios_reads bios disk D" "root_ready g len m L f n D off N" "b = vbr_bpd (vbr_at m (vbr f))"
    and "arena (unat (heap g)) len m L (cluster_bytes b + 68 + 29 * N)"
    and "off_heap (unat (heap g)) len lfn_str 4" "off_heap (unat (heap g)) len str 13"
    and "\<forall>j < N. 0 \<notin> set (entry_name D (off + 32 * j))"
  shows "\<exists>ret m' r. getInternalDirectoryList (diskReadFunc bios disk) lfn_str str g m f = Some (Inr (ret, m')) \<and> r = internalDirList_at m' ret \<and>
    dl_returnCode r = 0 \<and> dl_size r = of_nat N \<and>
    (\<forall>j < N. let e = disk_entry D (off + 32 * j); name = load32 m' (dl_list r + 4 * of_nat j) in
      load32 m' (dl_attr r + 4 * of_nat j) = ucast (entry_attributes e) \<and>
      (if entry_attributes e = attribute_code LFN then name = lfn_str else cstr m' name (entry_name D (off + 32 * j))))"
proof -
  obtain bl L' m' where r: "getInternalDirectoryList (diskReadFunc bios disk) lfn_str str g m f = Some (Inr (lb_ret bl, m'))"
    "load32 m' (lb_ret bl) = 0" "load32 m' (lb_ret bl + 4) = of_nat N" "load32 m' (lb_ret bl + 8) = lb_names bl"
    "load32 m' (lb_ret bl + 12) = lb_attrs bl" "\<forall>j < N. listed L' m' bl D off lfn_str j"
    using bios_disk.list_reads [of "(bios, disk)", OF _ assms(2-)] assms(1) by auto
  have "entry_attributes (disk_entry D (off + 32 * j)) = D (off + 32 * j + 11)" for j
    by (simp add: disk_entry_def dirEntry_at_def disk_mem_def)
  with r show ?thesis by (auto simp: internalDirList_at_def listed_def Let_def)
qed

theorem getInternalDirectoryList_lists_witness:
  "\<exists>g m f ret m'. getInternalDirectoryList (diskReadFunc (model_bios tiny_disk) 0x80) 0x3000 0x3010 g m f = Some (Inr (ret, m')) \<and>
     dl_size (internalDirList_at m' ret) = 1 \<and> cstr m' (load32 m' (dl_list (internalDirList_at m' ret))) [65, 46, 66, 73, 78]"
proof -
  obtain g :: heap_vars and m f L where g: "root_ready g 0x8000 m L f 512 tiny_disk 1024 1" "arena (unat (heap g)) 0x8000 m L 0x7000"
    "vbr_bpd (vbr_at m (vbr f)) = disk_bpd tiny_disk 0" "unat (heap g) = 0x100000"
    using tiny_volume by metis
  have ar: "arena (unat (heap g)) 0x8000 m L (cluster_bytes (disk_bpd tiny_disk 0) + 68 + 29 * 1)"
    using arena_mono [OF g(2)] by (simp add: cluster_bytes_def tiny_bpd)
  have off: "off_heap (unat (heap g)) 0x8000 0x3000 4" "off_heap (unat (heap g)) 0x8000 0x3010 13"
    using g(4) by (simp_all add: off_heap_def)
  have attr: "entry_attributes (disk_entry tiny_disk 1024) \<noteq> attribute_code LFN"
    by (simp add: disk_entry_def dirEntry_at_def disk_mem_def tiny_disk_def)
  obtain ret m' where r: "getInternalDirectoryList (diskReadFunc (model_bios tiny_disk) 0x80) 0x3000 0x3010 g m f = Some (Inr (ret, m'))"
    "dl_size (internalDirList_at m' ret) = 1"
    "cstr m' (load32 m' (dl_list (internalDirList_at m' ret))) (entry_name tiny_disk 1024)"
    using getInternalDirectoryList_lists [OF model_bios_reads g(1) g(3) [symmetric] ar off, of "0x80"] attr
    by (auto simp: tiny_entry Let_def)
  then show ?thesis unfolding tiny_entry(1) by blast
qed

end
