(* ===== verification/Spec2Isabelle.thy ===== *)
theory Spec2Isabelle
  imports Boot Cells RealMode Fat32List
begin

text \<open>
  RainbowOS: a boot loader and a kernel for 32-bit PCs. This development models the C and C++ code of both as functions
  over a flat byte memory and proves what each part does.

  \<^bold>\<open>The program.\<close> The 16-bit start-up code loads the 32-bit part of the boot loader, whose main function \<open>_stage1Main\<close>
  (\<open>bootloader/stage1main.cpp\<close>) takes over the screen, sets up a heap, finds the active partition in the master boot record, opens the FAT32 volume
  on it through BIOS disk reads, reads \<open>KERNEL.BIN\<close> into the heap, searches it for a multiboot header, collects the memory map of the
  BIOS, puts the ELF segments in place, and passes the entry point, the multiboot information and the screen position on. The kernel's \<open>kmain\<close>
  (\<open>kernel/kmain.cpp\<close>) recovers the screen position, fills the interrupt descriptor table, masks the legacy
  interrupt controllers, finds the ACPI tables and the I/O APIC in them, and ends in a test interrupt.

  \<^bold>\<open>Conventions.\<close> Memory is a total function from 32-bit addresses to bytes (\<open>Prelude.memory\<close>), so aliasing of
  buffers, headers and tables is what it is on the machine. A struct of the source is a \<open>record\<close> with a decoder \<open>x_at\<close> that
  reads its fields at their offsets; a pointer is a \<open>u32\<close> and null is 0; machine integers are words of the width of the source, so
  sums and differences wrap around. A panic is \<open>Inl\<close> of its message and a result is \<open>Inr\<close> (type \<open>outcome\<close>); a loop
  that the code does not bound is a \<open>partial_function (option)\<close>, so \<open>None\<close> means that the call never returns (type \<open>run\<close>). No function of the
  development has fuel: that a call returns is proved as \<open>Some\<close>, that it does not as \<open>None\<close>.

  \<^bold>\<open>Theories and source files.\<close>
  \<^item> \<open>Prelude\<close>: memory, loads and stores of every width, C strings, blocks and their disjointness, word counters; the collections
    \<open>mem_simps\<close> and \<open>struct_defs\<close> that carry the later proofs.
  \<^item> \<open>CString\<close>: \<open>lib/stdlibC/string.c\<close>. Copying is faithful, overlap included; the string functions return exactly when a NUL
    is there; \<open>memcmp\<close> is the comparison of lists. Its locale \<open>block_copy\<close> is the contract of \<open>memcpy\<close> and \<open>memmove\<close>.
  \<^item> \<open>Xtoa\<close>: \<open>xtoa\<close> of \<open>include/klib/cstdlib.hpp\<close>. The digits denote the number and fit the buffer.
  \<^item> \<open>Terminal\<close>: class \<open>framebuffer_terminal\<close> of \<open>devices/BIOSVideoIO.hpp\<close> and \<open>lib/io/BIOSVideoIO.cpp\<close>. Its state is the record
    \<open>framebuffer_terminal\<close> and the video memory; the record \<open>screen\<close> is the abstract terminal that it refines, and
    \<open>term_run\<close> is the relation of sequences of calls, with the invariant \<open>term_inv\<close>.
  \<^item> \<open>Cells\<close>: the typing of the screen. The colours are an instance of \<open>enum\<close>, and every call keeps the cells typed.
  \<^item> \<open>Outstream\<close>: \<open>_outstream\<close> of \<open>include/klib/io.hpp\<close> with \<open>earlyPanic\<close> of \<open>lib/stdlibC/cstdlib.cpp\<close> and \<open>abort\<close> of \<open>abort.c\<close>. The stream is written against the
    locale \<open>char_sink\<close>, which both terminals provide; chains of \<open>operator<<\<close> are lists of items (\<open>out_chain\<close>).
  \<^item> \<open>RealMode\<close>: class \<open>realMode_terminal\<close> of \<open>devices/BIOSVideoIO.hpp\<close>. Its state is the sequence of BIOS calls with their registers.
  \<^item> \<open>Heap\<close>: \<open>earlyLib/memory.hpp\<close> and \<open>lib/earlyLib/memory.cpp\<close>. The linked list of headers in memory is abstracted to a list of
    blocks (\<open>heap_list\<close>), on which allocation is first fit and freeing merges forward. The locale \<open>allocator\<close> states
    what a client may rely on, \<open>client_run\<close> any sequence of its calls and writes.
  \<^item> \<open>DiskRead\<close>: \<open>diskRead16.hpp\<close> and \<open>diskRead16.cpp\<close>, batches of 127 sectors through a bounce buffer. The BIOS is a parameter; \<open>bios_reads\<close>
    says that it delivers the sectors of an image. The locale \<open>sector_reader\<close> is the contract that the file system uses.
  \<^item> \<open>Mbr\<close>, \<open>MemDetect\<close>, \<open>Multiboot\<close>: \<open>fs/mbr.hpp\<close>, \<open>memoryDetection16.cpp\<close> and the multiboot functions of \<open>stage1main.cpp\<close>
    (partition choice, BIOS memory map, header search and information structure).
  \<^item> \<open>Elf\<close>: \<open>sys/elf.h\<close> and \<open>elf32_load\<close> of \<open>stage1main.cpp\<close>, with its messages. Loading is compared with the image of the segments.
  \<^item> \<open>Fat32\<close>: class \<open>fat32\<close> of \<open>fs/fat32.hpp\<close> and \<open>lib/fs/fat32.cpp\<close>; \<open>Fat32File\<close>: what opening the volume, reading a directory and
    reading a file give in terms of the bytes of the disk (\<open>disk_volume\<close>), over the allocator and a sector reader; \<open>Fat32List\<close>: the list of a
    directory, with the invariant of the loop that builds it.
  \<^item> \<open>Idt\<close>: \<open>interrupts.hpp\<close>, \<open>interrupts.cpp\<close>, \<open>pic.hpp\<close>, \<open>cpuio.hpp\<close>. Port writes and the instructions \<open>cli\<close>, \<open>sti\<close> and
    \<open>lidt\<close> are a trace of events, so that their order can be stated. \<open>Interrupt\<close>: what the processor does at an \<open>int\<close> instruction with the table whose address the last \<open>lidt\<close> has
    loaded (\<open>int_target\<close>: the gate must be within the limit and present, else it faults), and the frame that the stubs of \<open>kernel/system/interruptHandler.S\<close> make for the handler (\<open>isr_stub\<close>).
  \<^item> \<open>Acpi\<close>: \<open>acpi.hpp\<close>, \<open>acpiKernel.cpp\<close>, \<open>acpi.cpp\<close>; \<open>AcpiTables\<close>: a set of tables described by its bytes (\<open>acpi_tables\<close>, \<open>acpi_bytes\<close>),
    which the code finds and which survives every change elsewhere; \<open>Apic\<close>: \<open>cpuid\<close>, \<open>msr\<close> and \<open>apic\<close> of \<open>kernelInternal/devices/cpu\<close>.
  \<^item> \<open>Stage1\<close> and \<open>Kmain\<close>: the two main functions, composed of the above. \<open>Boot\<close> composes the theorems on the steps of the loader into one run, from
    the bytes of the disk to the memory at the jump, and has a concrete disk on which it boots. Every step of the loader comes with a frame: what it leaves
    alone (\<open>heap_only\<close>, \<open>fixed\<close>, \<open>free_high\<close>, \<open>spared\<close>), so that the ACPI tables are still there when the kernel looks for them.
    The state of \<open>kmain\<close> is the record \<open>kernel_state\<close> of the objects it has built, the model-specific registers and the trace; it ends in a panic or in a fault at its test interrupt (\<open>kernel_end\<close>), with that state.
    This theory: the run as a whole, with and without a proper kernel, and from the disk to the interrupt in which the kernel ends.

  \<^bold>\<open>Bounds.\<close> The heap lemmas speak of an arena of a given length and its longest free tail (\<open>arena\<close>). The hypotheses ask for what the code allocates
  one after the other: a FAT32 volume takes the boot record (512 bytes), the file allocation table, one sector per
  cluster of a directory and of a file, the name buffers and a result structure, each with a header of 8 bytes; the numbers
  in the hypotheses (such as 528 for one sector and two headers) are sums of these, and the witnesses show that a heap of the size the loader uses meets them.
  File sizes and cluster counts are bounded so that no 32-bit product wraps around; where the code wraps, the theorem says so.

  \<^bold>\<open>Interfaces to what is not C or C++.\<close> The BIOS services, the CPUID instruction, the contents of memory at start, the device registers of the I/O APIC and the addresses
  of local arrays and assembly labels are arguments of the definitions. The hypotheses on them are the documented behaviour:
  a disk read delivers the sectors, a memory map is a finite list of entries, a started stream and screen are in their ranges. A BIOS may answer a request for a memory map entry with 20 or with 24 bytes:
  \<open>bios_answers\<close> allows both, and \<open>queryUpperMemory\<close> discards some of the long answers; \<open>bios_map\<close>, which the theorems on the whole loader assume, is a BIOS with 20-byte answers, whose map is collected whole.

  \<^bold>\<open>Not modelled.\<close> The assembly files \<open>stage0.S\<close>, \<open>stage1.S\<close> and \<open>boot.S\<close>, the real-mode stubs, and the return path of the interrupt stubs (the handler is only entered). Between the jump of the loader
  and \<open>kmain\<close>, the entry code of the kernel (\<open>boot.S\<close>) sets up a stack and segments: the theorem on the whole run lets it change any bytes of its stack. Also not modelled: the
  tracing macros; \<open>hang\<close>, which only halts; linker scripts and the build.
  Code of the source that is commented out is not modelled either.
\<close>

section \<open>From the boot loader to the kernel\<close>

text \<open>
  C2. Started with a boot record that has an active partition, a BIOS that serves the disk and reports its memory in entries of 20 bytes, a FAT32 volume in that partition
  whose root directory holds the kernel, and a heap with room for what is read: when the file (the first sectors of its clusters)
  is an ELF file whose segments lie in the file and go to separate places above the first megabyte, and has a multiboot header,
  the loader runs to the jump. It passes the entry point of the file; every loadable segment is in memory, zeros included; the information structure answers the
  flags of the header (or is null when they ask for something that is not supported); and the kernel finds the cursor where the loader left it.
\<close>

theorem stage1_boots_kernel:
  assumes "bios_reads b13 (ucast dx) D" "getPartitionLBA m = Inr LBA" "kernel_on_disk D LBA off N name i e cs"
    and "0x1010 \<le> unat stop" "unat stop + boot_heap (disk_bpd D LBA) i e \<le> 0x70000"
    and "own_literal stop m lfn [76, 70, 78]" "own_literal stop m kernel_bin name"
    and "F = disk_file D LBA cs" "elf_kernel F (512 * length cs)" "first_header F (512 * length cs) k"
    and "f = mbh_flags (multiboot_header_at F (4 * of_nat k))"
    and "bios_map b15 cont T" "T \<noteq> []" "length T < 100" "e820_type (T ! 0) \<noteq> 0" "low \<noteq> 0"
  shows "\<exists>h t m'. stage1Main (False, low) b13 b15 lfn kernel_bin os0 f0 m dx stop cursor = Some (Inr (h, t, m')) \<and>
    initAddr h = e_entry (ehdr_at F 0) \<and> kernel_loaded F m' \<and>
    (if f AND 0xfffc = 0 then info_ready m' (mbInfo_ptr h) f low (ucast (ucast dx :: u8)) T else mbInfo_ptr h = 0) \<and>
    t_row (kmain_cursor new_terminal (termIndex h)) = t_row t \<and> t_column (kmain_cursor new_terminal (termIndex h)) = t_column t"
proof -
  obtain h t m' where r: "stage1Main (False, low) b13 b15 lfn kernel_bin os0 f0 m dx stop cursor = Some (Inr (h, t, m'))"
      "initAddr h = e_entry (ehdr_at F 0)" "kernel_loaded F m'" "termIndex h = terminal_index t" "term_inv t"
      "if f AND 0xfffc = 0 then info_ready m' (mbInfo_ptr h) f low (ucast (ucast dx :: u8)) T else mbInfo_ptr h = 0"
    using stage1_boots [OF assms, of os0 f0 cursor] by blast
  then show ?thesis using handoff_cursor [OF r(5)] by auto
qed

theorem stage1_boots_kernel_witness:
  "\<forall>os0 f0. \<exists>h t m'. stage1Main (False, 639) (model_bios (boot_disk 0x7F)) one_region_bios 0x2000 0x2010 os0 f0 boot_memory 0x80 0x8000 0 =
       Some (Inr (h, t, m')) \<and>
     initAddr h = 0x100064 \<and> m' 0x100066 = 0xEB \<and> m' 0x100700 = 0 \<and> boot_device (multiboot_info_at m' (mbInfo_ptr h)) = 0x80"
proof (intro allI)
  fix os0 f0
  let ?F = "boot_file 0x7F" and ?D = "boot_disk 0x7F"
  have b: "bios_reads (model_bios ?D) (ucast (0x80 :: u32)) ?D" by (rule model_bios_reads)
  have elf: "elf_kernel ?F (512 * length [3, 4, 5 :: u32])" "first_header ?F (512 * length [3, 4, 5 :: u32]) 21"
    using boot_file_elf(1) boot_file_header(1) by simp_all
  have f: "3 = mbh_flags (multiboot_header_at ?F (4 * of_nat 21))" using boot_file_header(2) by simp
  obtain h t m' where r: "stage1Main (False, 639) (model_bios ?D) one_region_bios 0x2000 0x2010 os0 f0 boot_memory 0x80 0x8000 0 = Some (Inr (h, t, m'))"
      "initAddr h = 0x100064" "kernel_loaded ?F m'" "boot_device (multiboot_info_at m' (mbInfo_ptr h)) = 0x80"
    using stage1_boots_kernel [OF b boot_partition boot_kernel _ boot_room boot_names boot_file_def elf f one_region_map,
        where low = 639 and ?os0.0 = os0 and ?f0.0 = f0 and cursor = 0]
    by (auto simp: boot_file_elf(2) one_region_def info_ready_def Let_def)
  let ?p = "hd (phdrs ?F)"
  have p: "?p \<in> set (phdrs ?F)" "loads ?p" and pf: "p_paddr ?p = 0x100000" "p_memsz ?p = 0x2000" "p_filesz ?p = 0x600" "p_offset ?p = 0"
    by (simp_all add: boot_file_elf(3) loads_def)
  have "m' (0x100000 + k) = (if k < 0x600 then ?F k else 0)" if "k < 0x2000" for k
    using r(3) [unfolded kernel_loaded_def, rule_format, OF p, unfolded pf, OF that] by simp
  from this [of "0x66"] this [of "0x700"] have "m' 0x100066 = ?F 102" "m' 0x100700 = 0" by simp_all
  moreover have "?F 102 = 0xEB" by (simp add: boot_file_byte boot_disk_def)
  ultimately show "\<exists>h t m'. stage1Main (False, 639) (model_bios ?D) one_region_bios 0x2000 0x2010 os0 f0 boot_memory 0x80 0x8000 0 = Some (Inr (h, t, m')) \<and>
     initAddr h = 0x100064 \<and> m' 0x100066 = 0xEB \<and> m' 0x100700 = 0 \<and> boot_device (multiboot_info_at m' (mbInfo_ptr h)) = 0x80"
    using r by simp
qed

text \<open>
  C1. From the sectors of the disk to the first interrupt: on a machine whose disk holds a proper kernel file, as in \<open>stage1_boots_kernel\<close>, and whose memory holds ACPI tables with
  a record for an I/O APIC, away from the segments of that kernel, the loader runs to the jump, with the kernel's entry point; and
  the kernel, called with the loader's magic number, its screen position and the memory that it leaves (but for the bytes that the kernel's entry code writes to its stack),
  builds all of its objects, enables the local APIC and loads its interrupt table, on every processor with \<open>cpuid\<close> and an APIC. Its test interrupt is dispatched through the gate that it has
  installed, and through the stub whose address a segment of the file puts in entry \<open>0x34\<close> of the stub table, to the handler, which panics with the vector.
\<close>

theorem disk_to_interrupt:
  assumes "bios_reads b13 (ucast dx) D" "getPartitionLBA m = Inr LBA" "kernel_on_disk D LBA off N name i e cs"
    and "0x1010 \<le> unat stop" "unat stop + boot_heap (disk_bpd D LBA) i e \<le> 0x70000"
    and "own_literal stop m lfn [76, 70, 78]" "own_literal stop m kernel_bin name"
    and "F = disk_file D LBA cs" "elf_kernel F (512 * length cs)" "first_header F (512 * length cs) k"
    and "f = mbh_flags (multiboot_header_at F (4 * of_nat k))"
    and "bios_map b15 cont T" "T \<noteq> []" "length T < 100" "e820_type (T ! 0) \<noteq> 0" "low \<noteq> 0"
    and "kernel_machine F m img stack h madt es stub" "checkApic cpu"
  shows "\<exists>ho t m'. stage1Main (False, low) b13 b15 lfn kernel_bin os0 f0 m dx stop cursor = Some (Inr (ho, t, m')) \<and>
    initAddr ho = e_entry (ehdr_at F 0) \<and>
    (\<forall>m2. (\<forall>x. x \<notin> stack \<longrightarrow> m2 x = m' x) \<longrightarrow>
       kmain os1 img True cpu s tr c m2 MULTIBOOT_CUSTOM_BOOTLOADER_MAGIC (termIndex ho) =
         Some (Panicked ''Interrupt called with vector 34'', interrupt_state img cpu s tr h madt (first_type1 (madt + 44) es)))"
proof -
  obtain ho t m' where r: "stage1Main (False, low) b13 b15 lfn kernel_bin os0 f0 m dx stop cursor = Some (Inr (ho, t, m'))"
      "initAddr ho = e_entry (ehdr_at F 0)" "kernel_loaded F m'" "\<forall>x. spared F x \<longrightarrow> m' x = m x"
    using stage1_boots [OF assms(1-16), of os0 f0 cursor] by blast
  have img: "unat (endSymbol img) + 4096 \<le> 2 ^ 32" "test_interrupt_safe img" using assms(17) by (simp_all add: kernel_machine_def)
  note found = kernel_machine_found [OF assms(17,9) r(3,4)]
  then show ?thesis using r(1,2) kmain_interrupt [OF assms(18) img(2) found(1) img(1) found(2)] by blast
qed

theorem disk_to_interrupt_witness:
  "\<forall>os0 f0 os1 s tr c. \<exists>ho t m' st. stage1Main (False, 639) (model_bios (boot_disk 0x7F)) one_region_bios 0x2000 0x2010 os0 f0 boot_memory 0x80 0x8000 0 =
       Some (Inr (ho, t, m')) \<and> initAddr ho = 0x100064 \<and>
     kmain os1 boot_image True (\<lambda>_. (0x6a0, 0, 0, 0x200)) s tr c m' MULTIBOOT_CUSTOM_BOOTLOADER_MAGIC (termIndex ho) =
       Some (Panicked ''Interrupt called with vector 34'', st) \<and>
     k_ioapic st = Some \<lparr>ioapic_entry = 0xe202c\<rparr> \<and> idt_register (k_trace st) = Some (0xFFF, 0x102000)"
proof (intro allI)
  fix os0 f0 os1 s tr c
  let ?F = "boot_file 0x7F" and ?D = "boot_disk 0x7F"
  have b: "bios_reads (model_bios ?D) (ucast (0x80 :: u32)) ?D" by (rule model_bios_reads)
  have elf: "elf_kernel ?F (512 * length [3, 4, 5 :: u32])" "first_header ?F (512 * length [3, 4, 5 :: u32]) 21"
    using boot_file_elf(1) boot_file_header(1) by simp_all
  have cpu: "checkApic (\<lambda>_. (0x6a0, 0, 0, 0x200))" by (simp add: checkApic_def cpuid_def cpuid_feature_mask_def)
  obtain ho t m' where r: "stage1Main (False, 639) (model_bios ?D) one_region_bios 0x2000 0x2010 os0 f0 boot_memory 0x80 0x8000 0 = Some (Inr (ho, t, m'))"
      "initAddr ho = 0x100064"
      "kmain os1 boot_image True (\<lambda>_. (0x6a0, 0, 0, 0x200)) s tr c m' MULTIBOOT_CUSTOM_BOOTLOADER_MAGIC (termIndex ho) =
         Some (Panicked ''Interrupt called with vector 34'',
           interrupt_state boot_image (\<lambda>_. (0x6a0, 0, 0, 0x200)) s tr rom_header 0xe2000 (first_type1 (0xe2000 + 44) [(1, 12)]))"
    using disk_to_interrupt [OF b boot_partition boot_kernel _ boot_room boot_names boot_file_def elf refl one_region_map _ _ _ _ boot_machine cpu,
        where low = 639 and ?os0.0 = os0 and ?f0.0 = f0 and cursor = 0 and ?os1.0 = os1 and s = s and tr = tr and c = c]
    by (auto simp: boot_file_elf(2) one_region_def)
  moreover have "idt_register (tr @ disablePIC [] @ [Cli, Lidt 0xFFF (0x102000 :: u32), Sti]) = Some (0xFFF, 0x102000)"
    by (rule idt_register_loaded)
  ultimately show "\<exists>ho t m' st. stage1Main (False, 639) (model_bios ?D) one_region_bios 0x2000 0x2010 os0 f0 boot_memory 0x80 0x8000 0 = Some (Inr (ho, t, m')) \<and>
     initAddr ho = 0x100064 \<and>
     kmain os1 boot_image True (\<lambda>_. (0x6a0, 0, 0, 0x200)) s tr c m' MULTIBOOT_CUSTOM_BOOTLOADER_MAGIC (termIndex ho) =
       Some (Panicked ''Interrupt called with vector 34'', st) \<and>
     k_ioapic st = Some \<lparr>ioapic_entry = 0xe202c\<rparr> \<and> idt_register (k_trace st) = Some (0xFFF, 0x102000)"
    by (auto simp: interrupt_state_def boot_image_def)
qed

text \<open>
  C7. When the file of the kernel has more than 8184 bytes, its clusters give at least 8192 bytes, and there is no multiboot header in the first 8192 bytes, the loader stops with the panic
  for a missing header; when it has a header there but is not a 32-bit executable ELF file for the 386, with the panic for an unsupported file. A smaller file without a header
  is not refused: as \<open>multibootHeaderSearch_small_file\<close> says, the search then goes on behind the file and may never end.
\<close>

theorem stage1_refuses_kernel:
  assumes "bios_reads b13 (ucast dx) D" "getPartitionLBA m = Inr LBA" "kernel_on_disk D LBA off N name i e cs"
    and "0x1010 \<le> unat stop" "unat stop + boot_heap (disk_bpd D LBA) i e \<le> 0x70000"
    and "own_literal stop m lfn [76, 70, 78]" "own_literal stop m kernel_bin name"
    and "bios_map b15 cont T" "T \<noteq> []" "length T < 100" "e820_type (T ! 0) \<noteq> 0" "low \<noteq> 0"
    and "F = disk_file D LBA cs"
    and "no_header F (512 * length cs) \<and> 8184 < unat (file_size e) \<or> first_header F (512 * length cs) k \<and> \<not> elf_supported (ehdr_at F 0)"
  shows "stage1Main (False, low) b13 b15 lfn kernel_bin os0 f0 m dx stop cursor =
    Some (Inl (if no_header F (512 * length cs) then no_mbHeader_msg else bad_elf_msg))"
proof -
  let ?fl = "512 * length cs"
  obtain g m2 t L kf P where s: "unat (heap g) = unat stop" "term_inv t" "t_buffer t = FRAMEBUFFER_LOCATION"
      "arena (unat (heap g)) (0x70000 - unat stop) m2 L 2952" "(unat kf, 12) \<in> L" "P = load32 m2 (kf + 8)"
      "(unat P, buffer_size e) \<in> L" "file_at m2 P F ?fl" "load32 m2 (kf + 4) = file_size e"
      "stage1Main (False, low) b13 b15 lfn kernel_bin os0 f0 m dx stop cursor = stage1_load (False, low) b15 (os_hex (os_init os0)) g (ucast dx) t m2 kf"
    using stage1_finds [OF assms(1-7), of "(False, low)" b15 os0 f0 cursor] assms(13) by auto
  have top: "unat (heap g) + (0x70000 - unat stop) \<le> 0x70000" using s(1) assms(5) by simp
  have fl: "?fl \<le> buffer_size e" "?fl \<le> 2 ^ 32"
    using assms(3,5) unfolding kernel_on_disk_def boot_heap_def by auto
  show ?thesis
  proof (cases "no_header F ?fl")
    case True
    have "\<not> first_header F ?fl k" using True by (auto simp: no_header_def first_header_def)
    then show ?thesis using stage1_load_no_header [OF s(4) top s(6,7,9) _ s(8) fl(1) True] assms(14) True s(10) by simp
  next
    case False
    then have h: "first_header F ?fl k" "\<not> elf_supported (ehdr_at F 0)" using assms(14) by blast+
    obtain t1 m3 ret where "file_at m3 P F ?fl"
      "stage1_load (False, low) b15 (os_hex (os_init os0)) g (ucast dx) t m2 kf = stage1_elf (os_hex (os_init os0)) t1 m3 P ret"
      using stage1_load_builds [OF s(4) top s(5-7) fl(1) s(8) h(1) refl s(2,3) assms(8-12)] by blast
    with first_header_ehdr [OF h(1) _ fl(2) h(2)] s(10) False show ?thesis by (simp add: stage1_elf_def)
  qed
qed

theorem stage1_refuses_kernel_witness:
  "\<forall>os0 f0. stage1Main (False, 639) (model_bios zero_disk) one_region_bios 0x2000 0x2010 os0 f0 boot_memory 0x80 0x8000 0 = Some (Inl no_mbHeader_msg) \<and>
     stage1Main (False, 639) (model_bios (boot_disk 0)) one_region_bios 0x2000 0x2010 os0 f0 boot_memory 0x80 0x8000 0 = Some (Inl bad_elf_msg)"
proof (intro allI conjI)
  fix os0 f0
  have b: "bios_reads (model_bios D) (ucast (0x80 :: u32)) D" for D by (rule model_bios_reads)
  have "8184 < unat (file_size (disk_entry zero_disk 1024))" by (simp add: zero_entry)
  then show "stage1Main (False, 639) (model_bios zero_disk) one_region_bios 0x2000 0x2010 os0 f0 boot_memory 0x80 0x8000 0 = Some (Inl no_mbHeader_msg)"
    using stage1_refuses_kernel [OF b boot_partition zero_kernel _ zero_room boot_names one_region_map _ _ _ _ refl, where low = 639 and ?os0.0 = os0 and ?f0.0 = f0 and cursor = 0]
      zero_no_header
    by (simp add: one_region_def)
  let ?F = "boot_file 0"
  have "\<not> no_header ?F (512 * length [3, 4, 5 :: u32])" by (simp add: no_header_def)
  moreover have "first_header ?F (512 * length [3, 4, 5 :: u32]) 21 \<and> \<not> elf_supported (ehdr_at ?F 0)"
    using boot_file_header(1) bad_file by simp
  ultimately show "stage1Main (False, 639) (model_bios (boot_disk 0)) one_region_bios 0x2000 0x2010 os0 f0 boot_memory 0x80 0x8000 0 = Some (Inl bad_elf_msg)"
    using stage1_refuses_kernel [OF b boot_partition boot_kernel _ boot_room boot_names one_region_map _ _ _ _ boot_file_def, where low = 639 and k = 21]
    by (simp add: one_region_def)
qed

end
